(* ===== verification/Prelude.thy ===== *)
theory Prelude
  imports Main "HOL-Library.Word"
begin

unbundle bit_operations_syntax

text \<open>
  The vocabulary every component shares: the machine integers of the Rust code, the
  outcome of a Rust call (a value, an \<open>Err\<close> or a panic), the state-passing type of the code
  that talks to a device, and the list operations of the standard library that the sources
  use (\<open>position\<close>, slices, \<open>chunks\<close>), each with the lemmas the component theories rest on.

  \<^item> \<open>u8\<close>, \<open>u16\<close>, \<open>u32\<close>, \<open>u64\<close> are words of that width; \<open>usize\<close> is \<open>nat\<close>, with the
    64-bit limit written out where the source uses a checked operation.
  \<^item> A function that can panic or fail returns \<open>result\<close>. The release profile keeps
    overflow checks on, so an overflowing \<open>+\<close> is \<open>Panic\<close>, not a wrap-around.
  \<^item> A function with effects has type \<open>io\<close>: it takes the world and returns the outcome
    and the new world, or \<open>None\<close> when it never returns.
\<close>

section \<open>Machine integers\<close>

type_synonym u8 = "8 word"
type_synonym u16 = "16 word"
type_synonym u32 = "32 word"
type_synonym u64 = "64 word"

text \<open>The theorem collections the component proofs draw on.\<close>

named_theorems io_simps \<open>evaluation of the state-passing combinators\<close>
named_theorems result_simps \<open>evaluation of outcomes\<close>
named_theorems keeps_intros \<open>an action keeps an invariant of the world\<close>
named_theorems wire_lengths \<open>lengths of encoded messages\<close>

section \<open>Outcomes\<close>

datatype ('a, 'e) result = Ok 'a | Err 'e | Panic

definition rbind :: "('a, 'e) result \<Rightarrow> ('a \<Rightarrow> ('b, 'e) result) \<Rightarrow> ('b, 'e) result" where
  "rbind r f = (case r of Ok x \<Rightarrow> f x | Err e \<Rightarrow> Err e | Panic \<Rightarrow> Panic)"

definition rmap :: "('a \<Rightarrow> 'b) \<Rightarrow> ('a, 'e) result \<Rightarrow> ('b, 'e) result" where
  "rmap f r = (case r of Ok x \<Rightarrow> Ok (f x) | Err e \<Rightarrow> Err e | Panic \<Rightarrow> Panic)"

definition map_err :: "('e \<Rightarrow> 'f) \<Rightarrow> ('a, 'e) result \<Rightarrow> ('a, 'f) result" where
  "map_err g r = (case r of Ok x \<Rightarrow> Ok x | Err e \<Rightarrow> Err (g e) | Panic \<Rightarrow> Panic)"

definition ok_or :: "'a option \<Rightarrow> 'e \<Rightarrow> ('a, 'e) result" where
  "ok_or x e = (case x of Some y \<Rightarrow> Ok y | None \<Rightarrow> Err e)"

definition unwrap_or_panic :: "'a option \<Rightarrow> ('a, 'e) result" where
  "unwrap_or_panic x = (case x of Some y \<Rightarrow> Ok y | None \<Rightarrow> Panic)"

lemma rbind_simps [simp, result_simps]:
  "rbind (Ok x) f = f x"
  "rbind (Err e) f = Err e"
  "rbind Panic f = Panic"
  by (simp_all add: rbind_def)

lemma rmap_simps [simp, result_simps]:
  "rmap h (Ok x) = Ok (h x)"
  "rmap h (Err e) = Err e"
  "rmap h Panic = Panic"
  by (simp_all add: rmap_def)

lemma map_err_simps [simp, result_simps]:
  "map_err g (Ok x) = Ok x"
  "map_err g (Err e) = Err (g e)"
  "map_err g Panic = Panic"
  by (simp_all add: map_err_def)

lemma ok_or_simps [simp, result_simps]:
  "ok_or (Some y) e = Ok y"
  "ok_or None e = Err e"
  by (simp_all add: ok_or_def)

lemma unwrap_or_panic_simps [simp, result_simps]:
  "unwrap_or_panic (Some y) = Ok y"
  "unwrap_or_panic None = Panic"
  by (simp_all add: unwrap_or_panic_def)

lemma rbind_cong:
  assumes "r = r'" and "\<And>x. r' = Ok x \<Longrightarrow> f x = f' x"
  shows "rbind r f = rbind r' f'"
  using assms by (cases r') auto

lemma rbind_eq_Ok: "rbind r f = Ok y \<longleftrightarrow> (\<exists>x. r = Ok x \<and> f x = Ok y)"
  by (cases r) auto

lemma rbind_eq_Err: "rbind r f = Err e \<longleftrightarrow> r = Err e \<or> (\<exists>x. r = Ok x \<and> f x = Err e)"
  by (cases r) auto

lemma rbind_eq_Panic: "rbind r f = Panic \<longleftrightarrow> r = Panic \<or> (\<exists>x. r = Ok x \<and> f x = Panic)"
  by (cases r) auto

lemma rbind_assoc: "rbind (rbind r f) g = rbind r (\<lambda>x. rbind (f x) g)"
  by (cases r) auto

text \<open>Checked arithmetic of the release profile, and of \<open>checked_*\<close> on \<open>usize\<close>.\<close>

definition add_u32 :: "u32 \<Rightarrow> u32 \<Rightarrow> (u32, 'e) result" where
  "add_u32 a b = (if unat a + unat b < 2 ^ 32 then Ok (a + b) else Panic)"

definition usize_limit :: nat where
  "usize_limit = 2 ^ 64"

lemma usize_limit_num: "usize_limit = 18446744073709551616"
  by (simp add: usize_limit_def)

definition checked_add_usize :: "nat \<Rightarrow> nat \<Rightarrow> nat option" where
  "checked_add_usize a b = (if a + b < usize_limit then Some (a + b) else None)"

definition sub_usize :: "nat \<Rightarrow> nat \<Rightarrow> (nat, 'e) result" where
  "sub_usize a b = (if b \<le> a then Ok (a - b) else Panic)"

lemma sub_usize_ok [simp, result_simps]: "b \<le> a \<Longrightarrow> sub_usize a b = Ok (a - b)"
  by (simp add: sub_usize_def)

definition checked_mul_usize :: "nat \<Rightarrow> nat \<Rightarrow> nat option" where
  "checked_mul_usize a b = (if a * b < usize_limit then Some (a * b) else None)"

lemma add_u32_ok:
  "unat a + unat b < 2 ^ 32 \<Longrightarrow> add_u32 a b = Ok (a + b)"
  by (simp add: add_u32_def)

lemma unat_add_u32:
  fixes a b :: u32
  shows "unat a + unat b < 2 ^ 32 \<Longrightarrow> unat (a + b) = unat a + unat b"
  by (simp add: unat_word_ariths)

section \<open>Effects: state passing over a world\<close>

type_synonym ('a, 'e, 'w) io = "'w \<Rightarrow> (('a, 'e) result \<times> 'w) option"

definition io_return :: "'a \<Rightarrow> ('a, 'e, 'w) io" where
  "io_return x w = Some (Ok x, w)"

definition io_fail :: "'e \<Rightarrow> ('a, 'e, 'w) io" where
  "io_fail e w = Some (Err e, w)"

definition io_lift :: "('a, 'e) result \<Rightarrow> ('a, 'e, 'w) io" where
  "io_lift r w = Some (r, w)"

definition io_modify :: "('w \<Rightarrow> 'w) \<Rightarrow> (unit, 'e, 'w) io" where
  "io_modify f w = Some (Ok (), f w)"

definition io_bind :: "('a, 'e, 'w) io \<Rightarrow> ('a \<Rightarrow> ('b, 'e, 'w) io) \<Rightarrow> ('b, 'e, 'w) io" where
  "io_bind m f w =
     (case m w of
        None \<Rightarrow> None
      | Some (r, w') \<Rightarrow>
          (case r of
             Ok x \<Rightarrow> f x w'
           | Err e \<Rightarrow> Some (Err e, w')
           | Panic \<Rightarrow> Some (Panic, w')))"

text \<open>The conversion that Rust's \<open>?\<close> applies through \<open>From\<close>, and \<open>map_err\<close>.\<close>

definition io_map_err :: "('e \<Rightarrow> 'f) \<Rightarrow> ('a, 'e, 'w) io \<Rightarrow> ('a, 'f, 'w) io" where
  "io_map_err g m w = (case m w of None \<Rightarrow> None | Some (r, w') \<Rightarrow> Some (map_err g r, w'))"

lemma io_basic_simps [simp, io_simps]:
  "io_return x w = Some (Ok x, w)"
  "io_fail e w = Some (Err e, w)"
  "io_lift r w = Some (r, w)"
  "io_modify f w = Some (Ok (), f w)"
  by (simp_all add: io_return_def io_fail_def io_lift_def io_modify_def)

lemma io_bind_Ok [simp, io_simps]:
  "m w = Some (Ok x, w') \<Longrightarrow> io_bind m f w = f x w'"
  by (simp add: io_bind_def)

lemma io_bind_Err [simp, io_simps]:
  "m w = Some (Err e, w') \<Longrightarrow> io_bind m f w = Some (Err e, w')"
  by (simp add: io_bind_def)

lemma io_bind_Panic [simp, io_simps]:
  "m w = Some (Panic, w') \<Longrightarrow> io_bind m f w = Some (Panic, w')"
  by (simp add: io_bind_def)

lemma io_bind_None [simp, io_simps]:
  "m w = None \<Longrightarrow> io_bind m f w = None"
  by (simp add: io_bind_def)

lemma io_lift_bind: "io_bind (io_lift (Ok x)) f w = f x w"
  by (simp add: io_bind_def)

lemma io_bind_cong [fundef_cong]:
  assumes "w = w'" and "m w' = m' w'" and "\<And>x w''. m' w' = Some (Ok x, w'') \<Longrightarrow> f x w'' = f' x w''"
  shows "io_bind m f w = io_bind m' f' w'"
  using assms by (auto simp: io_bind_def split: option.splits prod.splits result.splits)

lemma io_bind_Some_iff:
  "io_bind m f w = Some (r, w'') \<longleftrightarrow>
     (\<exists>x w'. m w = Some (Ok x, w') \<and> f x w' = Some (r, w'')) \<or>
     (\<exists>e. m w = Some (Err e, w'') \<and> r = Err e) \<or>
     (m w = Some (Panic, w'') \<and> r = Panic)"
  by (auto simp: io_bind_def split: option.splits prod.splits result.splits)

lemma io_bind_eq_Ok:
  "io_bind m f w = Some (Ok y, w'') \<longleftrightarrow>
     (\<exists>x w'. m w = Some (Ok x, w') \<and> f x w' = Some (Ok y, w''))"
  by (simp add: io_bind_Some_iff)

lemma io_bind_return [simp]: "io_bind m io_return = m"
  by (auto simp: io_bind_def fun_eq_iff split: option.splits prod.splits result.splits)

lemma io_bind_assoc: "io_bind (io_bind m f) g = io_bind m (\<lambda>x. io_bind (f x) g)"
  by (auto simp: io_bind_def fun_eq_iff split: option.splits prod.splits result.splits)

lemma io_map_err_eq [simp, io_simps]:
  "m w = Some (r, w') \<Longrightarrow> io_map_err g m w = Some (map_err g r, w')"
  "m w = None \<Longrightarrow> io_map_err g m w = None"
  by (simp_all add: io_map_err_def)

lemma io_map_err_eq_Ok:
  "io_map_err g m w = Some (Ok x, w') \<longleftrightarrow> m w = Some (Ok x, w')"
  by (auto simp: io_map_err_def map_err_def split: option.splits prod.splits result.splits)

text \<open>
  \<open>io_keeps I m\<close>: whatever the outcome of \<open>m\<close>, it leaves the invariant \<open>I\<close> of the
  world intact. \<open>io_total P m\<close>: from every world satisfying \<open>P\<close>, \<open>m\<close> returns.
\<close>

definition io_keeps :: "('w \<Rightarrow> bool) \<Rightarrow> ('a, 'e, 'w) io \<Rightarrow> bool" where
  "io_keeps I m \<longleftrightarrow> (\<forall>w r w'. I w \<longrightarrow> m w = Some (r, w') \<longrightarrow> I w')"

definition io_total :: "('w \<Rightarrow> bool) \<Rightarrow> ('a, 'e, 'w) io \<Rightarrow> bool" where
  "io_total P m \<longleftrightarrow> (\<forall>w. P w \<longrightarrow> (\<exists>r w'. m w = Some (r, w') \<and> P w'))"

lemma io_keepsI:
  "(\<And>w r w'. I w \<Longrightarrow> m w = Some (r, w') \<Longrightarrow> I w') \<Longrightarrow> io_keeps I m"
  by (auto simp: io_keeps_def)

lemma io_keepsD: "io_keeps I m \<Longrightarrow> I w \<Longrightarrow> m w = Some (r, w') \<Longrightarrow> I w'"
  by (auto simp: io_keeps_def)

lemma io_keeps_basic [simp, intro, keeps_intros]:
  "io_keeps I (io_return x)" "io_keeps I (io_fail e)" "io_keeps I (io_lift r)"
  by (auto simp: io_keeps_def)

lemma io_keeps_bind [keeps_intros]:
  assumes "io_keeps I m" and "\<And>x. io_keeps I (f x)"
  shows "io_keeps I (io_bind m f)"
  using assms unfolding io_keeps_def io_bind_Some_iff by blast

lemma io_keeps_map_err [keeps_intros]: "io_keeps I m \<Longrightarrow> io_keeps I (io_map_err g m)"
  by (auto simp: io_keeps_def io_map_err_def split: option.splits prod.splits)

lemma io_total_basic [simp, intro]:
  "io_total P (io_return x)" "io_total P (io_fail e)" "io_total P (io_lift r)"
  by (auto simp: io_total_def)

lemma io_totalD: "io_total P m \<Longrightarrow> P w \<Longrightarrow> \<exists>r w'. m w = Some (r, w') \<and> P w'"
  by (auto simp: io_total_def)

lemma io_total_bind:
  assumes "io_total P m" and "\<And>x. io_total P (f x)"
  shows "io_total P (io_bind m f)"
  unfolding io_total_def
proof (intro allI impI)
  fix w assume "P w"
  with assms(1) obtain r w' where m: "m w = Some (r, w')" and w': "P w'"
    by (auto simp: io_total_def)
  show "\<exists>r w'. io_bind m f w = Some (r, w') \<and> P w'"
  proof (cases r)
    case (Ok x)
    with m have "io_bind m f w = f x w'" by simp
    then show ?thesis using assms(2) [of x] w' by (auto simp: io_total_def)
  qed (use m w' in auto)
qed

lemma io_total_map_err: "io_total P m \<Longrightarrow> io_total P (io_map_err g m)"
  by (fastforce simp: io_total_def io_map_err_def split: option.splits prod.splits)

section \<open>Slices and iterators of the standard library\<close>

text \<open>\<open>iter().position(P)\<close>: the index of the first element that satisfies \<open>P\<close>.\<close>

fun position :: "('a \<Rightarrow> bool) \<Rightarrow> 'a list \<Rightarrow> nat option" where
  "position P [] = None"
| "position P (x # xs) = (if P x then Some 0 else map_option Suc (position P xs))"

lemma position_None_iff: "position P xs = None \<longleftrightarrow> (\<forall>x \<in> set xs. \<not> P x)"
  by (induction xs) auto

lemma position_none [simp]: "\<forall>x \<in> set xs. \<not> P x \<Longrightarrow> position P xs = None"
  by (simp add: position_None_iff)

lemma position_append:
  "\<forall>x \<in> set xs. \<not> P x \<Longrightarrow> position P (xs @ ys) = map_option ((+) (length xs)) (position P ys)"
proof (induction xs)
  case Nil
  show ?case by (cases "position P ys") simp_all
next
  case (Cons x xs)
  then show ?case by (simp add: option.map_comp comp_def)
qed

lemma position_append_hit [simp]:
  "\<forall>x \<in> set xs. \<not> P x \<Longrightarrow> P y \<Longrightarrow> position P (xs @ y # ys) = Some (length xs)"
  by (simp add: position_append)

lemma position_Some_split:
  "position P xs = Some i \<Longrightarrow>
     xs = take i xs @ xs ! i # drop (Suc i) xs \<and> i < length xs \<and> P (xs ! i) \<and>
     (\<forall>x \<in> set (take i xs). \<not> P x)"
proof (induction xs arbitrary: i)
  case Nil
  then show ?case by simp
next
  case (Cons x xs)
  show ?case
  proof (cases "P x")
    case True
    with Cons.prems show ?thesis by simp
  next
    case False
    with Cons.prems obtain j where j: "position P xs = Some j" "i = Suc j" by auto
    from Cons.IH [OF j(1)] have "xs = take j xs @ xs ! j # drop (Suc j) xs"
      and rest: "j < length xs" "P (xs ! j)" "\<forall>x \<in> set (take j xs). \<not> P x" by simp_all
    with False j(2) show ?thesis by simp
  qed
qed

lemma position_Some_length: "position P xs = Some i \<Longrightarrow> i < length xs"
  using position_Some_split [of P xs i] by simp

lemma position_dropWhile:
  "position P xs = Some i \<Longrightarrow> drop i xs = dropWhile (\<lambda>x. \<not> P x) xs"
  "position P xs = None \<Longrightarrow> dropWhile (\<lambda>x. \<not> P x) xs = []"
  by (induction xs arbitrary: i) (auto split: if_splits)

lemma position_stable: "position P xs = Some i \<Longrightarrow> position P (xs @ ys) = Some i"
  by (induction xs arbitrary: i) (auto split: if_splits)

text \<open>\<open>xs.get(a..b)\<close>, and the panicking \<open>&xs[a..b]\<close> and \<open>xs[i]\<close>.\<close>

definition get_range :: "'a list \<Rightarrow> nat \<Rightarrow> nat \<Rightarrow> 'a list option" where
  "get_range xs a b = (if a \<le> b \<and> b \<le> length xs then Some (take (b - a) (drop a xs)) else None)"

definition slice :: "'a list \<Rightarrow> nat \<Rightarrow> nat \<Rightarrow> ('a list, 'e) result" where
  "slice xs a b = unwrap_or_panic (get_range xs a b)"

definition index :: "'a list \<Rightarrow> nat \<Rightarrow> ('a, 'e) result" where
  "index xs i = (if i < length xs then Ok (xs ! i) else Panic)"

lemma get_range_ok:
  "a \<le> b \<Longrightarrow> b \<le> length xs \<Longrightarrow> get_range xs a b = Some (take (b - a) (drop a xs))"
  by (simp add: get_range_def)

lemma get_range_Some_iff:
  "get_range xs a b = Some ys \<longleftrightarrow> a \<le> b \<and> b \<le> length xs \<and> ys = take (b - a) (drop a xs)"
  by (auto simp: get_range_def)

lemma length_get_range: "get_range xs a b = Some ys \<Longrightarrow> length ys = b - a"
  by (auto simp: get_range_def split: if_splits)

lemma slice_ok [simp, result_simps]:
  "a \<le> b \<Longrightarrow> b \<le> length xs \<Longrightarrow> slice xs a b = Ok (take (b - a) (drop a xs))"
  by (simp add: slice_def get_range_def)

lemma index_ok [simp, result_simps]: "i < length xs \<Longrightarrow> index xs i = Ok (xs ! i)"
  by (simp add: index_def)

text \<open>\<open>xs.chunks(n)\<close>: consecutive pieces of \<open>n\<close> elements, the last one possibly shorter.\<close>

function chunks :: "nat \<Rightarrow> 'a list \<Rightarrow> 'a list list" where
  "chunks n xs = (if xs = [] \<or> n = 0 then [] else take n xs # chunks n (drop n xs))"
  by pat_completeness auto
termination
  by (relation "measure (\<lambda>(n, xs). length xs)") auto

declare chunks.simps [simp del]

lemma chunks_Nil [simp]: "chunks n [] = []"
  by (simp add: chunks.simps)

lemma chunks_step: "xs \<noteq> [] \<Longrightarrow> 0 < n \<Longrightarrow> chunks n xs = take n xs # chunks n (drop n xs)"
  by (subst chunks.simps) (cases xs; simp)

lemma chunks_one: "xs \<noteq> [] \<Longrightarrow> length xs \<le> n \<Longrightarrow> chunks n xs = [xs]"
  by (subst chunks.simps) (cases xs; simp)

lemma concat_chunks [simp]: "0 < n \<Longrightarrow> concat (chunks n xs) = xs"
proof (induction n xs rule: chunks.induct)
  case (1 n xs)
  show ?case
  proof (cases "xs = []")
    case False
    have "\<not> (xs = [] \<or> n = 0)" using False 1(2) by blast
    then have "concat (chunks n (drop n xs)) = drop n xs" using 1(2) by (rule 1(1))
    moreover have "chunks n xs = take n xs # chunks n (drop n xs)"
      using False 1(2) by (rule chunks_step)
    ultimately show ?thesis by (simp only: concat.simps append_take_drop_id)
  qed simp
qed

lemma chunks_bounds: "c \<in> set (chunks n xs) \<Longrightarrow> c \<noteq> [] \<and> length c \<le> n \<and> length c \<le> length xs"
proof (induction n xs rule: chunks.induct)
  case (1 n xs)
  show ?case
  proof (cases "xs = [] \<or> n = 0")
    case True
    with 1 show ?thesis by (simp add: chunks.simps)
  next
    case False
    with "1.prems" have "c = take n xs \<or> c \<in> set (chunks n (drop n xs))"
      by (simp add: chunks_step)
    then show ?thesis
    proof
      assume "c = take n xs"
      with False show ?thesis by simp
    next
      assume "c \<in> set (chunks n (drop n xs))"
      with "1.IH" False show ?thesis by fastforce
    qed
  qed
qed

lemma length_chunks: "0 < n \<Longrightarrow> length (chunks n xs) = (length xs + n - 1) div n"
proof (induction n xs rule: chunks.induct)
  case (1 n xs)
  show ?case
  proof (cases "xs = []")
    case True
    with 1 show ?thesis by simp
  next
    case False
    show ?thesis
    proof (cases "length xs \<le> n")
      case True
      have "(length xs + n - 1) div n = 1"
      proof (rule div_nat_eqI)
        have "0 < length xs" using False by simp
        with 1 show "n * 1 \<le> length xs + n - 1" by linarith
        show "length xs + n - 1 < n * Suc 1" using True \<open>0 < length xs\<close> 1 by simp
      qed
      with True False show ?thesis by (simp add: chunks_one)
    next
      case long: False
      have "length (chunks n xs) = Suc (length (chunks n (drop n xs)))"
        using False 1 by (simp add: chunks_step)
      also have "\<dots> = Suc ((length xs - n + n - 1) div n)"
        using 1 False by simp
      also have "\<dots> = Suc ((length xs - 1) div n)"
        using long by simp
      also have "\<dots> = ((length xs - 1) + n) div n"
        using 1(2) div_add_self2 [of n "length xs - 1"] by linarith
      also have "(length xs - 1) + n = length xs + n - 1"
        using long by simp
      finally show ?thesis .
    qed
  qed
qed

end
