(* ===== verification/Bytes.thy ===== *)
theory Bytes
  imports Prelude
begin

text \<open>
  The byte-order conversions of the standard library (\<open>to_be_bytes\<close>, \<open>from_le_bytes\<close>, ...)
  at the widths the protocol uses, with their round trips, their numeric meaning and the
  single-byte facts the framing and checksum proofs share.
\<close>

definition to_be16 :: "u16 \<Rightarrow> u8 list" where
  "to_be16 x = [ucast (drop_bit 8 x), ucast x]"

definition to_le16 :: "u16 \<Rightarrow> u8 list" where
  "to_le16 x = [ucast x, ucast (drop_bit 8 x)]"

definition to_be32 :: "u32 \<Rightarrow> u8 list" where
  "to_be32 x = [ucast (drop_bit 24 x), ucast (drop_bit 16 x), ucast (drop_bit 8 x), ucast x]"

definition to_le32 :: "u32 \<Rightarrow> u8 list" where
  "to_le32 x = [ucast x, ucast (drop_bit 8 x), ucast (drop_bit 16 x), ucast (drop_bit 24 x)]"

definition from_be16 :: "u8 \<Rightarrow> u8 \<Rightarrow> u16" where
  "from_be16 a b = push_bit 8 (ucast a) OR ucast b"

definition from_le16 :: "u8 \<Rightarrow> u8 \<Rightarrow> u16" where
  "from_le16 a b = from_be16 b a"

definition from_be32 :: "u8 \<Rightarrow> u8 \<Rightarrow> u8 \<Rightarrow> u8 \<Rightarrow> u32" where
  "from_be32 a b c d =
     push_bit 24 (ucast a) OR push_bit 16 (ucast b) OR push_bit 8 (ucast c) OR ucast d"

definition from_le32 :: "u8 \<Rightarrow> u8 \<Rightarrow> u8 \<Rightarrow> u8 \<Rightarrow> u32" where
  "from_le32 a b c d = from_be32 d c b a"

lemma length_to_bytes [simp, wire_lengths]:
  "length (to_be16 x) = 2" "length (to_le16 x) = 2"
  "length (to_be32 y) = 4" "length (to_le32 y) = 4"
  by (simp_all add: to_be16_def to_le16_def to_be32_def to_le32_def)

lemma from_be16_to_be16 [simp]: "from_be16 (ucast (drop_bit 8 x)) (ucast x) = x"
  unfolding from_be16_def by (rule bit_word_eqI) (auto simp: bit_simps)

lemma from_le16_to_le16 [simp]: "from_le16 (ucast x) (ucast (drop_bit 8 x)) = x"
  by (simp add: from_le16_def)

lemma from_be32_to_be32 [simp]:
  fixes x :: u32
  shows "from_be32 (ucast (drop_bit 24 x)) (ucast (drop_bit 16 x)) (ucast (drop_bit 8 x)) (ucast x) = x"
  unfolding from_be32_def
proof (rule bit_word_eqI)
  fix n assume "n < LENGTH(32)"
  then have n: "n < 32" by simp
  consider "n < 8" | "8 \<le> n" "n < 16" | "16 \<le> n" "n < 24" | "24 \<le> n" by linarith
  then show "bit (push_bit 24 (ucast (ucast (drop_bit 24 x) :: u8)) OR
      push_bit 16 (ucast (ucast (drop_bit 16 x) :: u8)) OR
      push_bit 8 (ucast (ucast (drop_bit 8 x) :: u8)) OR ucast (ucast x :: u8) :: u32) n = bit x n"
    by cases (use n in \<open>auto simp: bit_simps\<close>)
qed

lemma from_le32_to_le32 [simp]:
  "from_le32 (ucast x) (ucast (drop_bit 8 x)) (ucast (drop_bit 16 x)) (ucast (drop_bit 24 x)) = x"
  by (simp add: from_le32_def)

lemma xor_cancel_right [simp]: "a XOR p = b XOR p \<longleftrightarrow> a = (b :: 'l::len word)"
  by (metis xor.assoc xor_self_eq xor.right_neutral)

lemma xor_cancel_left [simp]: "p XOR a = p XOR b \<longleftrightarrow> a = (b :: 'l::len word)"
  by (metis xor.commute xor_cancel_right)

lemma byte_bit_bound: "bit (b :: u8) n \<Longrightarrow> n < 8"
  using bit_imp_le_length [of b n] by simp

lemma to_be16_from_be16 [simp]:
  "(ucast (drop_bit 8 (from_be16 a b)) :: u8) = a" "(ucast (from_be16 a b) :: u8) = b"
  unfolding from_be16_def
  by (rule bit_word_eqI; auto simp: bit_simps dest: byte_bit_bound)+

lemma from_be16_eq_iff [simp]: "from_be16 a b = from_be16 c d \<longleftrightarrow> a = c \<and> b = d"
  by (metis to_be16_from_be16)

lemma to_be16_eq_iff [simp]: "to_be16 x = to_be16 y \<longleftrightarrow> x = y"
  by (metis to_be16_def from_be16_to_be16 list.inject)

lemma unat_byte_less [simp]: "unat (b :: u8) < 256"
  using unsigned_less [of b, where ?'a = nat] by simp

lemma unat_ucast_byte16 [simp]: "unat (ucast (b :: u8) :: u16) = unat b"
  using unat_byte_less [of b]
  by (simp add: unsigned_ucast_eq take_bit_eq_mod del: unat_byte_less)

lemma unat_ucast_byte32 [simp]: "unat (ucast (b :: u8) :: u32) = unat b"
  using unat_byte_less [of b]
  by (simp add: unsigned_ucast_eq take_bit_eq_mod del: unat_byte_less)

lemma unat_byte_le: "unat (b :: u8) \<le> 255"
  using unat_byte_less [of b] by linarith

lemma unat_u16_less [simp]: "unat (x :: u16) < 65536"
  using unsigned_less [of x, where ?'a = nat] by simp

lemma unat_u32_less [simp]: "unat (x :: u32) < 4294967296"
  using unsigned_less [of x, where ?'a = nat] by simp

lemma unat_from_be16: "unat (from_be16 a b) = unat a * 256 + unat b"
proof -
  have "(push_bit 8 (ucast a) :: u16) AND ucast b = 0"
    by (rule bit_word_eqI) (auto simp: bit_simps dest: byte_bit_bound)
  then have "from_be16 a b = push_bit 8 (ucast a) + ucast b"
    unfolding from_be16_def by (simp add: disjunctive_add_eq_or)
  moreover have "unat (push_bit 8 (ucast a) :: u16) = unat a * 256"
    using unat_byte_less [of a]
    by (simp add: push_bit_eq_mult unat_word_ariths del: unat_byte_less)
  ultimately show ?thesis
    using unat_byte_less [of a] unat_byte_less [of b]
    by (simp add: unat_word_ariths del: unat_byte_less)
qed

lemma unat_from_le16: "unat (from_le16 a b) = unat b * 256 + unat a"
  by (simp add: from_le16_def unat_from_be16)

lemma unat_of_nat_u16: "n < 65536 \<Longrightarrow> unat (word_of_nat n :: u16) = n"
  by (simp add: unat_of_nat)

lemma unat_of_nat_u32: "n < 4294967296 \<Longrightarrow> unat (word_of_nat n :: u32) = n"
  by (simp add: unat_of_nat)

lemma unat_be16_hi_lo: "unat (ucast (drop_bit 8 x) :: u8) * 256 + unat (ucast x :: u8) = unat (x :: u16)"
  by (metis from_be16_to_be16 unat_from_be16)

text \<open>Reading a big- or little-endian word at an offset panics past the end.\<close>

definition be16_at :: "u8 list \<Rightarrow> nat \<Rightarrow> (u16, 'e) result" where
  "be16_at d off = (if off + 2 \<le> length d then Ok (from_be16 (d ! off) (d ! (off + 1))) else Panic)"

definition le16_at :: "u8 list \<Rightarrow> nat \<Rightarrow> (u16, 'e) result" where
  "le16_at d off = (if off + 2 \<le> length d then Ok (from_le16 (d ! off) (d ! (off + 1))) else Panic)"

definition be32_at :: "u8 list \<Rightarrow> nat \<Rightarrow> (u32, 'e) result" where
  "be32_at d off =
     (if off + 4 \<le> length d
      then Ok (from_be32 (d ! off) (d ! (off + 1)) (d ! (off + 2)) (d ! (off + 3))) else Panic)"

definition le32_at :: "u8 list \<Rightarrow> nat \<Rightarrow> (u32, 'e) result" where
  "le32_at d off =
     (if off + 4 \<le> length d
      then Ok (from_le32 (d ! off) (d ! (off + 1)) (d ! (off + 2)) (d ! (off + 3))) else Panic)"

lemma read_at_ok [simp, result_simps]:
  "off + 2 \<le> length d \<Longrightarrow> be16_at d off = Ok (from_be16 (d ! off) (d ! (off + 1)))"
  "off + 2 \<le> length d \<Longrightarrow> le16_at d off = Ok (from_le16 (d ! off) (d ! (off + 1)))"
  "off + 4 \<le> length d \<Longrightarrow>
     be32_at d off = Ok (from_be32 (d ! off) (d ! (off + 1)) (d ! (off + 2)) (d ! (off + 3)))"
  "off + 4 \<le> length d \<Longrightarrow>
     le32_at d off = Ok (from_le32 (d ! off) (d ! (off + 1)) (d ! (off + 2)) (d ! (off + 3)))"
  by (simp_all add: be16_at_def le16_at_def be32_at_def le32_at_def)

end
