(* ===== verification/Checksum.thy ===== *)
theory Checksum
  imports Bytes
begin

text \<open>
  The checksums of \<open>crates/sprdflash-core/src/checksum.rs\<close>: the Spreadtrum sum, CRC-16/XMODEM
  computed bit by bit, CRC-16-ARC and CRC-32 driven by precomputed tables, and the NV byte
  sum. Two interfaces carry the theory: \<open>byte_checksum\<close> (an update that loses neither the
  state nor the byte detects every one-byte corruption) and \<open>crc_update\<close> (a byte update that
  equals eight steps of the reflected shift register detects every burst that fits the
  register). Both table-driven CRCs are shown to be instances by proving the table lookup
  equal to the shift register.
\<close>

section \<open>The definitions of the source\<close>

subsection \<open>The Spreadtrum sum\<close>

text \<open>The loop adds little-endian 16-bit words into a \<open>u32\<close>; the release profile panics on overflow.\<close>

fun sprd_acc :: "u32 \<Rightarrow> u8 list \<Rightarrow> (u32, 'e) result" where
  "sprd_acc tot (a # b # rest) =
     rbind (add_u32 tot (ucast a OR push_bit 8 (ucast b))) (\<lambda>t. sprd_acc t rest)"
| "sprd_acc tot [a] = add_u32 tot (ucast a)"
| "sprd_acc tot [] = Ok tot"

definition sprd_sum :: "u8 list \<Rightarrow> (u16, 'e) result" where
  "sprd_sum data =
     rbind (sprd_acc 0 data) (\<lambda>tot0.
     rbind (add_u32 (drop_bit 16 tot0) (tot0 AND 0xFFFF)) (\<lambda>tot.
     rbind (add_u32 tot (drop_bit 16 tot)) (\<lambda>s.
       let folded = NOT s AND 0xFFFF
       in Ok (ucast (drop_bit 8 folded OR push_bit 8 (folded AND 0xFF))))))"

subsection \<open>CRC-16 with polynomial 0x1021, most significant bit first\<close>

definition ccitt_step :: "u32 \<Rightarrow> u32" where
  "ccitt_step crc =
     (if crc AND 0x8000 \<noteq> 0 then push_bit 1 crc XOR 0x11021 else push_bit 1 crc) AND 0xFFFF"

fun ccitt_bits :: "nat \<Rightarrow> u32 \<Rightarrow> u32" where
  "ccitt_bits 0 crc = crc"
| "ccitt_bits (Suc n) crc = ccitt_bits n (ccitt_step crc)"

definition ccitt_update :: "u32 \<Rightarrow> u8 \<Rightarrow> u32" where
  "ccitt_update crc b = ccitt_bits 8 (crc XOR push_bit 8 (ucast b))"

definition crc16_ccitt :: "u8 list \<Rightarrow> u16" where
  "crc16_ccitt data = ucast (foldl ccitt_update 0 data)"

subsection \<open>The table-driven reflected CRCs\<close>

text \<open>The inner loop of both table builders, over any width and polynomial.\<close>

definition crc_shift :: "'l::len word \<Rightarrow> 'l word \<Rightarrow> 'l word" where
  "crc_shift poly crc = (if crc AND 1 \<noteq> 0 then drop_bit 1 crc XOR poly else drop_bit 1 crc)"

fun crc_bits :: "'l::len word \<Rightarrow> nat \<Rightarrow> 'l word \<Rightarrow> 'l word" where
  "crc_bits poly 0 crc = crc"
| "crc_bits poly (Suc n) crc = crc_bits poly n (crc_shift poly crc)"

definition build_arc_table :: "u16 list" where
  "build_arc_table = map (\<lambda>i. crc_bits 0xA001 8 (word_of_nat i)) [0..<256]"

definition build_crc32_table :: "u32 list" where
  "build_crc32_table = map (\<lambda>i. crc_bits 0xEDB88320 8 (word_of_nat i)) [0..<256]"

definition arc_update :: "u16 \<Rightarrow> u8 \<Rightarrow> u16" where
  "arc_update crc b = drop_bit 8 crc XOR build_arc_table ! unat ((crc XOR ucast b) AND 0xFF)"

definition crc16_arc_from :: "u16 \<Rightarrow> u8 list \<Rightarrow> u16" where
  "crc16_arc_from crc data = foldl arc_update crc data"

definition crc16_arc :: "u8 list \<Rightarrow> u16" where
  "crc16_arc data = crc16_arc_from 0 data"

definition crc32_update :: "u32 \<Rightarrow> u8 \<Rightarrow> u32" where
  "crc32_update crc b =
     drop_bit 8 crc XOR build_crc32_table ! unat (ucast (crc XOR ucast b) :: u8)"

definition crc32 :: "u8 list \<Rightarrow> u32" where
  "crc32 data = NOT (foldl crc32_update 0xFFFFFFFF data)"

subsection \<open>The NV byte sum\<close>

definition sum32 :: "u8 list \<Rightarrow> u32" where
  "sum32 data = foldl (\<lambda>acc b. acc + ucast b) 0 data"

section \<open>The shift register\<close>

named_theorems register_eval \<open>running the shift registers on concrete words\<close>

lemma crc_bits_numeral [register_eval]:
  "crc_bits poly (numeral n) crc = crc_bits poly (pred_numeral n) (crc_shift poly crc)"
  by (simp add: numeral_eq_Suc)

lemma ccitt_bits_numeral [register_eval]:
  "ccitt_bits (numeral n) crc = ccitt_bits (pred_numeral n) (ccitt_step crc)"
  by (simp add: numeral_eq_Suc)

lemma and_one_neq_zero_iff: "(x :: 'l::len word) AND 1 \<noteq> 0 \<longleftrightarrow> odd x"
  by (simp add: and_one_eq even_iff_mod_2_eq_zero)

lemma crc_shift_alt:
  "crc_shift poly x = (if odd x then drop_bit 1 x XOR poly else drop_bit 1 x)"
  by (simp add: crc_shift_def and_one_neq_zero_iff)

lemma odd_xor_iff: "odd (x XOR y :: 'l::len word) \<longleftrightarrow> odd x \<noteq> odd y"
  by (simp flip: bit_0 add: bit_xor_iff)

lemma crc_shift_xor: "crc_shift poly (x XOR y) = crc_shift poly x XOR crc_shift poly y"
  by (rule bit_word_eqI) (auto simp: crc_shift_alt odd_xor_iff bit_simps)

lemma crc_bits_xor: "crc_bits poly n (x XOR y) = crc_bits poly n x XOR crc_bits poly n y"
  by (induction n arbitrary: x y) (simp_all add: crc_shift_xor)

lemma crc_bits_add: "crc_bits poly (m + n) x = crc_bits poly n (crc_bits poly m x)"
  by (induction m arbitrary: x) simp_all

lemma crc_bits_clear:
  "(\<And>i. i < n \<Longrightarrow> \<not> bit x i) \<Longrightarrow> crc_bits poly n x = drop_bit n x"
proof (induction n arbitrary: x)
  case 0
  then show ?case by simp
next
  case (Suc n)
  from Suc.prems [of 0] have "crc_shift poly x = drop_bit 1 x"
    by (simp add: crc_shift_alt bit_0)
  moreover have "crc_bits poly n (drop_bit 1 x) = drop_bit n (drop_bit 1 x)"
    by (rule Suc.IH) (use Suc.prems in \<open>auto simp: bit_simps\<close>)
  ultimately show ?case by (simp add: drop_bit_drop_bit)
qed

lemma crc_bits_split:
  "crc_bits poly n x = drop_bit n x XOR crc_bits poly n (take_bit n x)"
proof -
  have x: "x = (x XOR take_bit n x) XOR take_bit n x" by (simp add: xor.assoc)
  have "crc_bits poly n (x XOR take_bit n x) = drop_bit n (x XOR take_bit n x)"
    by (rule crc_bits_clear) (auto simp: bit_simps)
  also have "\<dots> = drop_bit n x"
    by (rule bit_word_eqI) (auto simp: bit_simps)
  finally show ?thesis
    by (subst x) (simp only: crc_bits_xor)
qed

lemma crc_shift_inj:
  fixes poly :: "'l::len word"
  assumes top: "bit poly (LENGTH('l) - 1)" and eq: "crc_shift poly x = crc_shift poly y"
  shows "x = y"
proof -
  have top_bit: "bit (crc_shift poly z) (LENGTH('l) - 1) \<longleftrightarrow> odd z" for z
    using top by (simp add: crc_shift_alt bit_simps)
  with eq have par: "odd x \<longleftrightarrow> odd y" by metis
  with eq have "drop_bit 1 x = drop_bit 1 y"
    by (auto simp: crc_shift_alt split: if_splits)
  then have hi: "bit x (Suc n) = bit y (Suc n)" for n
    by (metis bit_drop_bit_eq comp_apply plus_1_eq_Suc)
  show ?thesis
  proof (rule bit_word_eqI)
    fix n show "bit x n = bit y n"
      using par hi by (cases n) (auto simp: bit_0)
  qed
qed

lemma crc_bits_inj:
  fixes poly :: "'l::len word"
  assumes "bit poly (LENGTH('l) - 1)"
  shows "crc_bits poly n x = crc_bits poly n y \<Longrightarrow> x = y"
  by (induction n arbitrary: x y) (auto dest: crc_shift_inj [OF assms])

section \<open>Interface: a checksum that loses neither the state nor the byte\<close>

locale byte_checksum =
  fixes upd :: "'s \<Rightarrow> u8 \<Rightarrow> 's" and valid :: "'s \<Rightarrow> bool"
  assumes upd_valid: "valid c \<Longrightarrow> valid (upd c b)"
    and upd_state: "valid c \<Longrightarrow> valid c' \<Longrightarrow> upd c b = upd c' b \<Longrightarrow> c = c'"
    and upd_byte: "valid c \<Longrightarrow> upd c b = upd c b' \<Longrightarrow> b = b'"
begin

lemma run_valid: "valid c \<Longrightarrow> valid (foldl upd c bs)"
  by (induction bs arbitrary: c) (auto simp: upd_valid)

lemma run_state: "valid c \<Longrightarrow> valid c' \<Longrightarrow> foldl upd c bs = foldl upd c' bs \<Longrightarrow> c = c'"
proof (induction bs arbitrary: c c')
  case Nil
  then show ?case by simp
next
  case (Cons b bs)
  then have "upd c b = upd c' b" by (auto simp: upd_valid)
  with Cons.prems show ?case by (blast intro: upd_state)
qed

lemma detects_one_byte:
  assumes "valid c" and "x \<noteq> y"
  shows "foldl upd c (p @ x # s) \<noteq> foldl upd c (p @ y # s)"
proof
  assume eq: "foldl upd c (p @ x # s) = foldl upd c (p @ y # s)"
  have v: "valid (foldl upd c p)" using assms(1) by (rule run_valid)
  from eq have "foldl upd (upd (foldl upd c p) x) s = foldl upd (upd (foldl upd c p) y) s"
    by simp
  then have "upd (foldl upd c p) x = upd (foldl upd c p) y"
    using run_state upd_valid v by blast
  with assms(2) v show False using upd_byte by blast
qed

end

section \<open>Interface: a byte update that is eight steps of the reflected register\<close>

text \<open>The bytes of a window as one little-endian word.\<close>

fun window_word :: "u8 list \<Rightarrow> 'l::len word" where
  "window_word [] = 0"
| "window_word (b # bs) = ucast b XOR push_bit 8 (window_word bs)"

lemma window_word_bound: "bit (window_word bs :: 'l::len word) i \<Longrightarrow> i < 8 * length bs"
proof (induction bs arbitrary: i)
  case Nil
  then show ?case by simp
next
  case (Cons b bs)
  from Cons.prems have "bit b i \<or> (8 \<le> i \<and> bit (window_word bs :: 'l word) (i - 8))"
    by (auto simp: bit_simps)
  then show ?case
  proof
    assume "bit b i"
    then have "i < 8" by (rule byte_bit_bound)
    then show ?thesis by simp
  next
    assume a: "8 \<le> i \<and> bit (window_word bs :: 'l word) (i - 8)"
    with Cons.IH [of "i - 8"] have "i - 8 < 8 * length bs" by blast
    with a show ?thesis by simp
  qed
qed

lemma window_word_inj:
  "length a = length b \<Longrightarrow> 8 * length a \<le> LENGTH('l) \<Longrightarrow>
     (window_word a :: 'l::len word) = window_word b \<Longrightarrow> a = b"
proof (induction a b rule: list_induct2')
  case (4 x xs y ys)
  define wx wy where "wx = (window_word xs :: 'l word)" and "wy = (window_word ys :: 'l word)"
  have eq: "(ucast x :: 'l word) XOR push_bit 8 wx = ucast y XOR push_bit 8 wy"
    using "4.prems" by (simp add: wx_def wy_def)
  have len: "8 + 8 * length xs \<le> LENGTH('l)" using "4.prems" by simp
  have bits: "bit ((ucast z :: 'l word) XOR push_bit 8 w) i \<longleftrightarrow>
      (if i < 8 then bit z i else i < LENGTH('l) \<and> bit w (i - 8))" for z :: u8 and w i
    using len by (auto simp: bit_simps dest: byte_bit_bound)
  have "x = y"
    by (rule bit_word_eqI) (metis (no_types, lifting) bits eq len_num1 byte_bit_bound)
  moreover have "wx = wy"
  proof (rule bit_word_eqI)
    fix i assume "i < LENGTH('l)"
    show "bit wx i = bit wy i"
    proof (cases "i < 8 * length xs")
      case True
      then have "i + 8 < LENGTH('l)" using len by simp
      with bits [of x wx "i + 8"] bits [of y wy "i + 8"] eq show ?thesis by simp
    next
      case False
      with "4.prems" show ?thesis unfolding wx_def wy_def
        using window_word_bound [of xs i] window_word_bound [of ys i] by auto
    qed
  qed
  ultimately show ?case using "4.IH" "4.prems" by (simp add: wx_def wy_def)
qed auto

locale crc_update =
  fixes poly :: "'l::len word" and upd :: "'l word \<Rightarrow> u8 \<Rightarrow> 'l word"
  assumes wide: "8 \<le> LENGTH('l)"
    and top: "bit poly (LENGTH('l) - 1)"
    and upd_register: "upd c b = crc_bits poly 8 (c XOR ucast b)"
begin

lemma ucast_byte_inj: "(ucast b :: 'l word) = ucast b' \<Longrightarrow> b = (b' :: u8)"
proof -
  assume eq: "(ucast b :: 'l word) = ucast b'"
  have "window_word [b] = (window_word [b'] :: 'l word)" using eq by simp
  then have "[b] = [b']" using wide by (intro window_word_inj) simp_all
  then show "b = b'" by simp
qed

text \<open>A reflected CRC is in particular a checksum that loses nothing.\<close>

sublocale byte_checksum upd "\<lambda>_. True"
proof
  show "upd c b = upd c' b \<Longrightarrow> c = c'" for c c' b
    by (auto simp: upd_register dest: crc_bits_inj [OF top])
  show "upd c b = upd c b' \<Longrightarrow> b = b'" for c b b'
    by (auto simp: upd_register dest!: crc_bits_inj [OF top] intro: ucast_byte_inj)
qed simp

text \<open>Over a window that fits the register, the run is the register fed with one word.\<close>

lemma run_window:
  "8 * length bs \<le> LENGTH('l) \<Longrightarrow>
     foldl upd c bs = crc_bits poly (8 * length bs) (c XOR window_word bs)"
proof (induction bs arbitrary: c)
  case Nil
  then show ?case by simp
next
  case (Cons b bs)
  let ?w = "window_word bs :: 'l word"
  have fits: "8 + 8 * length bs \<le> LENGTH('l)" using Cons.prems by simp
  have clear: "crc_bits poly 8 (push_bit 8 ?w) = ?w"
  proof -
    have "crc_bits poly 8 (push_bit 8 ?w) = drop_bit 8 (push_bit 8 ?w)"
      by (rule crc_bits_clear) (simp add: bit_simps)
    also have "\<dots> = ?w"
      by (rule bit_word_eqI)
        (use fits in \<open>auto simp: bit_simps dest: window_word_bound\<close>)
    finally show ?thesis .
  qed
  have "foldl upd c (b # bs)
      = crc_bits poly (8 * length bs) (crc_bits poly 8 (c XOR ucast b) XOR ?w)"
    using Cons by (simp add: upd_register [of c b])
  also have "crc_bits poly 8 (c XOR ucast b) XOR ?w
      = crc_bits poly 8 (c XOR window_word (b # bs))"
    by (simp add: crc_bits_xor clear xor.assoc)
  also have "crc_bits poly (8 * length bs) (crc_bits poly 8 (c XOR window_word (b # bs)))
      = crc_bits poly (8 + 8 * length bs) (c XOR window_word (b # bs))"
    by (simp only: crc_bits_add)
  finally show ?case by simp
qed

lemma detects_burst:
  assumes "length a = length b" and "8 * length a \<le> LENGTH('l)" and "a \<noteq> b"
  shows "foldl upd c (p @ a @ s) \<noteq> foldl upd c (p @ b @ s)"
proof
  assume "foldl upd c (p @ a @ s) = foldl upd c (p @ b @ s)"
  then have "foldl upd (foldl upd c p) a = foldl upd (foldl upd c p) b"
    by (simp add: run_state)
  then have "window_word a = (window_word b :: 'l word)"
    using assms(1,2) by (auto simp: run_window dest!: crc_bits_inj [OF top])
  with assms show False using window_word_inj by blast
qed

end

section \<open>The table lookups are the shift register\<close>

lemma take_bit_8_as_and: "(x AND 0xFF :: 'l::len word) = take_bit 8 x"
  by (simp add: take_bit_eq_mask mask_eq_exp_minus_1)

lemma table_index:
  fixes x :: "'l::len word"
  assumes "8 \<le> LENGTH('l)"
  shows "unat (take_bit 8 x) < 256" "word_of_nat (unat (take_bit 8 x)) = take_bit 8 x"
proof -
  have "unat (take_bit 8 x) = take_bit 8 (unat x)"
    by (simp add: unsigned_take_bit_eq)
  then show "unat (take_bit 8 x) < 256" by (simp add: take_bit_eq_mod)
qed simp

lemma drop_bit_8_xor_byte: "drop_bit 8 (c XOR ucast (b :: u8)) = (drop_bit 8 c :: 'l::len word)"
  by (rule bit_word_eqI) (auto simp: bit_simps dest: byte_bit_bound)

lemma arc_update_register: "arc_update c b = crc_bits 0xA001 8 (c XOR ucast b)"
proof -
  let ?x = "c XOR ucast b"
  have "arc_update c b = drop_bit 8 c XOR crc_bits 0xA001 8 (take_bit 8 ?x)"
    using table_index [of ?x]
    by (simp add: arc_update_def build_arc_table_def take_bit_8_as_and)
  then show ?thesis
    by (simp only: crc_bits_split [of _ 8 ?x] drop_bit_8_xor_byte)
qed

lemma crc32_update_register: "crc32_update c b = crc_bits 0xEDB88320 8 (c XOR ucast b)"
proof -
  let ?x = "c XOR ucast b"
  have byte: "unat (ucast ?x :: u8) = unat (take_bit 8 ?x)"
    by (simp only: unsigned_ucast_eq unsigned_take_bit_eq) simp
  have "crc32_update c b = drop_bit 8 c XOR crc_bits 0xEDB88320 8 (take_bit 8 ?x)"
    using table_index [of ?x]
    by (simp add: crc32_update_def build_crc32_table_def byte)
  then show ?thesis
    by (simp only: crc_bits_split [of _ 8 ?x] drop_bit_8_xor_byte)
qed

interpretation arc: crc_update "0xA001 :: u16" arc_update
  by unfold_locales (simp_all add: arc_update_register)

interpretation ieee: crc_update "0xEDB88320 :: u32" crc32_update
  by unfold_locales (simp_all add: crc32_update_register)

section \<open>CRC-16/XMODEM keeps state and byte\<close>

text \<open>The \<open>u32\<close> register of the source never leaves 16 bits.\<close>

lemma and_FFFF: "(x AND 0xFFFF :: 'l::len word) = take_bit 16 x"
  by (simp add: take_bit_eq_mask mask_eq_exp_minus_1)

lemma and_8000: "(x AND 0x8000 :: u32) \<noteq> 0 \<longleftrightarrow> bit x 15"
proof -
  have "(0x8000 :: u32) = push_bit 15 1" by simp
  then show ?thesis by (simp add: bit_iff_and_push_bit_not_eq_0)
qed

lemma ccitt_step_alt:
  "ccitt_step c = take_bit 16 (if bit c 15 then push_bit 1 c XOR 0x11021 else push_bit 1 c)"
  by (simp add: ccitt_step_def and_FFFF and_8000)

definition ccitt_valid :: "u32 \<Rightarrow> bool" where
  "ccitt_valid c \<longleftrightarrow> take_bit 16 c = c"

lemma ccitt_step_valid: "ccitt_valid (ccitt_step c)"
  by (simp add: ccitt_valid_def ccitt_step_alt)

lemma ccitt_bits_valid: "ccitt_valid c \<Longrightarrow> ccitt_valid (ccitt_bits n c)"
  by (induction n arbitrary: c) (simp_all add: ccitt_step_valid)

lemma ccitt_step_inj:
  assumes "ccitt_valid c" "ccitt_valid c'" "ccitt_step c = ccitt_step c'"
  shows "c = c'"
proof -
  have low: "bit (ccitt_step z) 0 \<longleftrightarrow> bit z 15" for z
    by (simp add: ccitt_step_alt bit_0 odd_xor_iff)
  with assms(3) have par: "bit c 15 \<longleftrightarrow> bit c' 15" by metis
  with assms(3) have eq: "take_bit 16 (push_bit 1 c) = take_bit 16 (push_bit 1 c')"
    by (auto simp: ccitt_step_alt split: if_splits)
  have "take_bit 15 c = take_bit 15 c'"
  proof (rule bit_word_eqI)
    fix n
    have "bit (take_bit 16 (push_bit 1 c)) (Suc n) = bit (take_bit 16 (push_bit 1 c')) (Suc n)"
      by (simp only: eq)
    then show "bit (take_bit 15 c) n = bit (take_bit 15 c') n"
      unfolding bit_take_bit_iff bit_push_bit_iff by auto
  qed
  then have lo: "n < 15 \<Longrightarrow> bit c n = bit c' n" for n
    by (metis bit_take_bit_iff)
  have "take_bit 16 c = take_bit 16 c'"
  proof (rule bit_word_eqI)
    fix n show "bit (take_bit 16 c) n = bit (take_bit 16 c') n"
      using lo [of n] par by (cases "n = 15") (auto simp: bit_take_bit_iff)
  qed
  with assms(1,2) show ?thesis by (simp add: ccitt_valid_def)
qed

lemma ccitt_bits_inj:
  "ccitt_valid c \<Longrightarrow> ccitt_valid c' \<Longrightarrow> ccitt_bits n c = ccitt_bits n c' \<Longrightarrow> c = c'"
  by (induction n arbitrary: c c') (auto dest: ccitt_step_inj simp: ccitt_step_valid)

lemma ccitt_feed_valid: "ccitt_valid c \<Longrightarrow> ccitt_valid (c XOR push_bit 8 (ucast (b :: u8)))"
proof -
  have "take_bit 16 (push_bit 8 (ucast b) :: u32) = push_bit 8 (ucast b)"
    by (rule bit_word_eqI) (auto simp: bit_take_bit_iff bit_push_bit_iff bit_ucast_iff dest: byte_bit_bound)
  then show "ccitt_valid c \<Longrightarrow> ?thesis" by (simp add: ccitt_valid_def)
qed

lemma ccitt_feed_inj:
  assumes "(c :: u32) XOR push_bit 8 (ucast (b :: u8)) = c XOR push_bit 8 (ucast b')"
  shows "b = b'"
proof (rule bit_word_eqI)
  fix n assume n: "n < LENGTH(8)"
  from assms have "(push_bit 8 (ucast b) :: u32) = push_bit 8 (ucast b')"
    by (simp only: xor_cancel_left)
  then have "bit (push_bit 8 (ucast b) :: u32) (n + 8) = bit (push_bit 8 (ucast b') :: u32) (n + 8)"
    by simp
  then show "bit b n = bit b' n" using n by (simp add: bit_push_bit_iff bit_ucast_iff)
qed

interpretation ccitt: byte_checksum ccitt_update ccitt_valid
proof
  fix c c' :: u32 and b b' :: u8
  assume v: "ccitt_valid c"
  then show "ccitt_valid (ccitt_update c b)"
    by (simp add: ccitt_update_def ccitt_bits_valid ccitt_feed_valid)
  show "ccitt_valid c' \<Longrightarrow> ccitt_update c b = ccitt_update c' b \<Longrightarrow> c = c'"
    using ccitt_bits_inj [OF ccitt_feed_valid ccitt_feed_valid] v
    by (fastforce simp: ccitt_update_def)
  show "ccitt_update c b = ccitt_update c b' \<Longrightarrow> b = b'"
    unfolding ccitt_update_def
    by (rule ccitt_feed_inj, rule ccitt_bits_inj [OF ccitt_feed_valid ccitt_feed_valid])
      (use v in assumption)+
qed

lemma crc16_ccitt_run_inj:
  "ucast (foldl ccitt_update 0 a) = (ucast (foldl ccitt_update 0 b) :: u16) \<Longrightarrow>
     foldl ccitt_update 0 a = foldl ccitt_update 0 b"
proof -
  assume "ucast (foldl ccitt_update 0 a) = (ucast (foldl ccitt_update 0 b) :: u16)"
  moreover have "take_bit 16 (foldl ccitt_update 0 d) = foldl ccitt_update 0 d" for d
    using ccitt.run_valid [of 0 d] by (simp add: ccitt_valid_def)
  moreover have "take_bit 16 x = ucast (ucast x :: u16)" for x :: u32
    by (rule bit_word_eqI) (auto simp: bit_simps)
  ultimately show ?thesis by metis
qed

section \<open>The Spreadtrum sum as ones-complement arithmetic\<close>

text \<open>The number the loop adds up, and the end-around carry of the source.\<close>

fun word_sum :: "u8 list \<Rightarrow> nat" where
  "word_sum (a # b # rest) = unat a + 256 * unat b + word_sum rest"
| "word_sum [a] = unat a"
| "word_sum [] = 0"

definition swap16 :: "u16 \<Rightarrow> u16" where
  "swap16 x = drop_bit 8 x OR push_bit 8 x"

definition carry_fold :: "nat \<Rightarrow> nat" where
  "carry_fold s = (let t = s div 65536 + s mod 65536 in (t + t div 65536) mod 65536)"

lemma unat_pair32: "unat (ucast a OR push_bit 8 (ucast b) :: u32) = unat (a :: u8) + 256 * unat (b :: u8)"
proof -
  have "(ucast a :: u32) AND push_bit 8 (ucast b) = 0"
    by (rule bit_word_eqI) (auto simp: bit_simps dest: byte_bit_bound)
  then have "ucast a OR push_bit 8 (ucast b) = (ucast a :: u32) + push_bit 8 (ucast b)"
    by (simp add: disjunctive_add_eq_or)
  moreover have "unat (push_bit 8 (ucast b) :: u32) = 256 * unat b"
    using unat_byte_less [of b]
    by (simp add: push_bit_eq_mult unat_word_ariths del: unat_byte_less)
  ultimately show ?thesis
    using unat_byte_less [of a] unat_byte_less [of b]
    by (simp add: unat_word_ariths del: unat_byte_less)
qed

lemma sprd_acc_sum:
  "sprd_acc t d =
     (if unat t + word_sum d < 2 ^ 32 then Ok (t + word_of_nat (word_sum d)) else Panic)"
proof (induction t d rule: sprd_acc.induct)
  case (1 t a b rest)
  define p where "p = (ucast a OR push_bit 8 (ucast b) :: u32)"
  have up: "unat p = unat a + 256 * unat b" by (simp only: p_def unat_pair32)
  then have wp: "p = word_of_nat (unat a + 256 * unat b)" by (metis of_nat_unat ucast_id)
  note step = sprd_acc.simps(1) [of t a b rest, folded p_def]
  show ?case
  proof (cases "unat t + unat p < 2 ^ 32")
    case True
    then have "unat (t + p) = unat t + unat p" by (rule unat_add_u32)
    moreover have "t + p + word_of_nat (word_sum rest) = t + word_of_nat (word_sum (a # b # rest))"
      by (simp add: wp)
    moreover have "unat t + unat p + word_sum rest = unat t + word_sum (a # b # rest)"
      by (simp add: up)
    ultimately show ?thesis unfolding step add_u32_ok [OF True] rbind_simps 1 by (simp only:)
  next
    case False
    then show ?thesis unfolding step by (simp add: add_u32_def up)
  qed
next
  case (2 t a)
  then show ?case by (simp add: add_u32_def)
next
  case (3 t)
  have "unat t < 2 ^ 32" by simp
  then show ?case by simp
qed

lemma carry_fold_cong: "s < 2 ^ 32 \<Longrightarrow> carry_fold s mod 65535 = s mod 65535"
proof -
  assume s: "s < 2 ^ 32"
  define t where "t = s div 65536 + s mod 65536"
  have "s = 65535 * (s div 65536) + t"
    unfolding t_def using mult_div_mod_eq [of 65536 s] by linarith
  then have ts: "t mod 65535 = s mod 65535" by (metis mod_mult_self4)
  have "s div 65536 < 65536" using s by (simp add: less_mult_imp_div_less)
  moreover have "s mod 65536 < 65536" by simp
  ultimately have t: "t < 131071" unfolding t_def by linarith
  show ?thesis
  proof (cases "t < 65536")
    case True
    then show ?thesis using ts by (simp add: carry_fold_def Let_def flip: t_def)
  next
    case False
    with t have "t div 65536 = 1" by simp
    moreover from False t have "(t + 1) mod 65536 = t - 65535" by (simp add: mod_if)
    moreover from False have "t mod 65535 = (t - 65535) mod 65535" by (simp add: mod_if)
    ultimately show ?thesis using ts by (simp add: carry_fold_def Let_def flip: t_def)
  qed
qed

lemma sprd_sum_word_sum:
  assumes "word_sum d < 2 ^ 32"
  shows "sprd_sum d = Ok (swap16 (word_of_nat (65535 - carry_fold (word_sum d))))"
proof -
  define S where "S = word_sum d"
  define x where "x = (word_of_nat S :: u32)"
  have x: "unat x = S" using assms by (simp add: x_def S_def unat_of_nat_u32)
  have parts: "unat (drop_bit 16 x) = S div 65536" "unat (x AND 0xFFFF) = S mod 65536"
    by (simp_all add: and_FFFF unsigned_take_bit_eq unat_drop_bit_eq drop_bit_eq_div take_bit_eq_mod
        unat_div_distrib unat_mod_distrib x)
  have hi: "S div 65536 < 65536" using assms by (simp add: S_def less_mult_imp_div_less)
  define t where "t = drop_bit 16 x + (x AND 0xFFFF)"
  have parts_lt: "unat (drop_bit 16 x) + unat (x AND 0xFFFF) < 2 ^ 32"
    using hi unfolding parts by (simp add: trans_less_add1)
  have t: "unat t = S div 65536 + S mod 65536"
    unfolding t_def unat_add_u32 [OF parts_lt] parts ..
  have t_hi: "unat (drop_bit 16 t) = unat t div 65536"
    by (simp add: unat_drop_bit_eq drop_bit_eq_div unat_div_distrib)
  have "S mod 65536 < 65536" by simp
  with hi t have "unat t < 131072" by linarith
  then have t_lt: "unat t + unat (drop_bit 16 t) < 2 ^ 32"
    using div_le_dividend [of "unat t" 65536] unfolding t_hi by simp
  define s where "s = t + drop_bit 16 t"
  have s: "unat s = unat t + unat t div 65536"
    unfolding s_def by (simp only: unat_add_u32 [OF t_lt] t_hi)
  define f where "f = NOT s AND 0xFFFF"
  have uf: "unat f = 65535 - carry_fold S"
  proof -
    have "f = 0xFFFF - take_bit 16 s"
      by (simp add: f_def and_FFFF take_bit_not_eq_mask_diff mask_eq_exp_minus_1)
    moreover have c: "unat (take_bit 16 s) = carry_fold S"
      by (simp add: unsigned_take_bit_eq take_bit_eq_mod unat_mod_distrib s t carry_fold_def Let_def)
    moreover have "carry_fold S < 65536" by (simp add: carry_fold_def Let_def)
    ultimately show ?thesis by (simp add: unat_sub_if')
  qed
  have f: "(ucast f :: u16) = word_of_nat (65535 - carry_fold S)"
    unfolding uf [symmetric] by simp
  have sw: "(ucast (drop_bit 8 f OR push_bit 8 (f AND 0xFF)) :: u16) = swap16 (ucast f)"
    unfolding swap16_def f_def and_FFFF take_bit_8_as_and
    by (rule bit_word_eqI) (auto simp: bit_simps)
  have acc: "unat (0 :: u32) + word_sum d < 2 ^ 32" "0 + word_of_nat (word_sum d) = x"
    using assms by (simp_all add: x_def S_def)
  show ?thesis
    unfolding sprd_sum_def sprd_acc_sum if_P [OF acc(1)] acc(2) rbind_simps
      add_u32_ok [OF parts_lt, folded t_def] add_u32_ok [OF t_lt, folded s_def] Let_def
      f_def [symmetric] sw
    by (simp only: f) (simp only: S_def)
qed


lemma sprd_sum_overflow: "2 ^ 32 \<le> word_sum d \<Longrightarrow> sprd_sum d = Panic"
  by (simp add: sprd_sum_def sprd_acc_sum)

lemma word_sum_bound: "word_sum d \<le> 65535 * ((length d + 1) div 2)"
proof (induction d rule: word_sum.induct)
  case (1 a b rest)
  have "unat a \<le> 255" "unat b \<le> 255" by (rule unat_byte_le)+
  then have "unat a + 256 * unat b \<le> 65535" by linarith
  with 1 show ?case by simp
next
  case (2 a)
  have "unat a \<le> 255" by (rule unat_byte_le)
  then show ?case by simp
qed simp

text \<open>Every frame body the protocol can declare, and more, is summed without overflow.\<close>

lemma word_sum_small: "length d \<le> 131072 \<Longrightarrow> word_sum d < 2 ^ 32"
proof -
  assume "length d \<le> 131072"
  then have "(length d + 1) div 2 \<le> 65536" by simp
  then have "65535 * ((length d + 1) div 2) \<le> 65535 * 65536" by (rule mult_le_mono2)
  with word_sum_bound [of d] show ?thesis by simp
qed

lemma sprd_sum_ok:
  "length d \<le> 131072 \<Longrightarrow>
     sprd_sum d = Ok (swap16 (word_of_nat (65535 - carry_fold (word_sum d))))"
  by (intro sprd_sum_word_sum word_sum_small)

lemma swap16_swap16 [simp]: "swap16 (swap16 x) = x"
  unfolding swap16_def
proof (rule bit_word_eqI)
  fix n assume n: "n < LENGTH(16)"
  show "bit (drop_bit 8 (drop_bit 8 x OR push_bit 8 x) OR push_bit 8 (drop_bit 8 x OR push_bit 8 x)) n
      = bit x n"
    using n by (cases "n < 8") (auto simp: bit_simps)
qed

lemma word_sum_append_even:
  "even (length p) \<Longrightarrow> word_sum (p @ s) = word_sum p + word_sum s"
  by (induction p rule: word_sum.induct) auto

text \<open>Changing one byte moves the sum by less than 65535, so the ones-complement sum changes.\<close>

lemma word_sum_weight:
  "\<exists>A w. (w = 1 \<or> w = 256) \<and> (\<forall>x. word_sum (p @ x # s) = A + w * unat x)"
proof (induction p rule: word_sum.induct)
  case (1 a b rest)
  then obtain A w where "w = 1 \<or> w = 256" "\<forall>x. word_sum (rest @ x # s) = A + w * unat x"
    by blast
  then show ?case
    by (intro exI [of _ "unat a + 256 * unat b + A"] exI [of _ w]) simp
next
  case (2 a)
  show ?case by (intro exI [of _ "unat a + word_sum s"] exI [of _ 256]) simp
next
  case 3
  show ?case
  proof (cases s)
    case Nil
    then show ?thesis by (intro exI [of _ 0] exI [of _ 1]) simp
  next
    case (Cons b r)
    then show ?thesis by (intro exI [of _ "256 * unat b + word_sum r"] exI [of _ 1]) simp
  qed
qed

lemma scaled_byte_mod:
  assumes "w = 1 \<or> w = (256 :: nat)" and lt: "unat (y :: u8) < unat (x :: u8)"
  shows "(A + w * unat x) mod 65535 \<noteq> (A + w * unat y) mod 65535"
proof
  assume "(A + w * unat x) mod 65535 = (A + w * unat y) mod 65535"
  moreover have "A + w * unat y \<le> A + w * unat x" using lt by simp
  ultimately have "65535 dvd (A + w * unat x) - (A + w * unat y)"
    using mod_eq_dvd_iff_nat by blast
  then have "65535 dvd w * (unat x - unat y)"
    by (simp add: diff_mult_distrib2)
  moreover have "0 < w * (unat x - unat y)" using assms by auto
  ultimately have "65535 \<le> w * (unat x - unat y)" by (rule dvd_imp_le)
  moreover have "unat x - unat y \<le> 255" using unat_byte_le [of x] by linarith
  ultimately show False using assms(1) by (elim disjE; hypsubst; linarith)
qed

lemma word_sum_one_byte:
  assumes "x \<noteq> y"
  shows "word_sum (p @ x # s) mod 65535 \<noteq> word_sum (p @ y # s) mod 65535"
proof -
  obtain A w where "w = 1 \<or> w = 256" "\<forall>x. word_sum (p @ x # s) = A + w * unat x"
    using word_sum_weight by blast
  moreover have "unat x < unat y \<or> unat y < unat x"
    using assms by (metis linorder_neqE_nat word_unat_eq_iff)
  ultimately show ?thesis using scaled_byte_mod by metis
qed

lemma carry_fold_less: "carry_fold s < 65536"
  by (simp add: carry_fold_def Let_def)

lemma sprd_sum_inj:
  assumes "length d \<le> 131072" "length d' \<le> 131072" "sprd_sum d = (sprd_sum d' :: (u16, 'e) result)"
  shows "word_sum d mod 65535 = word_sum d' mod 65535"
proof -
  from assms have "swap16 (word_of_nat (65535 - carry_fold (word_sum d)))
      = swap16 (word_of_nat (65535 - carry_fold (word_sum d')))"
    by (simp add: sprd_sum_ok)
  then have "(word_of_nat (65535 - carry_fold (word_sum d)) :: u16)
      = word_of_nat (65535 - carry_fold (word_sum d'))"
    by (metis swap16_swap16)
  then have "unat (word_of_nat (65535 - carry_fold (word_sum d)) :: u16)
      = unat (word_of_nat (65535 - carry_fold (word_sum d')) :: u16)"
    by (rule arg_cong)
  then have "65535 - carry_fold (word_sum d) = 65535 - carry_fold (word_sum d')"
    by (subst (asm) (1 2) unat_of_nat_u16) auto
  then have "carry_fold (word_sum d) = carry_fold (word_sum d')"
    using carry_fold_less [of "word_sum d"] carry_fold_less [of "word_sum d'"] by linarith
  then show ?thesis
    using carry_fold_cong [OF word_sum_small [OF assms(1)]]
      carry_fold_cong [OF word_sum_small [OF assms(2)]] by simp
qed

text \<open>The burst detection of the table-driven CRCs, on the functions of the source.\<close>

lemma crc16_arc_detects:
  "length a = length b \<Longrightarrow> a \<noteq> b \<Longrightarrow> length a \<le> 2 \<Longrightarrow>
     crc16_arc (p @ a @ s) \<noteq> crc16_arc (p @ b @ s)"
  using arc.detects_burst [of a b 0 p s]
  by (simp add: crc16_arc_def crc16_arc_from_def del: foldl_append)

lemma crc32_detects:
  "length a = length b \<Longrightarrow> a \<noteq> b \<Longrightarrow> length a \<le> 4 \<Longrightarrow>
     crc32 (p @ a @ s) \<noteq> crc32 (p @ b @ s)"
  using ieee.detects_burst [of a b "0xFFFFFFFF" p s] by (simp add: crc32_def del: foldl_append)

section \<open>Properties\<close>

text \<open>C36: the table-driven updates of \<open>crc16_arc_from\<close> and \<open>crc32\<close>, with the
  tables the const builders compute, equal the bit-serial reflected registers with polynomials
  0xA001 and 0xEDB88320, for every starting value and every input.\<close>

theorem crc_tables_are_shift_registers:
  "crc16_arc_from c data = foldl (\<lambda>c b. crc_bits 0xA001 8 (c XOR ucast b)) c data \<and>
   crc32 data = NOT (foldl (\<lambda>c b. crc_bits 0xEDB88320 8 (c XOR ucast b)) 0xFFFFFFFF data)"
proof -
  have "arc_update = (\<lambda>c b. crc_bits 0xA001 8 (c XOR ucast b))"
    by (intro ext) (rule arc_update_register)
  moreover have "crc32_update = (\<lambda>c b. crc_bits 0xEDB88320 8 (c XOR ucast b))"
    by (intro ext) (rule crc32_update_register)
  ultimately show ?thesis by (simp add: crc16_arc_from_def crc32_def)
qed

text \<open>A corruption confined to a window of two bytes always changes \<open>crc16_arc\<close>
  (the PAC and NV checks), and one confined to four bytes always changes \<open>crc32\<close> (the
  uImage checks), wherever the window lies.\<close>

lemma crc_detects_bursts:
  assumes "length a = length b" and "a \<noteq> b"
  shows "(length a \<le> 2 \<longrightarrow> crc16_arc (p @ a @ s) \<noteq> crc16_arc (p @ b @ s)) \<and>
         (length a \<le> 4 \<longrightarrow> crc32 (p @ a @ s) \<noteq> crc32 (p @ b @ s))"
  using crc16_arc_detects [OF assms] crc32_detects [OF assms] by blast

text \<open>The Spreadtrum sum is the byte-swapped complement of the ones-complement
  (end-around carry) sum of the little-endian words, and it panics exactly when the 32-bit
  accumulator overflows.\<close>

lemma sprd_sum_value:
  "sprd_sum data =
     (if word_sum data < 2 ^ 32
      then Ok (swap16 (word_of_nat (65535 - carry_fold (word_sum data)))) else Panic)"
  by (simp add: sprd_sum_word_sum sprd_sum_overflow)

text \<open>Both frame checksums notice any single corrupted byte of a body of up to
  131072 bytes (a frame declares at most 65535 bytes of data).\<close>

lemma frame_checksums_detect_one_byte:
  assumes "x \<noteq> y" and "length p + length s < 131072"
  shows "sprd_sum (p @ x # s) \<noteq> (sprd_sum (p @ y # s) :: (u16, 'e) result) \<and>
         crc16_ccitt (p @ x # s) \<noteq> crc16_ccitt (p @ y # s)"
proof
  show "sprd_sum (p @ x # s) \<noteq> (sprd_sum (p @ y # s) :: (u16, 'e) result)"
  proof
    assume "sprd_sum (p @ x # s) = (sprd_sum (p @ y # s) :: (u16, 'e) result)"
    with assms(2) have "word_sum (p @ x # s) mod 65535 = word_sum (p @ y # s) mod 65535"
      by (intro sprd_sum_inj) simp_all
    with word_sum_one_byte [OF assms(1)] show False by blast
  qed
  have "foldl ccitt_update 0 (p @ x # s) \<noteq> foldl ccitt_update 0 (p @ y # s)"
    by (rule ccitt.detects_one_byte) (simp_all add: assms(1) ccitt_valid_def)
  then show "crc16_ccitt (p @ x # s) \<noteq> crc16_ccitt (p @ y # s)"
    unfolding crc16_ccitt_def using crc16_ccitt_run_inj by blast
qed

subsection \<open>The check values of the source's tests\<close>

lemma crc16_arc_check_value:
  "crc16_arc [0x31, 0x32, 0x33, 0x34, 0x35, 0x36, 0x37, 0x38, 0x39] = 0xBB3D"
  by (simp add: crc16_arc_def crc16_arc_from_def arc_update_register register_eval crc_shift_def)

lemma crc32_check_value:
  "crc32 [0x31, 0x32, 0x33, 0x34, 0x35, 0x36, 0x37, 0x38, 0x39] = 0xCBF43926"
  by (simp add: crc32_def crc32_update_register register_eval crc_shift_def)

lemma crc16_ccitt_check_value:
  "crc16_ccitt [0x31, 0x32, 0x33, 0x34, 0x35, 0x36, 0x37, 0x38, 0x39] = 0x31C3"
  by (simp add: crc16_ccitt_def ccitt_update_def register_eval ccitt_step_def)

lemma sprd_sum_captured_frames:
  "sprd_sum [0x00, 0x00, 0x00, 0x00] = Ok 0xFFFF"
  "sprd_sum [0x00, 0x80, 0x00, 0x00] = Ok 0xFF7F"
  by (simp_all add: sprd_sum_word_sum carry_fold_def swap16_def)

lemma sum32_fold: "foldl (\<lambda>acc b. acc + ucast b) acc data = acc + word_of_nat (\<Sum>b\<leftarrow>data. unat b)"
  for acc :: u32 and data :: "u8 list"
  by (induction data arbitrary: acc) (simp_all add: add.assoc)

lemma sum32_value: "sum32 data = word_of_nat (\<Sum>b\<leftarrow>data. unat b)"
  by (simp add: sum32_def sum32_fold)

end
