(* ===== verification/Rust_Text.thy ===== *)
theory Rust_Text
  imports Bytes
begin

text \<open>
  Rust strings as the sources use them: a \<open>String\<close> is the list of its Unicode scalar values
  (each a \<open>u32\<close>), and \<open>str ''...''\<close> is an ASCII literal of the source. Here are the standard
  library's \<open>to_ascii_uppercase\<close>, \<open>eq_ignore_ascii_case\<close>, \<open>starts_with\<close>, \<open>trim\<close> and
  \<open>from_utf8_lossy\<close>, and the error type of \<open>crates/sprdflash-core/src/error.rs\<close>.
\<close>

type_synonym rust_string = "u32 list"

definition str :: "string \<Rightarrow> rust_string" where
  "str s = map (\<lambda>c. word_of_nat (of_char c)) s"

definition replacement_char :: u32 where
  "replacement_char = 0xFFFD"

section \<open>ASCII case and prefixes\<close>

definition ascii_upper_char :: "u32 \<Rightarrow> u32" where
  "ascii_upper_char c = (if 97 \<le> c \<and> c \<le> 122 then c - 32 else c)"

definition to_ascii_uppercase :: "rust_string \<Rightarrow> rust_string" where
  "to_ascii_uppercase s = map ascii_upper_char s"

definition ascii_lower_char :: "u32 \<Rightarrow> u32" where
  "ascii_lower_char c = (if 65 \<le> c \<and> c \<le> 90 then c + 32 else c)"

definition eq_ignore_ascii_case :: "rust_string \<Rightarrow> rust_string \<Rightarrow> bool" where
  "eq_ignore_ascii_case a b \<longleftrightarrow> map ascii_lower_char a = map ascii_lower_char b"

definition starts_with :: "rust_string \<Rightarrow> rust_string \<Rightarrow> bool" where
  "starts_with s p \<longleftrightarrow> take (length p) s = p"

definition ends_with :: "rust_string \<Rightarrow> rust_string \<Rightarrow> bool" where
  "ends_with s p \<longleftrightarrow> length p \<le> length s \<and> drop (length s - length p) s = p"

fun str_contains :: "rust_string \<Rightarrow> rust_string \<Rightarrow> bool" where
  "str_contains [] p \<longleftrightarrow> p = []"
| "str_contains (c # cs) p \<longleftrightarrow> starts_with (c # cs) p \<or> str_contains cs p"

lemma str_simps [simp]:
  "str [] = []" "str (c # cs) = word_of_nat (of_char c) # str cs"
  "length (str cs) = length cs"
  by (simp_all add: str_def)

lemma starts_with_self [simp]: "starts_with s s"
  by (simp add: starts_with_def)

lemma length_to_ascii_uppercase [simp]: "length (to_ascii_uppercase s) = length s"
  by (simp add: to_ascii_uppercase_def)

section \<open>Unicode white space and \<open>trim\<close>\<close>

definition is_whitespace :: "u32 \<Rightarrow> bool" where
  "is_whitespace c \<longleftrightarrow>
     (9 \<le> c \<and> c \<le> 13) \<or> c = 0x20 \<or> c = 0x85 \<or> c = 0xA0 \<or> c = 0x1680 \<or>
     (0x2000 \<le> c \<and> c \<le> 0x200A) \<or> c = 0x2028 \<or> c = 0x2029 \<or> c = 0x202F \<or> c = 0x205F \<or> c = 0x3000"

definition trim :: "rust_string \<Rightarrow> rust_string" where
  "trim s = rev (dropWhile is_whitespace (rev (dropWhile is_whitespace s)))"

section \<open>Lines\<close>

text \<open>\<open>lines()\<close>: a line ends at a line feed, which goes with a carriage return before it; the text
  after the last line feed is a line if it is not empty.\<close>

definition strip_cr :: "rust_string \<Rightarrow> rust_string" where
  "strip_cr l = (if l \<noteq> [] \<and> last l = 13 then butlast l else l)"

function str_lines :: "rust_string \<Rightarrow> rust_string list" where
  "str_lines s =
     (case position (\<lambda>c. c = 10) s of
        None \<Rightarrow> if s = [] then [] else [s]
      | Some i \<Rightarrow> strip_cr (take i s) # str_lines (drop (i + 1) s))"
  by pat_completeness auto
termination by (relation "measure length") (auto dest: position_Some_length)

declare str_lines.simps [simp del]

section \<open>\<open>String::from_utf8_lossy\<close>\<close>

text \<open>The next byte, read as 0 past the end as the decoder does, and the continuation test.\<close>

definition safe_get :: "u8 list \<Rightarrow> u8" where
  "safe_get bs = (case bs of [] \<Rightarrow> 0 | b # _ \<Rightarrow> b)"

definition is_cont :: "u8 \<Rightarrow> bool" where
  "is_cont b \<longleftrightarrow> b AND 192 = 128"

definition utf8_char_width :: "u8 \<Rightarrow> nat" where
  "utf8_char_width b =
     (if b < 0x80 then 1
      else if 0xC2 \<le> b \<and> b \<le> 0xDF then 2
      else if 0xE0 \<le> b \<and> b \<le> 0xEF then 3
      else if 0xF0 \<le> b \<and> b \<le> 0xF4 then 4
      else 0)"

definition second_of_three :: "u8 \<Rightarrow> u8 \<Rightarrow> bool" where
  "second_of_three b c \<longleftrightarrow>
     (b = 0xE0 \<and> 0xA0 \<le> c \<and> c \<le> 0xBF) \<or> (0xE1 \<le> b \<and> b \<le> 0xEC \<and> 0x80 \<le> c \<and> c \<le> 0xBF) \<or>
     (b = 0xED \<and> 0x80 \<le> c \<and> c \<le> 0x9F) \<or> (0xEE \<le> b \<and> b \<le> 0xEF \<and> 0x80 \<le> c \<and> c \<le> 0xBF)"

definition second_of_four :: "u8 \<Rightarrow> u8 \<Rightarrow> bool" where
  "second_of_four b c \<longleftrightarrow>
     (b = 0xF0 \<and> 0x90 \<le> c \<and> c \<le> 0xBF) \<or> (0xF1 \<le> b \<and> b \<le> 0xF3 \<and> 0x80 \<le> c \<and> c \<le> 0xBF) \<or>
     (b = 0xF4 \<and> 0x80 \<le> c \<and> c \<le> 0x8F)"

definition cont_bits :: "u8 \<Rightarrow> u32" where
  "cont_bits b = ucast (b AND 0x3F)"

text \<open>
  One step of the decoder: the scalar value (or the replacement character for a maximal
  invalid prefix) and the bytes that are left.
\<close>

definition utf8_step :: "u8 \<Rightarrow> u8 list \<Rightarrow> u32 \<times> u8 list" where
  "utf8_step b bs =
     (case utf8_char_width b of
        Suc 0 \<Rightarrow> (ucast b, bs)
      | Suc (Suc 0) \<Rightarrow>
          (if is_cont (safe_get bs)
           then (push_bit 6 (ucast (b AND 0x1F)) OR cont_bits (safe_get bs), drop 1 bs)
           else (replacement_char, bs))
      | Suc (Suc (Suc 0)) \<Rightarrow>
          (if \<not> second_of_three b (safe_get bs) then (replacement_char, bs)
           else if \<not> is_cont (safe_get (drop 1 bs)) then (replacement_char, drop 1 bs)
           else (push_bit 12 (ucast (b AND 0x0F)) OR push_bit 6 (cont_bits (safe_get bs)) OR
                 cont_bits (safe_get (drop 1 bs)), drop 2 bs))
      | Suc (Suc (Suc (Suc 0))) \<Rightarrow>
          (if \<not> second_of_four b (safe_get bs) then (replacement_char, bs)
           else if \<not> is_cont (safe_get (drop 1 bs)) then (replacement_char, drop 1 bs)
           else if \<not> is_cont (safe_get (drop 2 bs)) then (replacement_char, drop 2 bs)
           else (push_bit 18 (ucast (b AND 0x07)) OR push_bit 12 (cont_bits (safe_get bs)) OR
                 push_bit 6 (cont_bits (safe_get (drop 1 bs))) OR
                 cont_bits (safe_get (drop 2 bs)), drop 3 bs))
      | _ \<Rightarrow> (replacement_char, bs))"

lemma utf8_step_shrinks: "utf8_step b bs = (c, rest) \<Longrightarrow> length rest \<le> length bs"
  by (auto simp: utf8_step_def split: nat.splits if_splits)

function from_utf8_lossy :: "u8 list \<Rightarrow> rust_string" where
  "from_utf8_lossy [] = []"
| "from_utf8_lossy (b # bs) =
     (case utf8_step b bs of (c, rest) \<Rightarrow> c # from_utf8_lossy rest)"
  by pat_completeness auto
termination
  by (relation "measure length") (auto dest: utf8_step_shrinks [OF sym] simp: less_Suc_eq_le)

lemma from_utf8_lossy_ascii:
  "\<forall>b \<in> set bs. b < 0x80 \<Longrightarrow> from_utf8_lossy bs = map ucast bs"
  by (induction bs) (auto simp: utf8_step_def utf8_char_width_def)

section \<open>Number formatting\<close>

text \<open>\<open>{}\<close>, \<open>{:#x}\<close> and \<open>{:#010x}\<close> of an unsigned integer.\<close>

definition digit_char :: "nat \<Rightarrow> u32" where
  "digit_char d = word_of_nat (if d < 10 then 48 + d else 87 + d)"

fun fmt_digits :: "nat \<Rightarrow> nat \<Rightarrow> rust_string" where
  "fmt_digits base n =
     (if base < 2 \<or> n < base then [digit_char n]
      else fmt_digits base (n div base) @ [digit_char (n mod base)])"

declare fmt_digits.simps [simp del]

definition fmt_dec :: "nat \<Rightarrow> rust_string" where
  "fmt_dec n = fmt_digits 10 n"

definition fmt_hex :: "nat \<Rightarrow> rust_string" where
  "fmt_hex n = str ''0x'' @ fmt_digits 16 n"

definition fmt_hex8 :: "nat \<Rightarrow> rust_string" where
  "fmt_hex8 n =
     str ''0x'' @ replicate (8 - length (fmt_digits 16 n)) 48 @ fmt_digits 16 n"

section \<open>Errors of the protocol core\<close>

datatype core_error =
    PacTooSmall nat
  | PacSizeMismatch nat nat
  | PacTruncatedTable u32
  | PacEntryOutOfRange rust_string u32 u32
  | FrameTooShort nat
  | FrameTruncated nat nat

end
