(* ===== verification/Pac.thy ===== *)
theory Pac
  imports Checksum Rust_Text
begin

text \<open>
  The \<open>.pac\<close> parser of \<open>crates/sprdflash-core/src/pac.rs\<close>: header and table layout, entry
  decoding, the validation of the file table and the two CRC checks. Every slice of the source
  is a panicking slice here, so \<open>parse_never_panics\<close> is a statement about all of them.
\<close>

section \<open>Layout\<close>

definition HEADER_SIZE :: nat where "HEADER_SIZE = 2124"
definition FILE_HEADER_SIZE :: nat where "FILE_HEADER_SIZE = 2580"

definition OFF_PAC_SIZE :: nat where "OFF_PAC_SIZE = 48"
definition OFF_PRD_NAME :: nat where "OFF_PRD_NAME = 52"
definition OFF_PRD_VERSION :: nat where "OFF_PRD_VERSION = 564"
definition OFF_FILE_COUNT :: nat where "OFF_FILE_COUNT = 1076"
definition OFF_FILE_OFFSET :: nat where "OFF_FILE_OFFSET = 1080"
definition OFF_MODE :: nat where "OFF_MODE = 1084"
definition OFF_FLASH_TYPE :: nat where "OFF_FLASH_TYPE = 1088"
definition OFF_MAGIC :: nat where "OFF_MAGIC = 2116"
definition OFF_CRC1 :: nat where "OFF_CRC1 = 2120"
definition OFF_CRC2 :: nat where "OFF_CRC2 = 2122"

definition FOFF_FILE_ID :: nat where "FOFF_FILE_ID = 4"
definition FOFF_FILE_NAME :: nat where "FOFF_FILE_NAME = 516"
definition FOFF_DATA_SIZE :: nat where "FOFF_DATA_SIZE = 1540"
definition FOFF_FLAG :: nat where "FOFF_FLAG = 1544"
definition FOFF_DATA_OFFSET :: nat where "FOFF_DATA_OFFSET = 1552"
definition FOFF_OMIT :: nat where "FOFF_OMIT = 1556"
definition FOFF_ADDRESS :: nat where "FOFF_ADDRESS = 1564"

lemmas pac_layout [simp] =
  HEADER_SIZE_def FILE_HEADER_SIZE_def OFF_PAC_SIZE_def OFF_PRD_NAME_def OFF_PRD_VERSION_def
  OFF_FILE_COUNT_def OFF_FILE_OFFSET_def OFF_MODE_def OFF_FLASH_TYPE_def OFF_MAGIC_def
  OFF_CRC1_def OFF_CRC2_def FOFF_FILE_ID_def FOFF_FILE_NAME_def FOFF_DATA_SIZE_def FOFF_FLAG_def
  FOFF_DATA_OFFSET_def FOFF_OMIT_def FOFF_ADDRESS_def

section \<open>Entries and metadata\<close>

record pac_entry =
  file_id :: rust_string
  file_name :: rust_string
  entry_size :: u32
  entry_offset :: u32
  entry_address :: u32
  entry_flag :: u32
  entry_omit :: u32

definition is_marker :: "pac_entry \<Rightarrow> bool" where
  "is_marker e \<longleftrightarrow> entry_size e = 0"

definition payload :: "pac_entry \<Rightarrow> u8 list \<Rightarrow> u8 list option" where
  "payload e pac =
     (let start = unat (entry_offset e)
      in case checked_add_usize start (unat (entry_size e)) of
           None \<Rightarrow> None
         | Some fin \<Rightarrow> get_range pac start fin)"

record pac_info =
  pac_version :: rust_string
  product_name :: rust_string
  product_version :: rust_string
  pac_size :: u32
  pac_mode :: u32
  flash_type :: u32
  pac_magic :: u32
  header_crc_ok :: bool
  payload_crc_ok :: "bool option"
  entries :: "pac_entry list"

definition crc_ok :: "pac_info \<Rightarrow> bool" where
  "crc_ok info \<longleftrightarrow> header_crc_ok info \<and> payload_crc_ok info \<noteq> Some False"

section \<open>Parsing\<close>

fun utf16z :: "u8 list \<Rightarrow> rust_string" where
  "utf16z (a # b # rest) =
     (let u = from_le16 a b
      in if u = 0 then []
         else (if 0xD800 \<le> u \<and> u \<le> 0xDFFF then replacement_char else ucast u) # utf16z rest)"
| "utf16z _ = []"

text \<open>One table entry, decoded from its 2580 bytes; every slice may panic.\<close>

definition decode_entry :: "u8 list \<Rightarrow> (pac_entry, core_error) result" where
  "decode_entry fh =
     rbind (slice fh FOFF_FILE_ID (FOFF_FILE_ID + 512)) (\<lambda>fid.
     rbind (slice fh FOFF_FILE_NAME (FOFF_FILE_NAME + 512)) (\<lambda>fname.
     rbind (le32_at fh FOFF_DATA_SIZE) (\<lambda>sz.
     rbind (le32_at fh FOFF_DATA_OFFSET) (\<lambda>off.
     rbind (le32_at fh FOFF_ADDRESS) (\<lambda>addr.
     rbind (le32_at fh FOFF_FLAG) (\<lambda>fl.
     rbind (le32_at fh FOFF_OMIT) (\<lambda>om.
       Ok \<lparr>file_id = utf16z fid, file_name = utf16z fname, entry_size = sz, entry_offset = off,
           entry_address = addr, entry_flag = fl, entry_omit = om\<rparr>)))))))"

text \<open>The byte range of table entry \<open>idx\<close>, with the checked arithmetic of the source.\<close>

definition table_slot :: "u8 list \<Rightarrow> nat \<Rightarrow> u32 \<Rightarrow> (u8 list, core_error) result" where
  "table_slot pac file_offset idx =
     rbind (ok_or (case checked_mul_usize (unat idx) FILE_HEADER_SIZE of
                     None \<Rightarrow> None
                   | Some off \<Rightarrow> checked_add_usize off file_offset)
                  (PacTruncatedTable idx)) (\<lambda>base.
     rbind (ok_or (checked_add_usize base FILE_HEADER_SIZE) (PacTruncatedTable idx)) (\<lambda>fin.
       ok_or (get_range pac base fin) (PacTruncatedTable idx)))"

text \<open>The loop \<open>for idx in 0..file_count\<close>: \<open>n\<close> entries are left, starting with \<open>idx\<close>.\<close>

fun parse_entries :: "u8 list \<Rightarrow> nat \<Rightarrow> nat \<Rightarrow> u32 \<Rightarrow> (pac_entry list, core_error) result" where
  "parse_entries pac file_offset 0 idx = Ok []"
| "parse_entries pac file_offset (Suc n) idx =
     rbind (table_slot pac file_offset idx) (\<lambda>fh.
     rbind (decode_entry fh) (\<lambda>e.
       if entry_size e \<noteq> 0 \<and> payload e pac = None
       then Err (PacEntryOutOfRange (file_id e) (entry_offset e) (entry_size e))
       else rmap ((#) e) (parse_entries pac file_offset n (idx + 1))))"

definition payload_crc :: "u8 list \<Rightarrow> u16" where
  "payload_crc body = foldl crc16_arc_from 0 (chunks (2 ^ 20) body)"

definition parse :: "u8 list \<Rightarrow> bool \<Rightarrow> (pac_info, core_error) result" where
  "parse pac verify_payload =
     (if length pac < HEADER_SIZE then Err (PacTooSmall (length pac))
      else
        rbind (slice pac 0 HEADER_SIZE) (\<lambda>header.
        rbind (le32_at header OFF_PAC_SIZE) (\<lambda>psize.
        if unat psize \<noteq> length pac then Err (PacSizeMismatch (unat psize) (length pac))
        else
          rbind (le16_at header OFF_CRC1) (\<lambda>crc1.
          rbind (le16_at header OFF_CRC2) (\<lambda>crc2.
          rbind (slice header 0 OFF_CRC1) (\<lambda>covered.
          rbind (le32_at header OFF_FILE_COUNT) (\<lambda>file_count.
          rbind (le32_at header OFF_FILE_OFFSET) (\<lambda>file_offset.
          rbind (parse_entries pac (unat file_offset) (unat file_count) 0) (\<lambda>es.
          rbind (slice pac HEADER_SIZE (length pac)) (\<lambda>body.
          rbind (slice header 0 48) (\<lambda>ver.
          rbind (slice header OFF_PRD_NAME (OFF_PRD_NAME + 512)) (\<lambda>pname.
          rbind (slice header OFF_PRD_VERSION (OFF_PRD_VERSION + 512)) (\<lambda>pver.
          rbind (le32_at header OFF_MODE) (\<lambda>md.
          rbind (le32_at header OFF_FLASH_TYPE) (\<lambda>ft.
          rbind (le32_at header OFF_MAGIC) (\<lambda>mg.
            Ok \<lparr>pac_version = utf16z ver, product_name = utf16z pname,
                product_version = utf16z pver, pac_size = psize, pac_mode = md,
                flash_type = ft, pac_magic = mg,
                header_crc_ok = (crc16_arc covered = crc1),
                payload_crc_ok = (if verify_payload then Some (payload_crc body = crc2) else None),
                entries = es\<rparr>))))))))))))))))"

section \<open>Payloads\<close>

lemma payload_eq:
  "payload e pac =
     (if unat (entry_offset e) + unat (entry_size e) \<le> length pac
      then Some (take (unat (entry_size e)) (drop (unat (entry_offset e)) pac)) else None)"
proof -
  have "unat (entry_offset e) < 4294967296" "unat (entry_size e) < 4294967296" by simp_all
  then have "unat (entry_offset e) + unat (entry_size e) < usize_limit"
    unfolding usize_limit_num by linarith
  then show ?thesis
    by (simp add: payload_def checked_add_usize_def get_range_def)
qed

lemma payload_length: "payload e pac = Some d \<Longrightarrow> length d = unat (entry_size e)"
  by (auto simp: payload_eq split: if_splits)

section \<open>The table loop\<close>

lemma table_slot_eq:
  assumes "file_offset < 2 ^ 32"
  shows "table_slot pac file_offset idx =
    (let base = unat idx * 2580 + file_offset
     in if base + 2580 \<le> length pac then Ok (take 2580 (drop base pac))
        else Err (PacTruncatedTable idx))"
proof -
  have "unat idx < 4294967296" by simp
  moreover have "file_offset < 4294967296" using assms by simp
  ultimately have "unat idx * 2580 < usize_limit"
    "unat idx * 2580 + file_offset < usize_limit"
    "unat idx * 2580 + file_offset + 2580 < usize_limit"
    unfolding usize_limit_num by linarith+
  then show ?thesis
    by (simp add: table_slot_def checked_mul_usize_def checked_add_usize_def get_range_def Let_def)
qed

lemma decode_entry_ok: "length fh = 2580 \<Longrightarrow> \<exists>e. decode_entry fh = Ok e"
  by (simp add: decode_entry_def)

lemma parse_entries_never_panics:
  "file_offset < 2 ^ 32 \<Longrightarrow> parse_entries pac file_offset n idx \<noteq> Panic"
proof (induction n arbitrary: idx)
  case (Suc n)
  show ?case
  proof (cases "unat idx * 2580 + file_offset + 2580 \<le> length pac")
    case True
    with Suc.prems have "table_slot pac file_offset idx
        = Ok (take 2580 (drop (unat idx * 2580 + file_offset) pac))"
      by (simp add: table_slot_eq Let_def)
    moreover obtain e where
      "decode_entry (take 2580 (drop (unat idx * 2580 + file_offset) pac)) = Ok e"
      using decode_entry_ok True by (metis (no_types) add_diff_cancel_left' add_le_imp_le_diff
        length_drop length_take min_absorb2 add.commute)
    moreover have "rmap ((#) e) (parse_entries pac file_offset n (idx + 1)) \<noteq> Panic"
      using Suc.IH [OF Suc.prems, of "idx + 1"]
      by (cases "parse_entries pac file_offset n (idx + 1)") simp_all
    ultimately show ?thesis by simp
  next
    case False
    with Suc.prems show ?thesis by (simp add: table_slot_eq Let_def)
  qed
qed simp


text \<open>A table entry as the source sees it, when the table has room for it.\<close>

definition table_entry :: "u8 list \<Rightarrow> nat \<Rightarrow> u32 \<Rightarrow> pac_entry" where
  "table_entry pac file_offset idx =
     (let fh = take 2580 (drop (unat idx * 2580 + file_offset) pac)
      in \<lparr>file_id = utf16z (take 512 (drop 4 fh)), file_name = utf16z (take 512 (drop 516 fh)),
          entry_size = from_le32 (fh ! 1540) (fh ! 1541) (fh ! 1542) (fh ! 1543),
          entry_offset = from_le32 (fh ! 1552) (fh ! 1553) (fh ! 1554) (fh ! 1555),
          entry_address = from_le32 (fh ! 1564) (fh ! 1565) (fh ! 1566) (fh ! 1567),
          entry_flag = from_le32 (fh ! 1544) (fh ! 1545) (fh ! 1546) (fh ! 1547),
          entry_omit = from_le32 (fh ! 1556) (fh ! 1557) (fh ! 1558) (fh ! 1559)\<rparr>)"

definition entry_in_range :: "u8 list \<Rightarrow> pac_entry \<Rightarrow> bool" where
  "entry_in_range pac e \<longleftrightarrow>
     entry_size e = 0 \<or> unat (entry_offset e) + unat (entry_size e) \<le> length pac"

lemma entry_in_range_payload: "entry_in_range pac e \<longleftrightarrow> \<not> (entry_size e \<noteq> 0 \<and> payload e pac = None)"
  by (auto simp: entry_in_range_def payload_eq)

lemma decode_entry_eq:
  "length fh = 2580 \<Longrightarrow> decode_entry fh = Ok
     \<lparr>file_id = utf16z (take 512 (drop 4 fh)), file_name = utf16z (take 512 (drop 516 fh)),
      entry_size = from_le32 (fh ! 1540) (fh ! 1541) (fh ! 1542) (fh ! 1543),
      entry_offset = from_le32 (fh ! 1552) (fh ! 1553) (fh ! 1554) (fh ! 1555),
      entry_address = from_le32 (fh ! 1564) (fh ! 1565) (fh ! 1566) (fh ! 1567),
      entry_flag = from_le32 (fh ! 1544) (fh ! 1545) (fh ! 1546) (fh ! 1547),
      entry_omit = from_le32 (fh ! 1556) (fh ! 1557) (fh ! 1558) (fh ! 1559)\<rparr>"
  by (simp add: decode_entry_def)

text \<open>One turn of the loop, on every branch.\<close>

lemma parse_entries_step:
  assumes "file_offset < 2 ^ 32"
  shows "parse_entries pac file_offset (Suc n) idx =
    (if \<not> unat idx * 2580 + file_offset + 2580 \<le> length pac then Err (PacTruncatedTable idx)
     else let e = table_entry pac file_offset idx
          in if \<not> entry_in_range pac e
             then Err (PacEntryOutOfRange (file_id e) (entry_offset e) (entry_size e))
             else rmap ((#) e) (parse_entries pac file_offset n (idx + 1)))"
proof (cases "unat idx * 2580 + file_offset + 2580 \<le> length pac")
  case True
  let ?fh = "take 2580 (drop (unat idx * 2580 + file_offset) pac)"
  have "length ?fh = 2580" using True by simp
  then have "decode_entry ?fh = Ok (table_entry pac file_offset idx)"
    by (simp only: decode_entry_eq table_entry_def Let_def)
  then show ?thesis using True
    by (simp add: table_slot_eq [OF assms] Let_def entry_in_range_payload)
next
  case False
  then show ?thesis by (simp add: table_slot_eq [OF assms] Let_def)
qed

lemma rmap_eq_Ok: "rmap f r = Ok y \<longleftrightarrow> (\<exists>x. r = Ok x \<and> y = f x)"
  by (cases r) auto

text \<open>The loop succeeds exactly when the table is complete and every entry in range.\<close>

lemma parse_entries_Ok_iff:
  assumes "file_offset < 2 ^ 32" and "unat idx + n < 2 ^ 32"
  shows "parse_entries pac file_offset n idx = Ok es \<longleftrightarrow>
    es = map (\<lambda>i. table_entry pac file_offset (word_of_nat i)) [unat idx..<unat idx + n] \<and>
    (n = 0 \<or> (unat idx + n) * 2580 + file_offset \<le> length pac) \<and>
    (\<forall>e \<in> set es. entry_in_range pac e)"
  using assms(2)
proof (induction n arbitrary: idx es)
  case (Suc n)
  have next_idx: "unat (idx + 1) = Suc (unat idx)"
    using Suc.prems by (simp add: unat_word_ariths)
  have IH: "parse_entries pac file_offset n (idx + 1) = Ok es' \<longleftrightarrow>
      es' = map (\<lambda>i. table_entry pac file_offset (word_of_nat i)) [Suc (unat idx)..<unat idx + Suc n] \<and>
      (n = 0 \<or> (unat idx + Suc n) * 2580 + file_offset \<le> length pac) \<and>
      (\<forall>e \<in> set es'. entry_in_range pac e)" for es'
    using Suc.IH [of "idx + 1" es'] Suc.prems by (simp add: next_idx)
  have range: "[unat idx..<unat idx + Suc n] = unat idx # [Suc (unat idx)..<unat idx + Suc n]"
    by (simp add: upt_rec)
  have idx: "word_of_nat (unat idx) = idx" by simp
  have fits: "(unat idx + Suc n) * 2580 + file_offset \<le> length pac \<Longrightarrow>
      unat idx * 2580 + file_offset + 2580 \<le> length pac" by simp
  show ?case
  proof (cases "unat idx * 2580 + file_offset + 2580 \<le> length pac \<and>
      entry_in_range pac (table_entry pac file_offset idx)")
    case True
    then have "parse_entries pac file_offset (Suc n) idx
        = rmap ((#) (table_entry pac file_offset idx)) (parse_entries pac file_offset n (idx + 1))"
      by (simp add: parse_entries_step [OF assms(1)] Let_def del: parse_entries.simps)
    moreover have "n = 0 \<Longrightarrow> (unat idx + Suc n) * 2580 + file_offset \<le> length pac"
      using True by simp
    ultimately show ?thesis using True unfolding range by (auto simp: rmap_eq_Ok IH idx)
  next
    case False
    then have "parse_entries pac file_offset (Suc n) idx \<noteq> Ok es"
      by (auto simp: parse_entries_step [OF assms(1)] Let_def simp del: parse_entries.simps)
    with False fits show ?thesis unfolding range by (auto simp: idx)
  qed
qed auto

lemma payload_crc_eq: "payload_crc body = crc16_arc body"
proof -
  have "foldl crc16_arc_from c bss = crc16_arc_from c (concat bss)" for c bss
    by (induction bss arbitrary: c) (simp_all add: crc16_arc_from_def)
  then show ?thesis by (simp add: payload_crc_def crc16_arc_def)
qed


section \<open>The whole parser\<close>

definition header_u32 :: "u8 list \<Rightarrow> nat \<Rightarrow> u32" where
  "header_u32 pac off = from_le32 (pac ! off) (pac ! (off + 1)) (pac ! (off + 2)) (pac ! (off + 3))"

definition header_u16 :: "u8 list \<Rightarrow> nat \<Rightarrow> u16" where
  "header_u16 pac off = from_le16 (pac ! off) (pac ! (off + 1))"

text \<open>The metadata of an accepted PAC, and its file table, read off the buffer.\<close>

definition parsed_info :: "u8 list \<Rightarrow> bool \<Rightarrow> pac_entry list \<Rightarrow> pac_info" where
  "parsed_info pac v es =
     \<lparr>pac_version = utf16z (take 48 pac), product_name = utf16z (take 512 (drop 52 pac)),
      product_version = utf16z (take 512 (drop 564 pac)), pac_size = header_u32 pac 48,
      pac_mode = header_u32 pac 1084, flash_type = header_u32 pac 1088,
      pac_magic = header_u32 pac 2116,
      header_crc_ok = (crc16_arc (take 2120 pac) = header_u16 pac 2120),
      payload_crc_ok = (if v then Some (crc16_arc (drop 2124 pac) = header_u16 pac 2122) else None),
      entries = es\<rparr>"

definition file_table :: "u8 list \<Rightarrow> pac_entry list" where
  "file_table pac =
     map (\<lambda>i. table_entry pac (unat (header_u32 pac 1080)) (word_of_nat i))
       [0..<unat (header_u32 pac 1076)]"

lemma header_reads:
  assumes "2124 \<le> length pac" and "off + 4 \<le> 2124"
  shows "le32_at (take 2124 pac) off = Ok (header_u32 pac off)"
    and "le16_at (take 2124 pac) off = Ok (header_u16 pac off)"
  using assms by (simp_all add: le32_at_def le16_at_def header_u32_def header_u16_def)

lemma header_read_crc2:
  "2124 \<le> length pac \<Longrightarrow> le16_at (take 2124 pac) 2122 = Ok (header_u16 pac 2122)"
  by (simp add: le16_at_def header_u16_def)

lemma parse_cases:
  "parse pac v =
     (if length pac < 2124 then Err (PacTooSmall (length pac))
      else if unat (header_u32 pac 48) \<noteq> length pac
      then Err (PacSizeMismatch (unat (header_u32 pac 48)) (length pac))
      else rmap (parsed_info pac v)
             (parse_entries pac (unat (header_u32 pac 1080)) (unat (header_u32 pac 1076)) 0))"
proof (cases "length pac < 2124")
  case True
  then show ?thesis by (simp add: parse_def)
next
  case False
  then have len: "2124 \<le> length pac" by simp
  have sl: "slice pac 0 2124 = Ok (take 2124 pac)"
    "slice (take 2124 pac) 0 2120 = Ok (take 2120 pac)"
    "slice pac 2124 (length pac) = Ok (drop 2124 pac)"
    "slice (take 2124 pac) 0 48 = Ok (take 48 pac)"
    "slice (take 2124 pac) 52 564 = Ok (take 512 (drop 52 pac))"
    "slice (take 2124 pac) 564 1076 = Ok (take 512 (drop 564 pac))"
    using len by (simp_all add: drop_take min_def)
  show ?thesis
    using len
    by (cases "parse_entries pac (unat (header_u32 pac 1080)) (unat (header_u32 pac 1076)) 0")
      (simp_all add: parse_def sl header_reads header_read_crc2 parsed_info_def payload_crc_eq
        del: slice_ok read_at_ok)
qed

lemma parse_Ok_iff:
  "parse pac v = Ok info \<longleftrightarrow>
     2124 \<le> length pac \<and> unat (header_u32 pac 48) = length pac \<and>
     (unat (header_u32 pac 1076) = 0 \<or>
      unat (header_u32 pac 1076) * 2580 + unat (header_u32 pac 1080) \<le> length pac) \<and>
     (\<forall>e \<in> set (file_table pac). entry_in_range pac e) \<and>
     info = parsed_info pac v (file_table pac)"
proof -
  have "unat (header_u32 pac 1080) < 2 ^ 32" "unat (0 :: u32) + unat (header_u32 pac 1076) < 2 ^ 32"
    by simp_all
  from parse_entries_Ok_iff [OF this, of pac] show ?thesis
    unfolding parse_cases by (auto simp: rmap_eq_Ok file_table_def)
qed

lemma parsed_info_crc_ok:
  "crc_ok (parsed_info pac v es) \<longleftrightarrow>
     crc16_arc (take 2120 pac) = header_u16 pac 2120 \<and>
     (v \<longrightarrow> crc16_arc (drop 2124 pac) = header_u16 pac 2122)"
  by (simp add: crc_ok_def parsed_info_def)

lemma parse_entries_error_at:
  assumes fo: "file_offset < 2 ^ 32" and "unat idx + n < 2 ^ 32" and "k < n"
    and good: "\<And>j. j < k \<Longrightarrow>
      (unat idx + j) * 2580 + file_offset + 2580 \<le> length pac \<and>
      entry_in_range pac (table_entry pac file_offset (word_of_nat (unat idx + j)))"
    and bad: "\<not> ((unat idx + k) * 2580 + file_offset + 2580 \<le> length pac \<and>
      entry_in_range pac (table_entry pac file_offset (word_of_nat (unat idx + k))))"
  shows "parse_entries pac file_offset n idx =
    (if (unat idx + k) * 2580 + file_offset + 2580 \<le> length pac
     then let e = table_entry pac file_offset (word_of_nat (unat idx + k))
          in Err (PacEntryOutOfRange (file_id e) (entry_offset e) (entry_size e))
     else Err (PacTruncatedTable (word_of_nat (unat idx + k))))"
  using assms(2-)
proof (induction k arbitrary: idx n)
  case 0
  then obtain m where n: "n = Suc m" by (cases n) auto
  from 0 show ?case unfolding n parse_entries_step [OF fo] by (auto simp: Let_def)
next
  case (Suc k)
  then obtain m where n: "n = Suc m" by (cases n) auto
  have nx: "unat (idx + 1) = Suc (unat idx)"
    using Suc.prems(1,2) by (simp add: unat_word_ariths)
  have "parse_entries pac file_offset (Suc m) idx
      = rmap ((#) (table_entry pac file_offset idx)) (parse_entries pac file_offset m (idx + 1))"
    unfolding parse_entries_step [OF fo] using Suc.prems(3) [of 0] by (simp add: Let_def)
  moreover have "parse_entries pac file_offset m (idx + 1) =
    (if (unat (idx + 1) + k) * 2580 + file_offset + 2580 \<le> length pac
     then let e = table_entry pac file_offset (word_of_nat (unat (idx + 1) + k))
          in Err (PacEntryOutOfRange (file_id e) (entry_offset e) (entry_size e))
     else Err (PacTruncatedTable (word_of_nat (unat (idx + 1) + k))))"
  proof (rule Suc.IH)
    show "unat (idx + 1) + m < 2 ^ 32" using Suc.prems(1) by (simp add: nx n)
    show "k < m" using Suc.prems(2) n by simp
    show "(unat (idx + 1) + j) * 2580 + file_offset + 2580 \<le> length pac \<and>
      entry_in_range pac (table_entry pac file_offset (word_of_nat (unat (idx + 1) + j)))"
      if "j < k" for j using Suc.prems(3) [of "Suc j"] that by (simp add: nx)
    show "\<not> ((unat (idx + 1) + k) * 2580 + file_offset + 2580 \<le> length pac \<and>
      entry_in_range pac (table_entry pac file_offset (word_of_nat (unat (idx + 1) + k))))"
      using Suc.prems(4) by (simp add: nx)
  qed
  ultimately show ?case unfolding n by (simp add: nx Let_def)
qed

section \<open>Properties\<close>

lemma parse_no_panic: "parse pac verify_payload \<noteq> Panic"
proof -
  have "parse_entries pac (unat (header_u32 pac 1080)) n idx \<noteq> Panic" for n idx
    by (rule parse_entries_never_panics) simp
  then show ?thesis
    unfolding parse_cases
    by (cases "parse_entries pac (unat (header_u32 pac 1080)) (unat (header_u32 pac 1076)) 0") auto
qed

text \<open>C8: no byte buffer makes the parser panic, whatever its header claims.\<close>

theorem parse_never_panics: "parse pac verify_payload \<noteq> Panic"
  by (rule parse_no_panic)

text \<open>C30: a buffer is accepted exactly when it holds a whole header, its size field is
  its length, the declared table fits and every non-empty entry lies inside the buffer; the
  result is then the table in file order, so each entry's payload is there at its full size, with
  the header's fields at their offsets (\<open>parsed_info\<close>) and the two CRC tests, of the header up to the CRC
  fields and, if asked for, of everything after the header.\<close>

theorem parse_accepts_iff:
  "((\<exists>info. parse pac v = Ok info) \<longleftrightarrow>
     2124 \<le> length pac \<and> unat (header_u32 pac 48) = length pac \<and>
     (unat (header_u32 pac 1076) = 0 \<or>
      unat (header_u32 pac 1076) * 2580 + unat (header_u32 pac 1080) \<le> length pac) \<and>
     (\<forall>e \<in> set (file_table pac). entry_in_range pac e)) \<and>
   (\<forall>info. parse pac v = Ok info \<longrightarrow>
     info = parsed_info pac v (file_table pac) \<and> entries info = file_table pac \<and>
     (\<forall>e \<in> set (entries info). entry_size e \<noteq> 0 \<longrightarrow>
       (\<exists>d. payload e pac = Some d \<and> length d = unat (entry_size e))))"
  unfolding parse_Ok_iff
  by (auto simp: parsed_info_def entry_in_range_def payload_eq)

text \<open>A PAC with one entry of two payload bytes and valid CRC fields, for the witnesses.\<close>

definition demo_head :: "u8 list" where
  "demo_head = replicate 48 0 @ to_le32 4706 @ replicate 1024 0 @ to_le32 1 @ to_le32 2124 @
     replicate 1036 0"

definition demo_entry :: "u8 list" where
  "demo_entry = replicate 4 0 @ [0x41, 0x00] @ replicate 1534 0 @ to_le32 2 @ replicate 8 0 @
     to_le32 4704 @ replicate 8 0 @ to_le32 0x60010000 @ replicate 1012 0"

definition demo_raw :: "u16 \<Rightarrow> u16 \<Rightarrow> u8 list \<Rightarrow> u8 list" where
  "demo_raw crc1 crc2 data = demo_head @ to_le16 crc1 @ to_le16 crc2 @ demo_entry @ data"

definition demo_pac :: "u8 list \<Rightarrow> u8 list" where
  "demo_pac data = demo_raw (crc16_arc demo_head) (crc16_arc (demo_entry @ data)) data"

lemma demo_lengths [simp]: "length demo_head = 2120" "length demo_entry = 2580"
  by (simp_all add: demo_head_def demo_entry_def)

lemma demo_head_fields:
  "header_u32 (demo_raw c1 c2 d) 48 = 4706" "header_u32 (demo_raw c1 c2 d) 1076 = 1"
  "header_u32 (demo_raw c1 c2 d) 1080 = 2124"
  "header_u16 (demo_raw c1 c2 d) 2120 = c1" "header_u16 (demo_raw c1 c2 d) 2122 = c2"
proof -
  show "header_u32 (demo_raw c1 c2 d) 48 = 4706" "header_u32 (demo_raw c1 c2 d) 1076 = 1"
    "header_u32 (demo_raw c1 c2 d) 1080 = 2124"
    by (simp_all add: header_u32_def demo_raw_def nth_append)
      (simp_all add: demo_head_def nth_append to_le32_def from_le32_def from_be32_def)
  show "header_u16 (demo_raw c1 c2 d) 2120 = c1" "header_u16 (demo_raw c1 c2 d) 2122 = c2"
    by (simp_all add: header_u16_def demo_raw_def nth_append to_le16_def)
qed

lemma utf16z_zeros [simp]: "utf16z (replicate n 0) = []"
proof (cases n)
  case (Suc m)
  then show ?thesis by (cases m) (simp_all add: from_le16_def from_be16_def)
qed simp

lemma demo_table:
  "file_table (demo_raw c1 c2 d) =
     [\<lparr>file_id = str ''A'', file_name = [], entry_size = 2, entry_offset = 4704,
       entry_address = 0x60010000, entry_flag = 0, entry_omit = 0\<rparr>]"
proof -
  have fh: "take 2580 (drop (unat (0 :: u32) * 2580 + 2124) (demo_raw c1 c2 d)) = demo_entry"
    by (simp add: demo_raw_def)
  have name: "utf16z (take 512 (drop 4 demo_entry)) = [0x41]"
    "utf16z (take 512 (drop 516 demo_entry)) = []"
    by (simp_all add: demo_entry_def from_le16_def from_be16_def)
  have "table_entry (demo_raw c1 c2 d) 2124 0 =
     \<lparr>file_id = str ''A'', file_name = [], entry_size = 2, entry_offset = 4704,
       entry_address = 0x60010000, entry_flag = 0, entry_omit = 0\<rparr>"
    unfolding table_entry_def fh Let_def name
    by (simp add: demo_entry_def nth_append to_le32_def from_le32_def from_be32_def)
  then show ?thesis by (simp add: file_table_def demo_head_fields)
qed

lemma demo_payload:
  "length d = 2 \<Longrightarrow> payload (hd (file_table (demo_raw c1 c2 d))) (demo_raw c1 c2 d) = Some d"
  unfolding demo_table by (simp add: payload_eq demo_raw_def)

lemma demo_parses:
  "length d = 2 \<Longrightarrow>
     parse (demo_raw c1 c2 d) v = Ok (parsed_info (demo_raw c1 c2 d) v (file_table (demo_raw c1 c2 d)))"
  by (simp add: parse_Ok_iff demo_head_fields demo_table entry_in_range_def) (simp add: demo_raw_def)

lemma demo_pac_crc_ok: "crc_ok (parsed_info (demo_pac d) v es)"
  by (simp add: parsed_info_crc_ok demo_pac_def demo_head_fields) (simp add: demo_raw_def)

theorem parse_accepts_iff_witness:
  "\<exists>info. parse (demo_pac [0xAA, 0xBB]) True = Ok info \<and>
     (\<exists>e \<in> set (entries info). entry_size e \<noteq> 0 \<and> payload e (demo_pac [0xAA, 0xBB]) = Some [0xAA, 0xBB])"
proof -
  let ?p = "demo_pac [0xAA, 0xBB]" and ?e = "hd (file_table (demo_pac [0xAA, 0xBB]))"
  obtain info where ok: "parse ?p True = Ok info"
    using demo_parses [of "[0xAA, 0xBB]"] by (simp add: demo_pac_def)
  with parse_accepts_iff [of ?p True] have "entries info = file_table ?p" by blast
  then have e: "?e \<in> set (entries info)" by (simp add: demo_pac_def demo_table)
  have sz: "entry_size ?e \<noteq> 0" by (simp add: demo_pac_def demo_table)
  with parse_accepts_iff [of ?p True] ok e have "\<exists>d. payload ?e ?p = Some d" by blast
  moreover have "payload ?e ?p = Some [0xAA, 0xBB]"
    unfolding demo_pac_def by (rule demo_payload) simp
  ultimately show ?thesis using ok e sz by blast
qed

text \<open>When the header is sound, the parser reports the first bad entry: a
  truncated table at the first entry that does not fit, or the out-of-range entry with its
  own id, offset and size.\<close>

lemma parse_reports_first_bad_entry:
  assumes "2124 \<le> length pac" and "unat (header_u32 pac 48) = length pac"
    and "k < unat (header_u32 pac 1076)"
    and "\<And>j. j < k \<Longrightarrow> j * 2580 + unat (header_u32 pac 1080) + 2580 \<le> length pac \<and>
           entry_in_range pac (file_table pac ! j)"
    and "\<not> (k * 2580 + unat (header_u32 pac 1080) + 2580 \<le> length pac \<and>
           entry_in_range pac (file_table pac ! k))"
  shows "parse pac v =
    (if k * 2580 + unat (header_u32 pac 1080) + 2580 \<le> length pac
     then let e = file_table pac ! k
          in Err (PacEntryOutOfRange (file_id e) (entry_offset e) (entry_size e))
     else Err (PacTruncatedTable (word_of_nat k)))"
proof -
  let ?fo = "unat (header_u32 pac 1080)" and ?n = "unat (header_u32 pac 1076)"
  have nth: "file_table pac ! j = table_entry pac ?fo (word_of_nat j)" if "j \<le> k" for j
    using that assms(3) by (simp add: file_table_def)
  have "parse_entries pac ?fo ?n 0 =
    (if (unat (0 :: u32) + k) * 2580 + ?fo + 2580 \<le> length pac
     then let e = table_entry pac ?fo (word_of_nat (unat (0 :: u32) + k))
          in Err (PacEntryOutOfRange (file_id e) (entry_offset e) (entry_size e))
     else Err (PacTruncatedTable (word_of_nat (unat (0 :: u32) + k))))"
    by (rule parse_entries_error_at) (use assms(3-5) nth in simp_all)
  then show ?thesis using assms(1,2) nth [of k] by (simp add: parse_cases Let_def)
qed

lemma header_u16_same:
  "length p \<ge> off + 2 \<Longrightarrow> header_u16 (p @ a @ s) off = header_u16 (p @ b @ s) off"
  "length a = length b \<Longrightarrow> length p + length a \<le> off \<Longrightarrow>
     header_u16 (p @ a @ s) off = header_u16 (p @ b @ s) off"
proof -
  show "length p \<ge> off + 2 \<Longrightarrow> header_u16 (p @ a @ s) off = header_u16 (p @ b @ s) off"
    by (simp add: header_u16_def nth_append)
  show "length a = length b \<Longrightarrow> length p + length a \<le> off \<Longrightarrow>
     header_u16 (p @ a @ s) off = header_u16 (p @ b @ s) off"
    by (simp add: header_u16_def nth_append flip: append_assoc)
qed

text \<open>A change of up to two consecutive bytes is seen by the verified parse.\<close>

lemma verified_pac_detects_corruption:
  assumes "parse (p @ a @ s) True = Ok info" and "crc_ok info"
    and "length a = length b" and "a \<noteq> b" and "length a \<le> 2"
    and "length p + length a \<le> 2120 \<or> 2124 \<le> length p"
    and "parse (p @ b @ s) True = Ok info'"
  shows "\<not> crc_ok info'"
proof
  assume ok': "crc_ok info'"
  from assms(1,2) have ok: "crc16_arc (take 2120 (p @ a @ s)) = header_u16 (p @ a @ s) 2120"
    "crc16_arc (drop 2124 (p @ a @ s)) = header_u16 (p @ a @ s) 2122"
    by (auto simp: parse_Ok_iff parsed_info_crc_ok)
  from assms(7) ok' have bad: "crc16_arc (take 2120 (p @ b @ s)) = header_u16 (p @ b @ s) 2120"
    "crc16_arc (drop 2124 (p @ b @ s)) = header_u16 (p @ b @ s) 2122"
    by (auto simp: parse_Ok_iff parsed_info_crc_ok)
  note differ = crc16_arc_detects [OF assms(3-5)]
  from assms(6) show False
  proof
    assume low: "length p + length a \<le> 2120"
    then have "header_u16 (p @ a @ s) 2120 = header_u16 (p @ b @ s) 2120"
      using assms(3) by (intro header_u16_same) simp_all
    moreover have "take 2120 (p @ x @ s) = p @ x @ take (2120 - length p - length a) s"
      if "length x = length a" for x using that low by simp
    ultimately show False using differ ok(1) bad(1) assms(3) by metis
  next
    assume high: "2124 \<le> length p"
    then have "header_u16 (p @ a @ s) 2122 = header_u16 (p @ b @ s) 2122"
      by (intro header_u16_same) simp
    moreover have "drop 2124 (p @ x @ s) = drop 2124 p @ x @ s" for x using high by simp
    ultimately show False using differ ok(2) bad(2) by metis
  qed
qed

text \<open>A prefix that makes the verified example PAC, for the witnesses.\<close>

lemma demo_pac_split:
  obtains p info where "parse (p @ [0xAA, 0xBB] @ []) True = Ok info" "crc_ok info" "2124 \<le> length p"
proof
  define p where "p = demo_head @ to_le16 (crc16_arc demo_head) @ to_le16 (crc16_arc (demo_entry @ [0xAA, 0xBB])) @ demo_entry"
  have raw: "demo_pac [0xAA, 0xBB] = p @ [0xAA, 0xBB] @ []" by (simp add: demo_pac_def demo_raw_def p_def)
  show "parse (p @ [0xAA, 0xBB] @ []) True =
      Ok (parsed_info (p @ [0xAA, 0xBB] @ []) True (file_table (p @ [0xAA, 0xBB] @ [])))"
    using demo_parses [of "[0xAA, 0xBB]" "crc16_arc demo_head"] unfolding raw [symmetric] demo_pac_def by simp
  show "crc_ok (parsed_info (p @ [0xAA, 0xBB] @ []) True (file_table (p @ [0xAA, 0xBB] @ [])))"
    unfolding raw [symmetric] by (rule demo_pac_crc_ok)
  show "2124 \<le> length p" by (simp add: p_def)
qed

end
