(* ===== verification/Plan.thy ===== *)
theory Plan
  imports Pac "HOL-Library.Sublist"
begin

text \<open>
  The flash plan of \<open>crates/sprdflash-core/src/plan.rs\<close>: the role of each PAC entry, the
  deduplicated format erases, the data-bearing markers, the NV image with its refreshed CRC and
  its sum-checked start payload, and \<open>build\<close>. The lemmas characterise each list of the plan
  by the entries of the file table, with a specification of the roles that does not use \<open>classify\<close>.
\<close>

definition LOGICAL_ADDRESS_BASE :: u32 where
  "LOGICAL_ADDRESS_BASE = 0xFE000000"

datatype role = Fdl1 | Fdl2 | Marker | Flash

definition classify :: "pac_entry \<Rightarrow> role" where
  "classify e =
     (if entry_size e = 0 \<or> entry_address e = 0 \<or> LOGICAL_ADDRESS_BASE \<le> entry_address e then Marker
      else
        (let fid = to_ascii_uppercase (file_id e)
         in if fid = str ''FDL2'' \<or> starts_with fid (str ''FDL2'') then Fdl2
            else if list_ex (\<lambda>x. fid = str x \<or> starts_with fid (str x)) [''HOST_FDL'', ''FDL'', ''FDL1'']
            then Fdl1
            else Flash))"

record erase_op =
  erase_file_id :: rust_string
  erase_address :: u32
  erase_parameter :: "u8 list"

definition erase_param :: "rust_string \<Rightarrow> u8 list option" where
  "erase_param fid =
     (let f = to_ascii_uppercase fid
      in if f = str ''FMT_FSSYS'' then Some [0x53, 0x59, 0x53, 0x46]
         else if f = str ''FLASH'' then Some [0, 0, 0, 0]
         else None)"

text \<open>The loop over the entries, with its two accumulators \<open>ops\<close> and \<open>seen\<close>.\<close>

fun erase_loop :: "pac_entry list \<Rightarrow> erase_op list \<Rightarrow> u32 list \<Rightarrow> erase_op list" where
  "erase_loop [] ops seen = ops"
| "erase_loop (e # es) ops seen =
     (if entry_size e \<noteq> 0 \<or> entry_address e < LOGICAL_ADDRESS_BASE then erase_loop es ops seen
      else
        (case erase_param (file_id e) of
           None \<Rightarrow> erase_loop es ops seen
         | Some param \<Rightarrow>
             (if entry_address e \<notin> set seen
              then erase_loop es
                     (ops @ [\<lparr>erase_file_id = file_id e, erase_address = entry_address e,
                              erase_parameter = param\<rparr>])
                     (seen @ [entry_address e])
              else erase_loop es ops seen)))"

definition erase_ops :: "pac_info \<Rightarrow> erase_op list" where
  "erase_ops info = erase_loop (entries info) [] []"

definition data_markers :: "pac_info \<Rightarrow> pac_entry list" where
  "data_markers info =
     filter (\<lambda>e. entry_size e \<noteq> 0 \<and> LOGICAL_ADDRESS_BASE \<le> entry_address e) (entries info)"

definition is_nv :: "rust_string \<Rightarrow> bool" where
  "is_nv fid \<longleftrightarrow> eq_ignore_ascii_case fid (str ''NV'')"

definition nv_fix_crc :: "u8 list \<Rightarrow> u8 list" where
  "nv_fix_crc data =
     (if 2 \<le> length data
      then let crc = crc16_arc (drop 2 data)
           in data[0 := ucast (drop_bit 8 crc), 1 := ucast (crc AND 0xFF)]
      else data)"

definition nv_start_payload :: "u32 \<Rightarrow> u8 list \<Rightarrow> u8 list" where
  "nv_start_payload addr data =
     to_be32 addr @ to_be32 (word_of_nat (length data)) @ to_be32 (sum32 data)"

record flash_plan =
  fdl1 :: pac_entry
  fdl2 :: "pac_entry option"
  partitions :: "pac_entry list"
  erases :: "erase_op list"
  plan_markers :: "pac_entry list"

definition build :: "pac_info \<Rightarrow> (flash_plan, string) result" where
  "build info =
     rbind (ok_or (find (\<lambda>e. classify e = Fdl1) (entries info)) ''no FDL1 (HOST_FDL) stage in the PAC'')
       (\<lambda>f1. Ok \<lparr>fdl1 = f1, fdl2 = find (\<lambda>e. classify e = Fdl2) (entries info),
                 partitions = filter (\<lambda>e. classify e = Flash) (entries info),
                 erases = erase_ops info, plan_markers = data_markers info\<rparr>)"

section \<open>Roles\<close>

lemma classify_not_marker:
  "classify e \<noteq> Marker \<longleftrightarrow>
     entry_size e \<noteq> 0 \<and> entry_address e \<noteq> 0 \<and> entry_address e < LOGICAL_ADDRESS_BASE"
  by (auto simp: classify_def Let_def not_le)

lemma classify_upper:
  "to_ascii_uppercase (file_id e) = to_ascii_uppercase (file_id e') \<Longrightarrow>
     entry_size e = entry_size e' \<Longrightarrow> entry_address e = entry_address e' \<Longrightarrow>
     classify e = classify e'"
  by (simp add: classify_def)

section \<open>Erases\<close>

text \<open>The entries that call for an erase, and the erase each calls for.\<close>

definition erase_marker :: "pac_entry \<Rightarrow> bool" where
  "erase_marker e \<longleftrightarrow>
     entry_size e = 0 \<and> LOGICAL_ADDRESS_BASE \<le> entry_address e \<and> erase_param (file_id e) \<noteq> None"

definition erase_of :: "pac_entry \<Rightarrow> erase_op" where
  "erase_of e = \<lparr>erase_file_id = file_id e, erase_address = entry_address e,
                 erase_parameter = the (erase_param (file_id e))\<rparr>"

text \<open>The first marker for each address, in order: what the loop computes.\<close>

fun first_markers :: "u32 set \<Rightarrow> pac_entry list \<Rightarrow> pac_entry list" where
  "first_markers seen [] = []"
| "first_markers seen (e # es) =
     (if erase_marker e \<and> entry_address e \<notin> seen
      then e # first_markers (insert (entry_address e) seen) es
      else first_markers seen es)"

lemma erase_loop_first_markers:
  "erase_loop es ops seen = ops @ map erase_of (first_markers (set seen) es)"
proof (induction es arbitrary: ops seen)
  case (Cons e es)
  show ?case
  proof (cases "erase_marker e")
    case True
    then show ?thesis using Cons
      by (auto simp: erase_marker_def erase_of_def not_less split: option.splits)
  next
    case False
    then show ?thesis using Cons by (auto simp: erase_marker_def not_less split: option.splits)
  qed
qed simp

lemma first_markers_fresh:
  "e \<in> set (first_markers seen es) \<Longrightarrow> e \<in> set es \<and> erase_marker e \<and> entry_address e \<notin> seen"
  by (induction es arbitrary: seen) (auto split: if_splits)

lemma first_markers_distinct: "distinct (map entry_address (first_markers seen es))"
  by (induction es arbitrary: seen) (auto dest: first_markers_fresh)

lemma first_markers_subseq: "subseq (first_markers seen es) (filter erase_marker es)"
  by (induction es arbitrary: seen) auto

lemma first_markers_cover:
  "e \<in> set es \<Longrightarrow> erase_marker e \<Longrightarrow>
     entry_address e \<in> seen \<or> entry_address e \<in> entry_address ` set (first_markers seen es)"
  by (induction es arbitrary: seen) auto

lemma first_markers_first:
  "e \<in> set (first_markers seen es) \<Longrightarrow>
     \<exists>pre post. es = pre @ e # post \<and>
       (\<forall>x \<in> set pre. erase_marker x \<longrightarrow> entry_address x \<noteq> entry_address e)"
proof (induction es arbitrary: seen)
  case (Cons x es)
  show ?case
  proof (cases "erase_marker x \<and> entry_address x \<notin> seen \<and> e = x")
    case True
    then show ?thesis by (intro exI [of _ "[]"] exI [of _ es]) simp
  next
    case False
    with Cons.prems obtain seen' where e: "e \<in> set (first_markers seen' es)"
      and x: "erase_marker x \<longrightarrow> entry_address x \<in> seen'"
      by (auto split: if_splits)
    from Cons.IH [OF e] obtain pre post where
      split: "es = pre @ e # post"
      and pre: "\<forall>x \<in> set pre. erase_marker x \<longrightarrow> entry_address x \<noteq> entry_address e" by blast
    from first_markers_fresh [OF e] x have "erase_marker x \<longrightarrow> entry_address x \<noteq> entry_address e"
      by auto
    with split pre show ?thesis
      by (intro exI [of _ "x # pre"] exI [of _ post]) simp
  qed
qed simp

lemma erase_ops_eq: "erase_ops info = map erase_of (first_markers {} (entries info))"
  by (simp add: erase_ops_def erase_loop_first_markers)

lemma erase_ops_parameter: "op \<in> set (erase_ops info) \<Longrightarrow> length (erase_parameter op) = 4"
proof -
  assume "op \<in> set (erase_ops info)"
  then obtain e where "erase_marker e" "op = erase_of e"
    by (auto simp: erase_ops_eq dest: first_markers_fresh)
  then show ?thesis by (auto simp: erase_marker_def erase_of_def erase_param_def Let_def split: if_splits)
qed

lemma build_Ok:
  "build info = Ok plan \<Longrightarrow>
     find (\<lambda>e. classify e = Fdl1) (entries info) = Some (fdl1 plan) \<and>
     fdl2 plan = find (\<lambda>e. classify e = Fdl2) (entries info) \<and>
     partitions plan = filter (\<lambda>e. classify e = Flash) (entries info) \<and>
     erases plan = erase_ops info \<and> plan_markers plan = data_markers info"
  by (auto simp: build_def rbind_eq_Ok ok_or_def split: option.splits)

text \<open>The format erases have pairwise different addresses, cover the address of every
  zero-size marker with a known parameter, follow PAC order, and each is the erase of the first
  such marker for its address.\<close>

lemma erase_ops_dedup:
  "distinct (map erase_address (erase_ops info)) \<and>
   erase_address ` set (erase_ops info) = entry_address ` {e \<in> set (entries info). erase_marker e} \<and>
   subseq (erase_ops info) (map erase_of (filter erase_marker (entries info))) \<and>
   (\<forall>op \<in> set (erase_ops info). \<exists>pre e post. entries info = pre @ e # post \<and> op = erase_of e \<and>
      erase_marker e \<and> (\<forall>x \<in> set pre. erase_marker x \<longrightarrow> entry_address x \<noteq> entry_address e))"
proof -
  have addr: "erase_address (erase_of e) = entry_address e" for e by (simp add: erase_of_def)
  have "map erase_address (erase_ops info) = map entry_address (first_markers {} (entries info))"
    by (simp add: erase_ops_eq addr)
  then have "distinct (map erase_address (erase_ops info))"
    by (simp only: first_markers_distinct)
  moreover have "erase_address ` set (erase_ops info)
      = entry_address ` {e \<in> set (entries info). erase_marker e}"
  proof -
    have "erase_address ` set (erase_ops info) = entry_address ` set (first_markers {} (entries info))"
      by (simp add: erase_ops_eq image_image addr)
    also have "\<dots> = entry_address ` {e \<in> set (entries info). erase_marker e}"
      using first_markers_cover [where seen = "{}" and es = "entries info"] first_markers_fresh by blast
    finally show ?thesis .
  qed
  moreover have "subseq (erase_ops info) (map erase_of (filter erase_marker (entries info)))"
    by (simp add: erase_ops_eq subseq_map first_markers_subseq)
  moreover have "\<exists>pre e post. entries info = pre @ e # post \<and> op = erase_of e \<and> erase_marker e \<and>
      (\<forall>x \<in> set pre. erase_marker x \<longrightarrow> entry_address x \<noteq> entry_address e)"
    if "op \<in> set (erase_ops info)" for op
  proof -
    from that obtain e where e: "e \<in> set (first_markers {} (entries info))" "op = erase_of e"
      by (auto simp: erase_ops_eq)
    with first_markers_first [OF e(1)] first_markers_fresh [OF e(1)] show ?thesis by blast
  qed
  ultimately show ?thesis by blast
qed

section \<open>A specification of the roles\<close>

text \<open>What an entry is for, without the order of the tests in \<open>classify\<close>: an entry with data at a
  physical address is a loader stage or a partition by the start of its id, in any case of its
  letters.\<close>

definition carries_data :: "pac_entry \<Rightarrow> bool" where
  "carries_data e \<longleftrightarrow> entry_size e \<noteq> 0 \<and> entry_address e \<noteq> 0 \<and> entry_address e < 0xFE000000"

definition id_begins :: "pac_entry \<Rightarrow> string \<Rightarrow> bool" where
  "id_begins e p \<longleftrightarrow> eq_ignore_ascii_case (take (length p) (file_id e)) (str p)"

definition second_loader :: "pac_entry \<Rightarrow> bool" where
  "second_loader e \<longleftrightarrow> carries_data e \<and> id_begins e ''FDL2''"

definition first_loader :: "pac_entry \<Rightarrow> bool" where
  "first_loader e \<longleftrightarrow>
     carries_data e \<and> \<not> id_begins e ''FDL2'' \<and> (id_begins e ''FDL'' \<or> id_begins e ''HOST_FDL'')"

definition first_of :: "('a \<Rightarrow> bool) \<Rightarrow> 'a list \<Rightarrow> 'a \<Rightarrow> bool" where
  "first_of P es e \<longleftrightarrow> (\<exists>pre post. es = pre @ e # post \<and> P e \<and> (\<forall>x \<in> set pre. \<not> P x))"

text \<open>The erase a format marker calls for.\<close>

definition erase_call :: "pac_entry \<Rightarrow> erase_op option" where
  "erase_call e =
     (if entry_size e \<noteq> 0 \<or> entry_address e < 0xFE000000 then None
      else if eq_ignore_ascii_case (file_id e) (str ''FMT_FSSYS'')
      then Some \<lparr>erase_file_id = file_id e, erase_address = entry_address e,
                 erase_parameter = [0x53, 0x59, 0x53, 0x46]\<rparr>
      else if eq_ignore_ascii_case (file_id e) (str ''FLASH'')
      then Some \<lparr>erase_file_id = file_id e, erase_address = entry_address e,
                 erase_parameter = [0, 0, 0, 0]\<rparr>
      else None)"

definition calls_erase_at :: "u32 \<Rightarrow> pac_entry \<Rightarrow> bool" where
  "calls_erase_at a e \<longleftrightarrow> entry_address e = a \<and> erase_call e \<noteq> None"

definition format_erases :: "pac_entry list \<Rightarrow> erase_op list \<Rightarrow> bool" where
  "format_erases es ops \<longleftrightarrow>
     subseq ops (map (\<lambda>e. the (erase_call e)) (filter (\<lambda>e. erase_call e \<noteq> None) es)) \<and>
     distinct (map erase_address ops) \<and>
     (\<forall>op. op \<in> set ops \<longleftrightarrow>
        (\<exists>e. first_of (calls_erase_at (erase_address op)) es e \<and> erase_call e = Some op))"

lemma ascii_case_char: "ascii_upper_char c = ascii_upper_char d \<longleftrightarrow> ascii_lower_char c = ascii_lower_char d"
proof -
  have "ascii_lower_char (ascii_upper_char c) = ascii_lower_char c" for c
  proof (cases "97 \<le> c \<and> c \<le> 122")
    case True
    then have "32 \<le> c" "unat (c - 32) = unat c - 32"
      by (auto simp: word_le_nat_alt unat_sub)
    with True show ?thesis
      by (auto simp: ascii_lower_char_def ascii_upper_char_def word_le_nat_alt)
  qed (auto simp: ascii_upper_char_def)
  moreover have "ascii_upper_char (ascii_lower_char c) = ascii_upper_char c" for c
  proof (cases "65 \<le> c \<and> c \<le> 90")
    case True
    then have "unat (c + 32) = unat c + 32"
      by (subst unat_add_u32) (auto simp: word_le_nat_alt)
    with True show ?thesis
      by (auto simp: ascii_lower_char_def ascii_upper_char_def word_le_nat_alt)
  qed (auto simp: ascii_lower_char_def)
  ultimately show ?thesis by metis
qed

lemma eq_ignore_ascii_case_upper:
  "eq_ignore_ascii_case a b \<longleftrightarrow> to_ascii_uppercase a = to_ascii_uppercase b"
  by (auto simp: eq_ignore_ascii_case_def to_ascii_uppercase_def list_eq_iff_nth_eq ascii_case_char)

lemma find_first_of: "find P es = Some e \<Longrightarrow> first_of P es e"
proof (induction es)
  case (Cons x es)
  show ?case
  proof (cases "P x")
    case True
    with Cons.prems show ?thesis unfolding first_of_def by (intro exI [of _ "[]"] exI [of _ es]) simp
  next
    case False
    with Cons obtain pre post where "es = pre @ e # post" "P e" "\<forall>y \<in> set pre. \<not> P y"
      by (auto simp: first_of_def)
    with False show ?thesis
      unfolding first_of_def by (intro exI [of _ "x # pre"] exI [of _ post]) simp
  qed
qed simp

lemma first_of_find: "first_of P es e \<Longrightarrow> find P es = Some e"
proof -
  have "find P (pre @ e # post) = Some e" if "P e" "\<forall>x \<in> set pre. \<not> P x" for pre post
    using that by (induction pre) auto
  then show "first_of P es e \<Longrightarrow> find P es = Some e" by (auto simp: first_of_def)
qed

lemma id_begins_upper:
  "to_ascii_uppercase (str p) = str p \<Longrightarrow>
     starts_with (to_ascii_uppercase (file_id e)) (str p) \<longleftrightarrow> id_begins e p"
  by (simp only: id_begins_def eq_ignore_ascii_case_upper starts_with_def)
    (simp add: to_ascii_uppercase_def take_map str_def)

lemma equal_or_starts_with: "s = p \<or> starts_with s p \<longleftrightarrow> starts_with s p"
  by (auto simp: starts_with_def)

lemma upper_ids:
  "to_ascii_uppercase (str ''FDL2'') = str ''FDL2''" "to_ascii_uppercase (str ''FDL'') = str ''FDL''"
  "to_ascii_uppercase (str ''HOST_FDL'') = str ''HOST_FDL''"
  "to_ascii_uppercase (str ''FDL1'') = str ''FDL1''"
  "to_ascii_uppercase (str ''FMT_FSSYS'') = str ''FMT_FSSYS''"
  "to_ascii_uppercase (str ''FLASH'') = str ''FLASH''"
  by (simp_all add: to_ascii_uppercase_def ascii_upper_char_def str_def)

lemma fdl1_prefix:
  assumes "starts_with s (str ''FDL1'')"
  shows "starts_with s (str ''FDL'')"
proof -
  have "take 3 s = take 3 (take 4 s)" by simp
  also have "take 4 s = str ''FDL1''" using assms by (simp add: starts_with_def numeral_eq_Suc)
  finally show ?thesis by (simp add: starts_with_def numeral_eq_Suc)
qed

text \<open>\<open>classify\<close> tells the roles of the specification.\<close>

lemma classify_roles:
  "classify e = Fdl2 \<longleftrightarrow> second_loader e"
  "classify e = Fdl1 \<longleftrightarrow> first_loader e"
  "classify e = Flash \<longleftrightarrow> carries_data e \<and> \<not> first_loader e \<and> \<not> second_loader e"
proof -
  let ?f = "to_ascii_uppercase (file_id e)"
  have two: "?f = str ''FDL2'' \<or> starts_with ?f (str ''FDL2'') \<longleftrightarrow> id_begins e ''FDL2''"
    by (simp only: equal_or_starts_with) (simp only: id_begins_upper [OF upper_ids(1)])
  have one: "list_ex (\<lambda>x. ?f = str x \<or> starts_with ?f (str x)) [''HOST_FDL'', ''FDL'', ''FDL1''] \<longleftrightarrow>
      id_begins e ''FDL'' \<or> id_begins e ''HOST_FDL''"
    unfolding list_ex_Cons_iff list_ex_Nil_iff equal_or_starts_with
    using fdl1_prefix [of ?f] id_begins_upper [OF upper_ids(2), of e] id_begins_upper [OF upper_ids(3), of e]
    by blast
  have c: "classify e = (if \<not> carries_data e then Marker else if id_begins e ''FDL2'' then Fdl2
      else if id_begins e ''FDL'' \<or> id_begins e ''HOST_FDL'' then Fdl1 else Flash)"
    unfolding classify_def Let_def two one by (simp add: carries_data_def LOGICAL_ADDRESS_BASE_def not_less)
  show "classify e = Fdl2 \<longleftrightarrow> second_loader e" "classify e = Fdl1 \<longleftrightarrow> first_loader e"
    "classify e = Flash \<longleftrightarrow> carries_data e \<and> \<not> first_loader e \<and> \<not> second_loader e"
    unfolding c by (auto simp: second_loader_def first_loader_def)
qed

lemma erase_call_eq:
  "erase_call e = (if erase_marker e then Some (erase_of e) else None)"
  unfolding erase_call_def erase_marker_def erase_of_def erase_param_def Let_def
    eq_ignore_ascii_case_upper upper_ids LOGICAL_ADDRESS_BASE_def linorder_not_less [symmetric]
  by (simp del: str_simps)

lemma erase_ops_format: "format_erases (entries info) (erase_ops info)"
proof -
  note ops = erase_ops_dedup [of info]
  have addr: "erase_address (erase_of e) = entry_address e" for e by (simp add: erase_of_def)
  have calls: "calls_erase_at a e \<longleftrightarrow> erase_marker e \<and> entry_address e = a" for a e
    by (auto simp: calls_erase_at_def erase_call_eq)
  have "op \<in> set (erase_ops info) \<longleftrightarrow>
      (\<exists>e. first_of (calls_erase_at (erase_address op)) (entries info) e \<and> erase_call e = Some op)" for op
  proof
    assume "op \<in> set (erase_ops info)"
    with ops obtain pre e post where "entries info = pre @ e # post" "op = erase_of e" "erase_marker e"
      "\<forall>x \<in> set pre. erase_marker x \<longrightarrow> entry_address x \<noteq> entry_address e" by blast
    then show "\<exists>e. first_of (calls_erase_at (erase_address op)) (entries info) e \<and> erase_call e = Some op"
      by (intro exI [of _ e]) (auto simp: first_of_def calls erase_call_eq addr)
  next
    assume "\<exists>e. first_of (calls_erase_at (erase_address op)) (entries info) e \<and> erase_call e = Some op"
    then obtain e where e: "first_of (calls_erase_at (erase_address op)) (entries info) e"
      "erase_marker e" "op = erase_of e" by (auto simp: erase_call_eq split: if_splits)
    then have "e \<in> set (entries info)" by (auto simp: first_of_def)
    with e ops have "erase_address op \<in> erase_address ` set (erase_ops info)" by (auto simp: addr)
    then obtain op' where op': "op' \<in> set (erase_ops info)" "erase_address op' = erase_address op" by auto
    with ops obtain pre e' post where "entries info = pre @ e' # post" "op' = erase_of e'" "erase_marker e'"
      "\<forall>x \<in> set pre. erase_marker x \<longrightarrow> entry_address x \<noteq> entry_address e'" by blast
    then have "first_of (calls_erase_at (erase_address op)) (entries info) e'"
      using op'(2) by (auto simp: first_of_def calls addr)
    from first_of_find [OF this] first_of_find [OF e(1)] have "e = e'" by simp
    with op' e(3) \<open>op' = erase_of e'\<close> show "op \<in> set (erase_ops info)" by simp
  qed
  moreover have "map (\<lambda>e. the (erase_call e)) (filter (\<lambda>e. erase_call e \<noteq> None) (entries info)) =
      map erase_of (filter erase_marker (entries info))"
    by (simp add: erase_call_eq)
  ultimately show ?thesis using ops by (simp add: format_erases_def)
qed

section \<open>The NV image\<close>

lemma nv_fix_crc_eq:
  "2 \<le> length data \<Longrightarrow> nv_fix_crc data = to_be16 (crc16_arc (drop 2 data)) @ drop 2 data"
proof -
  assume "2 \<le> length data"
  then obtain a b rest where d: "data = a # b # rest"
    by (cases data; cases "tl data") auto
  have "(ucast (x AND 0xFF) :: u8) = ucast x" for x :: u16
    by (simp add: take_bit_8_as_and) (rule bit_word_eqI, auto simp: bit_simps)
  then show ?thesis by (simp add: nv_fix_crc_def d Let_def to_be16_def)
qed

lemma length_nv_fix_crc [simp]: "length (nv_fix_crc data) = length data"
  by (simp add: nv_fix_crc_def Let_def)

lemma length_nv_start_payload [simp, wire_lengths]: "length (nv_start_payload addr data) = 12"
  by (simp add: nv_start_payload_def)

section \<open>The markers of the reference firmware\<close>

text \<open>The file table of the repository's own test (\<open>v4035_markers\<close>), with a loader in front.\<close>

definition marker_entry :: "string \<Rightarrow> u32 \<Rightarrow> u32 \<Rightarrow> pac_entry" where
  "marker_entry fid addr len =
     \<lparr>file_id = str fid, file_name = [], entry_size = len, entry_offset = 0, entry_address = addr,
      entry_flag = 0, entry_omit = 0\<rparr>"

definition v4035_markers :: pac_info where
  "v4035_markers =
     \<lparr>pac_version = [], product_name = [], product_version = [], pac_size = 0, pac_mode = 0,
      flash_type = 0, pac_magic = 0, header_crc_ok = True, payload_crc_ok = Some True,
      entries =
        [marker_entry ''HOST_FDL'' 0x838000 100, marker_entry ''AP'' 0x60010000 100,
         marker_entry ''PhaseCheck'' 0xFE000002 0, marker_entry ''FMT_FSSYS'' 0xFE000006 0,
         marker_entry ''FMT_FSEXT'' 0xFE000006 0, marker_entry ''FLASH'' 0xFE000001 0,
         marker_entry ''NV'' 0xFE000003 131072]\<rparr>"

lemmas marker_eval =
  v4035_markers_def marker_entry_def classify_def erase_param_def LOGICAL_ADDRESS_BASE_def
  to_ascii_uppercase_def ascii_upper_char_def starts_with_def str_def

lemma v4035_erases:
  "erase_ops v4035_markers =
     [\<lparr>erase_file_id = str ''FMT_FSSYS'', erase_address = 0xFE000006,
       erase_parameter = [0x53, 0x59, 0x53, 0x46]\<rparr>,
      \<lparr>erase_file_id = str ''FLASH'', erase_address = 0xFE000001, erase_parameter = [0, 0, 0, 0]\<rparr>]"
  by (simp add: erase_ops_def marker_eval Let_def)

lemma v4035_partitions:
  "filter (\<lambda>e. classify e = Flash) (entries v4035_markers) = [marker_entry ''AP'' 0x60010000 100]"
  "find (\<lambda>e. classify e = Fdl1) (entries v4035_markers) = Some (marker_entry ''HOST_FDL'' 0x838000 100)"
  by (simp_all add: marker_eval Let_def)

section \<open>Properties\<close>

text \<open>C31: a plan exists exactly when the PAC has a first loader stage: an entry with data at a
  physical address whose id starts with FDL or HOST_FDL, but not with FDL2, in any case. The plan
  names the first such entry, the first entry with data whose id starts with FDL2 (if any), and as
  partitions, in file order, all the other entries with data at a physical address, so no marker and
  no loader stage is ever written as a partition. Its erases are, in file order, those of the first
  format marker of each address, and its markers the entries with data at a logical address.\<close>

theorem build_plan:
  "(case build info of
      Ok p \<Rightarrow>
        first_of first_loader (entries info) (fdl1 p) \<and>
        (case fdl2 p of
           None \<Rightarrow> \<forall>e \<in> set (entries info). \<not> second_loader e
         | Some e \<Rightarrow> first_of second_loader (entries info) e) \<and>
        partitions p =
          filter (\<lambda>e. carries_data e \<and> \<not> first_loader e \<and> \<not> second_loader e) (entries info) \<and>
        format_erases (entries info) (erases p) \<and>
        plan_markers p = filter (\<lambda>e. entry_size e \<noteq> 0 \<and> 0xFE000000 \<le> entry_address e) (entries info)
    | Err msg \<Rightarrow> \<forall>e \<in> set (entries info). \<not> first_loader e
    | Panic \<Rightarrow> False)"
proof (cases "find first_loader (entries info)")
  case None
  then have "\<forall>e \<in> set (entries info). \<not> first_loader e" by (simp add: find_None_iff)
  with None show ?thesis by (simp add: build_def classify_roles)
next
  case (Some f)
  then have "first_of first_loader (entries info) f" by (rule find_first_of)
  moreover have "case find second_loader (entries info) of
      None \<Rightarrow> \<forall>e \<in> set (entries info). \<not> second_loader e
    | Some e \<Rightarrow> first_of second_loader (entries info) e"
    by (auto split: option.split simp: find_None_iff intro: find_first_of)
  ultimately show ?thesis using Some erase_ops_format [of info]
    unfolding build_def classify_roles data_markers_def LOGICAL_ADDRESS_BASE_def by simp
qed

theorem build_plan_witness:
  "\<exists>p. build v4035_markers = Ok p \<and> fdl1 p = marker_entry ''HOST_FDL'' 0x838000 100 \<and>
     marker_entry ''AP'' 0x60010000 100 \<in> set (partitions p) \<and>
     plan_markers p = [marker_entry ''NV'' 0xFE000003 131072]"
proof -
  from v4035_partitions obtain p where p: "build v4035_markers = Ok p"
    by (auto simp: build_def)
  note plan = build_plan [of v4035_markers, unfolded p result.case]
  then have "find first_loader (entries v4035_markers) = Some (fdl1 p)"
    by (simp add: first_of_find)
  then have "fdl1 p = marker_entry ''HOST_FDL'' 0x838000 100"
    using v4035_partitions(2) by (simp add: classify_roles)
  moreover have "partitions p = [marker_entry ''AP'' 0x60010000 100]"
    using plan v4035_partitions(1) by (simp add: classify_roles conj_assoc)
  moreover have "plan_markers p = [marker_entry ''NV'' 0xFE000003 131072]"
    using plan by (simp add: v4035_markers_def marker_entry_def)
  ultimately show ?thesis using p by simp
qed

text \<open>C32: refreshing an NV image of at least two bytes keeps its length and content, makes its
  leading big-endian slot the CRC-16-ARC of the rest, and is idempotent; the 12-byte start
  payload carries address, length and the byte sum of that image.\<close>

theorem nv_image_valid:
  assumes "2 \<le> length data"
  shows "length (nv_fix_crc data) = length data \<and> drop 2 (nv_fix_crc data) = drop 2 data \<and>
    from_be16 (nv_fix_crc data ! 0) (nv_fix_crc data ! 1) = crc16_arc (drop 2 data) \<and>
    nv_fix_crc (nv_fix_crc data) = nv_fix_crc data \<and>
    nv_start_payload addr (nv_fix_crc data) =
      to_be32 addr @ to_be32 (word_of_nat (length data)) @
      to_be32 (word_of_nat (\<Sum>b\<leftarrow>nv_fix_crc data. unat b))"
proof -
  have two: "length (to_be16 x) = 2" for x by simp
  have eq: "nv_fix_crc data = to_be16 (crc16_arc (drop 2 data)) @ drop 2 data"
    using assms by (rule nv_fix_crc_eq)
  then have tail: "drop 2 (nv_fix_crc data) = drop 2 data" by simp
  have "nv_fix_crc (nv_fix_crc data) = nv_fix_crc data"
    using nv_fix_crc_eq [of "nv_fix_crc data"] assms tail eq by simp
  moreover have "from_be16 (nv_fix_crc data ! 0) (nv_fix_crc data ! 1) = crc16_arc (drop 2 data)"
    by (simp add: eq to_be16_def)
  ultimately show ?thesis using tail
    by (simp add: nv_start_payload_def sum32_value)
qed

theorem nv_image_valid_witness:
  "from_be16 (nv_fix_crc [0, 0, 1, 2] ! 0) (nv_fix_crc [0, 0, 1, 2] ! 1) = crc16_arc [1, 2] \<and>
   crc16_arc [1, 2] = 0x5180"
  using nv_image_valid [of "[0, 0, 1, 2]" 0]
  by (simp add: crc16_arc_def crc16_arc_from_def arc_update_register register_eval crc_shift_def)

end
