(* ===== verification/Bsl.thy ===== *)
theory Bsl
  imports Checksum Rust_Text
begin

text \<open>
  The BSL framing of \<open>crates/sprdflash-core/src/bsl.rs\<close>: opcodes, the HDLC escape, message
  building and parsing and checksum detection. The lemmas show that escaping is invertible
  and keeps the flag byte out of a frame, that a built message parses back to the command
  and data it was built from, and what the parser accepts and rejects.
\<close>

section \<open>Opcodes\<close>

definition FLAG :: u8 where "FLAG = 0x7E"
definition ESCAPE :: u8 where "ESCAPE = 0x7D"

definition CMD_CONNECT :: u16 where "CMD_CONNECT = 0x00"
definition CMD_START_DATA :: u16 where "CMD_START_DATA = 0x01"
definition CMD_MIDST_DATA :: u16 where "CMD_MIDST_DATA = 0x02"
definition CMD_END_DATA :: u16 where "CMD_END_DATA = 0x03"
definition CMD_EXEC_DATA :: u16 where "CMD_EXEC_DATA = 0x04"
definition CMD_NORMAL_RESET :: u16 where "CMD_NORMAL_RESET = 0x05"
definition CMD_READ_FLASH :: u16 where "CMD_READ_FLASH = 0x06"
definition CMD_READ_CHIP_TYPE :: u16 where "CMD_READ_CHIP_TYPE = 0x07"
definition CMD_CHANGE_BAUD :: u16 where "CMD_CHANGE_BAUD = 0x09"
definition CMD_ERASE_FLASH :: u16 where "CMD_ERASE_FLASH = 0x0A"
definition CMD_READ_START :: u16 where "CMD_READ_START = 0x10"
definition CMD_READ_MIDST :: u16 where "CMD_READ_MIDST = 0x11"
definition CMD_READ_END :: u16 where "CMD_READ_END = 0x12"
definition CMD_READ_CHIP_UID :: u16 where "CMD_READ_CHIP_UID = 0x1A"
definition CMD_DISABLE_TRANSCODE :: u16 where "CMD_DISABLE_TRANSCODE = 0x21"
definition CMD_READ_PARTITION :: u16 where "CMD_READ_PARTITION = 0x2D"
definition CMD_END_PROCESS :: u16 where "CMD_END_PROCESS = 0x7F"

definition REP_ACK :: u16 where "REP_ACK = 0x80"
definition REP_VER :: u16 where "REP_VER = 0x81"
definition REP_INVALID_CMD :: u16 where "REP_INVALID_CMD = 0x82"
definition REP_UNKNOWN_CMD :: u16 where "REP_UNKNOWN_CMD = 0x83"
definition REP_OPERATION_FAILED :: u16 where "REP_OPERATION_FAILED = 0x84"
definition REP_READ_FLASH :: u16 where "REP_READ_FLASH = 0x93"
definition REP_READ_CHIP_TYPE :: u16 where "REP_READ_CHIP_TYPE = 0x94"
definition REP_READ_CHIP_UID :: u16 where "REP_READ_CHIP_UID = 0xAB"
definition REP_READ_PARTITION :: u16 where "REP_READ_PARTITION = 0xBA"
definition REP_UNSUPPORTED_COMMAND :: u16 where "REP_UNSUPPORTED_COMMAND = 0xFE"

lemmas opcode_defs =
  CMD_CONNECT_def CMD_START_DATA_def CMD_MIDST_DATA_def CMD_END_DATA_def CMD_EXEC_DATA_def
  CMD_NORMAL_RESET_def CMD_READ_FLASH_def CMD_CHANGE_BAUD_def CMD_ERASE_FLASH_def
  REP_ACK_def REP_VER_def REP_INVALID_CMD_def REP_UNKNOWN_CMD_def REP_OPERATION_FAILED_def
  REP_READ_FLASH_def REP_READ_CHIP_TYPE_def REP_READ_CHIP_UID_def REP_READ_PARTITION_def
  REP_UNSUPPORTED_COMMAND_def

definition rep_name :: "u16 \<Rightarrow> string" where
  "rep_name code =
     (if code = REP_ACK then ''ACK''
      else if code = REP_VER then ''VER''
      else if code = REP_INVALID_CMD then ''INVALID_CMD''
      else if code = REP_UNKNOWN_CMD then ''UNKNOWN_CMD''
      else if code = REP_OPERATION_FAILED then ''OPERATION_FAILED''
      else if code = REP_READ_FLASH then ''READ_FLASH''
      else if code = REP_READ_CHIP_TYPE then ''READ_CHIP_TYPE''
      else if code = REP_READ_CHIP_UID then ''READ_CHIP_UID''
      else if code = REP_READ_PARTITION then ''READ_PARTITION''
      else if code = REP_UNSUPPORTED_COMMAND then ''UNSUPPORTED_COMMAND''
      else ''?'')"

section \<open>Framing\<close>

datatype checksum = Sprd | Crc

definition compute :: "checksum \<Rightarrow> u8 list \<Rightarrow> (u16, 'e) result" where
  "compute ck body = (case ck of Sprd \<Rightarrow> sprd_sum body | Crc \<Rightarrow> Ok (crc16_ccitt body))"

fun escape :: "u8 list \<Rightarrow> u8 list" where
  "escape [] = []"
| "escape (b # bs) =
     (if b = FLAG \<or> b = ESCAPE then ESCAPE # (b XOR 0x20) # escape bs else b # escape bs)"

fun unescape :: "u8 list \<Rightarrow> u8 list" where
  "unescape [] = []"
| "unescape [b] = (if b = ESCAPE then [] else [b])"
| "unescape (b # c # bs) =
     (if b = ESCAPE then (c XOR 0x20) # unescape bs else b # unescape (c # bs))"

definition build_message :: "u16 \<Rightarrow> u8 list \<Rightarrow> checksum \<Rightarrow> (u8 list, 'e) result" where
  "build_message cmd data ck =
     (let body = to_be16 cmd @ to_be16 (word_of_nat (length data)) @ data
      in rbind (compute ck body) (\<lambda>c. Ok (FLAG # escape (body @ to_be16 c) @ [FLAG])))"

definition parse_message :: "u8 list \<Rightarrow> (u16 \<times> u8 list, core_error) result" where
  "parse_message body =
     (if length body < 6 then Err (FrameTooShort (length body))
      else
        rbind (be16_at body 0) (\<lambda>cmd.
        rbind (be16_at body 2) (\<lambda>sz.
        rbind (slice body 4 (length body)) (\<lambda>data.
          let size = unat sz
          in if length data < size + 2 then Err (FrameTruncated size (length data - 2))
             else rmap (Pair cmd) (slice data 0 size)))))"

definition detect_checksum :: "u8 list \<Rightarrow> (checksum option, 'e) result" where
  "detect_checksum body =
     (if length body < 6 then Ok None
      else
        (let payload = take (length body - 2) body; chk = drop (length body - 2) body
         in rbind (be16_at chk 0) (\<lambda>c.
            rbind (sprd_sum payload) (\<lambda>s.
              Ok (if s = c then Some Sprd
                  else if crc16_ccitt payload = c then Some Crc
                  else None)))))"

section \<open>Escaping\<close>

lemma escape_append [simp]: "escape (xs @ ys) = escape xs @ escape ys"
  by (induction xs) auto

lemma escape_no_flag: "FLAG \<notin> set (escape xs)"
  by (induction xs) (auto simp: FLAG_def ESCAPE_def)

lemma escape_not_flag [simp]: "\<forall>b \<in> set (escape xs). b \<noteq> FLAG"
  using escape_no_flag [of xs] by auto

lemma escape_eq_Nil [simp]: "escape xs = [] \<longleftrightarrow> xs = []"
  by (cases xs) auto

lemma length_escape: "length xs \<le> length (escape xs) \<and> length (escape xs) \<le> 2 * length xs"
  by (induction xs) auto

lemma unescape_plain: "b \<noteq> ESCAPE \<Longrightarrow> unescape (b # bs) = b # unescape bs"
  by (cases bs) auto

lemma unescape_escape_append: "unescape (escape xs @ ys) = xs @ unescape ys"
proof (induction xs)
  case (Cons x xs)
  show ?case
  proof (cases "x = FLAG \<or> x = ESCAPE")
    case True
    have "(x XOR 0x20) XOR 0x20 = x" by (simp add: xor.assoc)
    with True Cons show ?thesis by auto
  next
    case False
    with Cons show ?thesis by (simp add: unescape_plain)
  qed
qed simp

lemma unescape_escape [simp]: "unescape (escape xs) = xs"
  using unescape_escape_append [of xs "[]"] by simp

lemma length_unescape: "length (unescape xs) \<le> length xs"
  by (induction xs rule: unescape.induct) auto

section \<open>Building and parsing\<close>

text \<open>The body of a message before escaping.\<close>

definition message_body :: "u16 \<Rightarrow> u8 list \<Rightarrow> u16 \<Rightarrow> u8 list" where
  "message_body cmd data c = to_be16 cmd @ to_be16 (word_of_nat (length data)) @ data @ to_be16 c"

lemma length_message_body [simp, wire_lengths]: "length (message_body cmd data c) = length data + 6"
  by (simp add: message_body_def)

lemma compute_ok: "length body \<le> 131072 \<Longrightarrow> \<exists>c. compute ck body = Ok c"
  by (cases ck) (auto simp: compute_def sprd_sum_ok)

text \<open>The checksum a short message carries (a total function, for the proofs).\<close>

definition message_sum :: "checksum \<Rightarrow> u16 \<Rightarrow> u8 list \<Rightarrow> u16" where
  "message_sum ck cmd data =
     (let body = to_be16 cmd @ to_be16 (word_of_nat (length data)) @ data
      in case ck of
           Sprd \<Rightarrow> swap16 (word_of_nat (65535 - carry_fold (word_sum body)))
         | Crc \<Rightarrow> crc16_ccitt body)"

definition frame :: "checksum \<Rightarrow> u16 \<Rightarrow> u8 list \<Rightarrow> u8 list" where
  "frame ck cmd data = FLAG # escape (message_body cmd data (message_sum ck cmd data)) @ [FLAG]"

lemma build_message_frame:
  "length data \<le> 65535 \<Longrightarrow> build_message cmd data ck = Ok (frame ck cmd data)"
  by (cases ck)
    (simp_all add: build_message_def compute_def sprd_sum_ok frame_def message_sum_def message_body_def
      Let_def)

lemma parse_message_body:
  assumes "length data < 65536"
  shows "parse_message (message_body cmd data c) = Ok (cmd, data)"
proof -
  have size: "unat (word_of_nat (length data) :: u16) = length data"
    using assms by (rule unat_of_nat_u16)
  show ?thesis
    by (simp add: parse_message_def message_body_def to_be16_def size Let_def)
qed

lemma parse_message_never_panics: "parse_message body \<noteq> Panic"
  by (simp add: parse_message_def Let_def)

lemma detect_message_sum:
  assumes "length data \<le> 65535"
  shows "\<exists>k \<in> {Sprd, ck}.
    detect_checksum (message_body cmd data (message_sum ck cmd data)) = Ok (Some k)"
proof -
  define c where "c = message_sum ck cmd data"
  define body where "body = to_be16 cmd @ to_be16 (word_of_nat (length data)) @ data"
  have len: "length body = length data + 4" by (simp add: body_def)
  have whole: "message_body cmd data c = body @ to_be16 c" by (simp add: message_body_def body_def)
  have c: "from_be16 (to_be16 c ! 0) (to_be16 c ! Suc 0) = c" by (simp add: to_be16_def)
  define s where "s = swap16 (word_of_nat (65535 - carry_fold (word_sum body)))"
  have detect: "detect_checksum (body @ to_be16 c) =
      Ok (if s = c then Some Sprd else if crc16_ccitt body = c then Some Crc else None)"
    using assms by (simp add: detect_checksum_def Let_def len c sprd_sum_ok s_def)
  have "c = (case ck of Sprd \<Rightarrow> s | Crc \<Rightarrow> crc16_ccitt body)"
    by (cases ck) (simp_all add: c_def message_sum_def s_def body_def Let_def)
  with detect show ?thesis unfolding c_def [symmetric] whole by (cases ck) (auto split: if_splits)
qed

text \<open>The parser takes as many bytes as the size field names, whatever the checksum.\<close>

lemma parse_any_message_body:
  "parse_message (message_body cmd data c) = Ok (cmd, take (length data mod 65536) data)"
proof -
  have "unat (word_of_nat (length data) :: u16) = length data mod 65536" by (simp add: unat_of_nat)
  then show ?thesis by (simp add: parse_message_def message_body_def to_be16_def Let_def)
qed

end
