(* ===== verification/Transport.thy ===== *)
theory Transport
  imports Rust_Text
begin

text \<open>
  The byte-stream interface of \<open>crates/sprdflash-transport/src/serial.rs\<close>: the trait
  \<open>Transport\<close> as a record of actions over a world \<open>'w\<close>, the deadline-driven reader \<open>read_until\<close>
  and the errors. The wire itself (\<open>serialport\<close>, the driver, the clock) is a parameter: \<open>now\<close> is
  the \<open>Instant\<close> clock in milliseconds, read off the world. The two locales are the contracts the
  code relies on: a reader whose answer does not change when bytes are appended (the frame
  parsers), and a wire on which every read makes progress towards the deadline.
\<close>

section \<open>The interface\<close>

datatype transport_error =
    TransportOpen rust_string rust_string
  | TransportIo rust_string
  | TransportControl rust_string
  | TransportTimeout nat

record 'w transport =
  write_all :: "u8 list \<Rightarrow> (unit, transport_error, 'w) io"
  read_some :: "nat \<Rightarrow> (u8 list, transport_error, 'w) io"
  set_baud :: "u32 \<Rightarrow> (unit, transport_error, 'w) io"
  purge_input :: "'w \<Rightarrow> 'w"
  reset_teardown :: "nat \<Rightarrow> 'w \<Rightarrow> 'w"
  now :: "'w \<Rightarrow> nat"

definition READ_BUF :: nat where
  "READ_BUF = 4096"

section \<open>The deadline reader\<close>

text \<open>The \<open>while\<close> loop of \<open>read_until\<close>: \<open>None\<close> when the deadline is never reached and the
  predicate never satisfied.\<close>

partial_function (option) read_until_loop ::
    "'w transport \<Rightarrow> (u8 list \<Rightarrow> 'r option) \<Rightarrow> nat \<Rightarrow> nat \<Rightarrow> u8 list \<Rightarrow> 'w \<Rightarrow>
       (('r, transport_error) result \<times> 'w) option"
where
  "read_until_loop T pred deadline start acc w =
     (if now T w < deadline
      then Option.bind (read_some T READ_BUF w) (\<lambda>(r, w').
             case r of
               Err e \<Rightarrow> Some (Err e, w')
             | Panic \<Rightarrow> Some (Panic, w')
             | Ok bytes \<Rightarrow>
                 (if bytes \<noteq> []
                  then (case pred (acc @ bytes) of
                          Some v \<Rightarrow> Some (Ok v, w')
                        | None \<Rightarrow> read_until_loop T pred deadline start (acc @ bytes) w')
                  else read_until_loop T pred deadline start acc w'))
      else Some (Err (TransportTimeout (now T w - start)), w))"

definition read_until ::
    "'w transport \<Rightarrow> (u8 list \<Rightarrow> 'r option) \<Rightarrow> u8 list \<Rightarrow> nat \<Rightarrow> ('r, transport_error, 'w) io"
where
  "read_until T pred acc deadline w =
     (case pred acc of
        Some v \<Rightarrow> Some (Ok v, w)
      | None \<Rightarrow> read_until_loop T pred deadline (now T w) acc w)"

section \<open>Parsers of a byte stream\<close>

text \<open>
  \<open>feed pred acc frags\<close>: what a reader that asks \<open>pred\<close> after every non-empty read answers when
  the reads return \<open>frags\<close>.
\<close>

fun feed :: "(u8 list \<Rightarrow> 'r option) \<Rightarrow> u8 list \<Rightarrow> u8 list list \<Rightarrow> 'r option" where
  "feed pred acc [] = None"
| "feed pred acc (f # fs) =
     (if f = [] then feed pred acc fs
      else (case pred (acc @ f) of Some v \<Rightarrow> Some v | None \<Rightarrow> feed pred (acc @ f) fs))"

locale stream_parser =
  fixes pred :: "u8 list \<Rightarrow> 'r option"
  assumes stable: "pred buf = Some v \<Longrightarrow> pred (buf @ tail) = Some v"
begin

lemma feed_any_fragmentation:
  "pred acc = None \<Longrightarrow> pred (acc @ concat frags) = Some v \<Longrightarrow> feed pred acc frags = Some v"
proof (induction frags arbitrary: acc)
  case (Cons f fs)
  show ?case
  proof (cases "pred (acc @ f)")
    case None
    with Cons show ?thesis by auto
  next
    case (Some u)
    with stable [OF Some, of "concat fs"] Cons.prems show ?thesis by auto
  qed
qed simp

lemma early_answer_agrees:
  "pred buf = Some v \<Longrightarrow> pred (buf @ tail) = Some u \<Longrightarrow> u = v"
  using stable [of buf v tail] by simp

end

section \<open>Reading over a wire that delivers given fragments\<close>

text \<open>\<open>delivers T d w frags\<close>: from \<open>w\<close>, successive reads before the deadline \<open>d\<close> return \<open>frags\<close>.\<close>

fun delivers :: "'w transport \<Rightarrow> nat \<Rightarrow> 'w \<Rightarrow> u8 list list \<Rightarrow> bool" where
  "delivers T d w [] \<longleftrightarrow> True"
| "delivers T d w (f # fs) \<longleftrightarrow>
     now T w < d \<and>
     (case read_some T READ_BUF w of
        Some (Ok bytes, w') \<Rightarrow> bytes = f \<and> delivers T d w' fs
      | _ \<Rightarrow> False)"

lemma read_until_loop_feed:
  "delivers T d w frags \<Longrightarrow> feed pred acc frags = Some v \<Longrightarrow>
     \<exists>w'. read_until_loop T pred d start acc w = Some (Ok v, w')"
proof (induction frags arbitrary: acc w)
  case Nil
  then show ?case by simp
next
  case (Cons f fs)
  from Cons.prems(1) obtain w' where
    r: "read_some T READ_BUF w = Some (Ok f, w')" and d: "now T w < d" and w': "delivers T d w' fs"
    by (auto split: option.splits prod.splits result.splits)
  show ?case
  proof (cases "f = [] \<or> pred (acc @ f) = None")
    case True
    with Cons.prems(2) have "feed pred (acc @ f) fs = Some v" by (cases "f = []") auto
    from Cons.IH [OF w' this] True d r show ?thesis
      by (auto simp: read_until_loop.simps [of T pred d start acc w])
  next
    case False
    with Cons.prems(2) d r show ?thesis
      by (auto simp: read_until_loop.simps [of T pred d start acc w] split: option.splits)
  qed
qed

context stream_parser
begin

lemma read_until_any_fragmentation:
  assumes "delivers T d w frags" and "pred acc = None" and "pred (acc @ concat frags) = Some v"
  shows "\<exists>w'. read_until T pred acc d w = Some (Ok v, w')"
  using read_until_loop_feed [OF assms(1) feed_any_fragmentation [OF assms(2,3)]] assms(2)
  by (simp add: read_until_def)

end

section \<open>A wire on which reads make progress\<close>

text \<open>
  The calls return, the clock never goes back, and a read either lets time pass or uses up some of
  the finitely many bytes that are \<open>pending\<close>. A write may make the device send more.
\<close>

locale live_transport =
  fixes T :: "'w transport" and live :: "'w \<Rightarrow> bool" and pending :: "'w \<Rightarrow> nat"
  assumes read_returns: "live w \<Longrightarrow> \<exists>r w'. read_some T n w = Some (r, w') \<and> live w'"
    and read_progress: "live w \<Longrightarrow> read_some T n w = Some (Ok bytes, w') \<Longrightarrow>
      now T w < now T w' \<or> now T w' = now T w \<and> pending w' < pending w"
    and write_returns: "live w \<Longrightarrow> \<exists>r w'. write_all T data w = Some (r, w') \<and> live w' \<and> now T w \<le> now T w'"
    and baud_returns: "live w \<Longrightarrow> \<exists>r w'. set_baud T baud w = Some (r, w') \<and> live w'"
    and purge_live: "live w \<Longrightarrow> live (purge_input T w)"
    and teardown_live: "live w \<Longrightarrow> live (reset_teardown T hold w)"
begin

text \<open>What is left before the deadline \<open>d\<close>: time first, then the bytes on their way.\<close>

definition left_before :: "nat \<Rightarrow> ('w \<times> 'w) set" where
  "left_before d = measures [\<lambda>w. d - now T w, pending]"

lemma wf_left_before: "wf (left_before d)"
  by (simp add: left_before_def)

lemma read_uses_up:
  "live w \<Longrightarrow> now T w < d \<Longrightarrow> read_some T n w = Some (Ok bytes, w') \<Longrightarrow> (w', w) \<in> left_before d"
  using read_progress [of w n bytes w'] by (auto simp: left_before_def)

lemma read_until_loop_returns:
  "live w \<Longrightarrow> \<exists>r w'. read_until_loop T pred d start acc w = Some (r, w') \<and> live w'"
proof (induction w arbitrary: acc rule: wf_induct_rule [OF wf_left_before [of d]])
  case (1 w)
  show ?case
  proof (cases "now T w < d")
    case False
    with 1 show ?thesis by (simp add: read_until_loop.simps [of T pred d start acc w])
  next
    case True
    obtain r w' where r: "read_some T READ_BUF w = Some (r, w')" "live w'"
      using read_returns [OF 1(2)] by blast
    show ?thesis
    proof (cases r)
      case (Ok bytes)
      with r have "(w', w) \<in> left_before d" using read_uses_up [OF 1(2) True] by simp
      from 1(1) [OF this r(2)] True r Ok show ?thesis
        by (auto simp: read_until_loop.simps [of T pred d start acc w] split: option.splits)
    qed (use True r in \<open>simp_all add: read_until_loop.simps [of T pred d start acc w]\<close>)
  qed
qed

lemma total_read_until: "io_total live (read_until T pred acc d)"
  using read_until_loop_returns [of _ pred d _ acc]
  by (auto simp: io_total_def read_until_def split: option.splits)

lemma total_write: "io_total live (write_all T data)"
  using write_returns by (fastforce simp: io_total_def)

lemma total_baud: "io_total live (set_baud T baud)"
  using baud_returns by (simp add: io_total_def)

lemma total_world: "io_total live (io_modify (purge_input T))" "io_total live (io_modify (reset_teardown T hold))"
  by (simp_all add: io_total_def purge_live teardown_live)

end

end
