(* ===== verification/Bsl_Io.thy ===== *)
theory Bsl_Io
  imports Bsl Transport
begin

text \<open>
  The BSL link over a transport, \<open>crates/sprdflash-flash/src/bsl_io.rs\<close>: one definition per method
  of \<open>BslIo\<close>. The struct's \<open>port\<close> is the transport argument and the world; the record keeps the
  checksum and the timeout. Progress callbacks only report and have no effect on the link, so
  they are not in the model.
\<close>

section \<open>Errors\<close>

datatype bsl_error =
    BslTransport transport_error
  | BslFrame core_error
  | BslUnexpected string string string

definition is_timeout :: "bsl_error \<Rightarrow> bool" where
  "is_timeout e = (case e of BslTransport (TransportTimeout _) \<Rightarrow> True | _ \<Rightarrow> False)"

record bsl_io =
  io_checksum :: checksum
  io_timeout :: nat

definition bsl_io_new :: "nat \<Rightarrow> bsl_io" where
  "bsl_io_new timeout = \<lparr>io_checksum = Sprd, io_timeout = timeout\<rparr>"

section \<open>Frames out of a byte stream\<close>

text \<open>The \<open>while\<close> loop that skips a run of flags.\<close>

function skip_flags :: "u8 list \<Rightarrow> nat \<Rightarrow> nat" where
  "skip_flags buf i = (if i < length buf \<and> buf ! i = FLAG then skip_flags buf (i + 1) else i)"
  by pat_completeness auto
termination
  by (relation "measure (\<lambda>(buf, i). length buf - i)") auto

declare skip_flags.simps [simp del]

definition find_frame_body :: "u8 list \<Rightarrow> u8 list option" where
  "find_frame_body buf =
     (case position (\<lambda>b. b = FLAG) buf of
        None \<Rightarrow> None
      | Some first \<Rightarrow>
          (let i = skip_flags buf first
           in if length buf \<le> i then None
              else (case position (\<lambda>b. b = FLAG) (drop i buf) of
                      None \<Rightarrow> None
                    | Some rel \<Rightarrow> Some (unescape (take rel (drop i buf))))))"

section \<open>Commands\<close>

definition bsl_send :: "'w transport \<Rightarrow> bsl_io \<Rightarrow> u16 \<Rightarrow> u8 list \<Rightarrow> (unit, bsl_error, 'w) io" where
  "bsl_send T io cmd data =
     io_bind (io_lift (build_message cmd data (io_checksum io))) (\<lambda>msg.
       io_map_err BslTransport (write_all T msg))"

definition recv :: "'w transport \<Rightarrow> nat \<Rightarrow> (u16 \<times> u8 list, bsl_error, 'w) io" where
  "recv T timeout w =
     (let deadline = now T w + timeout
      in io_bind (io_map_err BslTransport (read_until T find_frame_body [] deadline)) (\<lambda>body.
           io_lift (map_err BslFrame (parse_message body))) w)"

definition command ::
    "'w transport \<Rightarrow> bsl_io \<Rightarrow> u16 \<Rightarrow> u8 list \<Rightarrow> u16 \<Rightarrow> nat \<Rightarrow> string \<Rightarrow> (u8 list, bsl_error, 'w) io" where
  "command T io cmd data expect timeout what =
     io_bind (bsl_send T io cmd data) (\<lambda>_.
     io_bind (recv T timeout) (\<lambda>(t, d).
       if t \<noteq> expect then io_fail (BslUnexpected what (rep_name expect) (rep_name t))
       else io_return d))"

definition bsl_connect :: "'w transport \<Rightarrow> bsl_io \<Rightarrow> (unit, bsl_error, 'w) io" where
  "bsl_connect T io =
     io_bind (command T io CMD_CONNECT [] REP_ACK (io_timeout io) ''CONNECT'') (\<lambda>_. io_return ())"

text \<open>The \<open>for\<close> loop over the chunks of an image; \<open>what\<close> names the command in an error.\<close>

fun send_pieces :: "'w transport \<Rightarrow> bsl_io \<Rightarrow> nat \<Rightarrow> string \<Rightarrow> u8 list list \<Rightarrow> (unit, bsl_error, 'w) io" where
  "send_pieces T io timeout what [] = io_return ()"
| "send_pieces T io timeout what (piece # pieces) =
     io_bind (command T io CMD_MIDST_DATA piece REP_ACK timeout what) (\<lambda>_.
       send_pieces T io timeout what pieces)"

definition send_stage :: "'w transport \<Rightarrow> bsl_io \<Rightarrow> u32 \<Rightarrow> u8 list \<Rightarrow> nat \<Rightarrow> (unit, bsl_error, 'w) io" where
  "send_stage T io addr data chunk =
     io_bind (command T io CMD_START_DATA (to_be32 addr @ to_be32 (word_of_nat (length data))) REP_ACK
                (io_timeout io) ''START_DATA'') (\<lambda>_.
     io_bind (send_pieces T io (io_timeout io) ''MIDST_DATA'' (chunks (max chunk 1) data)) (\<lambda>_.
     io_bind (command T io CMD_END_DATA [] REP_ACK (io_timeout io) ''END_DATA'') (\<lambda>_.
       io_return ())))"

definition read_request :: "u32 \<Rightarrow> nat \<Rightarrow> nat \<Rightarrow> u8 list" where
  "read_request addr off n =
     to_be32 (addr + word_of_nat off) @ to_be32 (word_of_nat n) @ to_be32 0"

function read_flash_loop ::
    "'w transport \<Rightarrow> bsl_io \<Rightarrow> u32 \<Rightarrow> nat \<Rightarrow> nat \<Rightarrow> u8 list \<Rightarrow> 'w \<Rightarrow> ((u8 list, bsl_error) result \<times> 'w) option"
where
  "read_flash_loop T io addr want chunk out w =
     (if length out < want
      then
        (let off = length out; n = min (want - off) (max chunk 1)
         in io_bind (command T io CMD_READ_FLASH (read_request addr off n) REP_READ_FLASH
                       (io_timeout io) ''READ_FLASH'')
              (\<lambda>data w'. if data = [] then Some (Ok out, w')
                         else read_flash_loop T io addr want chunk (out @ data) w') w)
      else Some (Ok out, w))"
  by pat_completeness auto
termination
  by (relation "measure (\<lambda>(T, io, addr, want, chunk, out, w). want - length out)")
    (auto simp flip: length_greater_0_conv)

declare read_flash_loop.simps [simp del]

definition read_flash ::
    "'w transport \<Rightarrow> bsl_io \<Rightarrow> u32 \<Rightarrow> nat \<Rightarrow> nat \<Rightarrow> (u8 list, bsl_error, 'w) io" where
  "read_flash T io addr want chunk = read_flash_loop T io addr want chunk []"

section \<open>The frame reader\<close>

lemma skip_flags_bounds: "i \<le> length buf \<Longrightarrow> i \<le> skip_flags buf i \<and> skip_flags buf i \<le> length buf"
proof (induction buf i rule: skip_flags.induct)
  case (1 buf i)
  then show ?case by (auto simp: skip_flags.simps [of buf i])
qed

text \<open>Skipping the run of flags leaves what \<open>dropWhile\<close> leaves.\<close>

lemma drop_skip_flags: "drop (skip_flags buf i) buf = dropWhile (\<lambda>b. b = FLAG) (drop i buf)"
proof (induction buf i rule: skip_flags.induct)
  case (1 buf i)
  show ?case
  proof (cases "i < length buf")
    case True
    then have "drop i buf = buf ! i # drop (Suc i) buf" by (rule Cons_nth_drop_Suc [symmetric])
    with True 1 show ?thesis by (simp add: skip_flags.simps [of buf i])
  qed (simp add: skip_flags.simps [of buf i])
qed

text \<open>What follows the first run of flags.\<close>

definition after_flags :: "u8 list \<Rightarrow> u8 list" where
  "after_flags buf = dropWhile (\<lambda>b. b = FLAG) (dropWhile (\<lambda>b. b \<noteq> FLAG) buf)"

lemma find_frame_body_eq:
  "find_frame_body buf =
     map_option (\<lambda>rel. unescape (take rel (after_flags buf))) (position (\<lambda>b. b = FLAG) (after_flags buf))"
proof (cases "position (\<lambda>b. b = FLAG) buf")
  case None
  then show ?thesis by (simp add: find_frame_body_def after_flags_def position_dropWhile(2))
next
  case (Some first)
  then have rest: "drop (skip_flags buf first) buf = after_flags buf"
    by (simp add: drop_skip_flags after_flags_def position_dropWhile(1))
  show ?thesis
  proof (cases "length buf \<le> skip_flags buf first")
    case True
    with rest have "after_flags buf = []" by simp
    with True Some show ?thesis by (simp add: find_frame_body_def)
  next
    case False
    with Some rest show ?thesis
      by (simp add: find_frame_body_def Let_def split: option.splits)
  qed
qed

lemma dropWhile_append_ne: "dropWhile P xs \<noteq> [] \<Longrightarrow> dropWhile P (xs @ ys) = dropWhile P xs @ ys"
  by (induction xs) auto

lemma find_frame_body_stable:
  assumes "find_frame_body buf = Some body"
  shows "find_frame_body (buf @ tail) = Some body"
proof -
  from assms obtain rel where rel: "position (\<lambda>b. b = FLAG) (after_flags buf) = Some rel"
    and body: "body = unescape (take rel (after_flags buf))"
    by (auto simp: find_frame_body_eq)
  then have "after_flags buf \<noteq> []" by auto
  then have "after_flags (buf @ tail) = after_flags buf @ tail"
    unfolding after_flags_def by (metis dropWhile.simps(1) dropWhile_append_ne)
  with position_stable [OF rel] position_Some_length [OF rel] body show ?thesis
    by (simp add: find_frame_body_eq)
qed

text \<open>On a buffer that holds a framed message behind noise and a run of flags.\<close>

lemma after_flags_message:
  assumes "FLAG \<notin> set noise" and "body \<noteq> []"
  shows "after_flags (noise @ FLAG # replicate k FLAG @ escape body @ rest) = escape body @ rest"
proof -
  obtain e es where e: "escape body = e # es" using assms(2) by (cases "escape body") auto
  with escape_no_flag [of body] have "e \<noteq> FLAG" by auto
  have "dropWhile (\<lambda>b. b \<noteq> FLAG) (noise @ FLAG # xs) = FLAG # xs" for xs
    using assms(1) by (induction noise) auto
  moreover have "dropWhile (\<lambda>b. b = FLAG) (replicate n FLAG @ e # xs) = e # xs" for n xs
    using \<open>e \<noteq> FLAG\<close> by (induction n) auto
  ultimately show ?thesis by (simp add: after_flags_def e)
qed

lemma find_frame_body_message:
  assumes "FLAG \<notin> set noise" and "body \<noteq> []"
  shows "find_frame_body (noise @ FLAG # replicate k FLAG @ escape body @ FLAG # rest) = Some body"
  using after_flags_message [OF assms, of k "FLAG # rest"] position_append_hit [of "escape body"]
  by (simp add: find_frame_body_eq)

lemma dropWhile_take: "dropWhile P (take n xs) = take (n - length (takeWhile P xs)) (dropWhile P xs)"
  by (induction xs arbitrary: n) (auto simp: take_Cons')

lemma find_frame_body_prefix:
  assumes "FLAG \<notin> set noise" and "body \<noteq> []"
    and n: "n < length noise + Suc k + length (escape body) + 1"
  shows "find_frame_body (take n (noise @ FLAG # replicate k FLAG @ escape body @ [FLAG])) = None"
proof -
  define buf where "buf = noise @ FLAG # replicate k FLAG @ escape body"
  have "noise @ FLAG # replicate k FLAG @ escape body @ [FLAG] = buf @ [FLAG]" "n \<le> length buf"
    using n by (simp_all add: buf_def)
  then have "take n (noise @ FLAG # replicate k FLAG @ escape body @ [FLAG]) = take n buf"
    by (simp only: take_append diff_is_0_eq' take_0 append_Nil2)
  moreover have "FLAG \<notin> set (after_flags (take n buf))"
  proof -
    have "after_flags buf = escape body"
      using after_flags_message [OF assms(1,2), of k "[]"] by (simp add: buf_def)
    then have "\<exists>m. after_flags (take n buf) = take m (escape body)"
      unfolding after_flags_def by (metis dropWhile_take)
    with escape_no_flag [of body] show ?thesis by (metis in_set_takeD)
  qed
  then have "position (\<lambda>b. b = FLAG) (after_flags (take n buf)) = None"
    by (intro position_none) auto
  ultimately show ?thesis by (simp add: find_frame_body_eq)
qed

interpretation frame_body: stream_parser find_frame_body
  by unfold_locales (rule find_frame_body_stable)

section \<open>Receiving\<close>

lemma frame_flags:
  "noise @ replicate k FLAG @ frame ck cmd data @ rest =
     noise @ FLAG # replicate k FLAG @ escape (message_body cmd data (message_sum ck cmd data)) @ FLAG # rest"
  by (simp add: frame_def replicate_app_Cons_same)

lemma recv_body:
  assumes "delivers T (now T w + timeout) w frags" and "find_frame_body (concat frags) = Some body"
  shows "\<exists>w'. recv T timeout w = Some (map_err BslFrame (parse_message body), w')"
proof -
  have "find_frame_body [] = None" by (simp add: find_frame_body_def)
  with frame_body.read_until_any_fragmentation [OF assms(1), of "[]" body] assms(2)
  obtain w' where "read_until T find_frame_body [] (now T w + timeout) w = Some (Ok body, w')" by auto
  then show ?thesis by (simp add: recv_def io_bind_def io_map_err_def)
qed

text \<open>A wire that replays a script of fragments, one per read and millisecond.\<close>

definition script_transport :: "(u8 list list \<times> nat) transport" where
  "script_transport =
     \<lparr>write_all = (\<lambda>_. io_return ()),
      read_some = (\<lambda>_ (fs, t). case fs of [] \<Rightarrow> Some (Ok [], ([], t + 1)) | f # fs' \<Rightarrow> Some (Ok f, (fs', t + 1))),
      set_baud = (\<lambda>_. io_return ()), purge_input = (\<lambda>w. w), reset_teardown = (\<lambda>_ w. w), now = snd\<rparr>"

lemma script_delivers: "t + length frags \<le> d \<Longrightarrow> delivers script_transport d (frags, t) frags"
  by (induction frags arbitrary: t) (auto simp: script_transport_def)

section \<open>Every call returns on a live wire\<close>

context live_transport
begin

lemma total_bsl_send: "io_total live (bsl_send T io cmd data)"
  unfolding bsl_send_def by (intro io_total_bind io_total_map_err total_write io_total_basic)

lemma total_recv: "io_total live (recv T timeout)"
proof -
  have "io_total live (io_bind (io_map_err BslTransport (read_until T find_frame_body [] d))
      (\<lambda>body. io_lift (map_err BslFrame (parse_message body))))" for d
    by (intro io_total_bind io_total_map_err total_read_until io_total_basic)
  then show ?thesis unfolding io_total_def recv_def Let_def by blast
qed

lemma total_command: "io_total live (command T io cmd data expect timeout what)"
  unfolding command_def
  by (intro io_total_bind total_bsl_send total_recv) (auto split: prod.splits)

lemma total_bsl_connect: "io_total live (bsl_connect T io)"
  unfolding bsl_connect_def by (intro io_total_bind total_command io_total_basic)

lemma total_send_pieces: "io_total live (send_pieces T io timeout what ps)"
  by (induction ps) (auto intro!: io_total_bind total_command simp del: io_basic_simps)

lemma total_send_stage: "io_total live (send_stage T io addr data chunk)"
  unfolding send_stage_def
  by (intro io_total_bind total_command total_send_pieces io_total_basic)

lemma read_flash_loop_returns:
  "live w \<Longrightarrow> \<exists>r w'. read_flash_loop T io addr want chunk out w = Some (r, w') \<and> live w'"
proof (induction "want - length out" arbitrary: out w rule: less_induct)
  case less
  show ?case
  proof (cases "length out < want")
    case True
    define m where "m = command T io CMD_READ_FLASH
      (read_request addr (length out) (min (want - length out) (max chunk 1))) REP_READ_FLASH
      (io_timeout io) ''READ_FLASH''"
    obtain r w' where r: "m w = Some (r, w')" "live w'"
      using io_totalD [OF total_command less.prems] unfolding m_def by blast
    have step: "read_flash_loop T io addr want chunk out w =
        io_bind m (\<lambda>data w'. if data = [] then Some (Ok out, w')
          else read_flash_loop T io addr want chunk (out @ data) w') w"
      using True by (simp add: read_flash_loop.simps [of T io addr want chunk out w] m_def Let_def)
    show ?thesis
    proof (cases r)
      case (Ok data)
      have "want - length (out @ data) < want - length out" if "data \<noteq> []"
        using that True by (cases data) auto
      from less.hyps [OF this r(2)] show ?thesis
        using r Ok by (cases "data = []") (simp_all add: step)
    qed (use r in \<open>simp_all add: step\<close>)
  qed (use less.prems in \<open>simp add: read_flash_loop.simps [of T io addr want chunk out w]\<close>)
qed

lemma total_read_flash: "io_total live (read_flash T io addr want chunk)"
  using read_flash_loop_returns by (simp add: io_total_def read_flash_def)

end

section \<open>Properties\<close>

text \<open>C9: however the wire cuts the byte stream into reads, and whatever noise and run of
  flags precede it, \<open>recv\<close> returns the type and data of the first message, provided its bytes
  arrive before the deadline.\<close>

theorem recv_any_fragmentation:
  assumes "length data < 65536" and "FLAG \<notin> set noise"
    and "delivers T (now T w + timeout) w frags"
    and "concat frags = noise @ replicate k FLAG @ frame ck cmd data @ rest"
  shows "\<exists>w'. recv T timeout w = Some (Ok (cmd, data), w')"
proof -
  have "message_body cmd data c \<noteq> []" for c by (simp add: message_body_def to_be16_def)
  from find_frame_body_message [OF assms(2) this]
  have "find_frame_body (concat frags) = Some (message_body cmd data (message_sum ck cmd data))"
    by (simp only: assms(4) frame_flags)
  from recv_body [OF assms(3) this] show ?thesis by (simp add: parse_message_body [OF assms(1)])
qed

theorem recv_any_fragmentation_witness:
  "\<exists>w'. recv script_transport 5
     (map (\<lambda>b. [b]) [0x55, FLAG] @ [frame Sprd REP_ACK []], 0) = Some (Ok (REP_ACK, []), w')"
proof (rule recv_any_fragmentation [where noise = "[0x55]" and k = 1 and ck = Sprd and rest = "[]"])
  show "delivers script_transport
      (now script_transport (map (\<lambda>b. [b]) [0x55, FLAG] @ [frame Sprd REP_ACK []], 0) + 5)
      (map (\<lambda>b. [b]) [0x55, FLAG] @ [frame Sprd REP_ACK []], 0)
      (map (\<lambda>b. [b]) [0x55, FLAG] @ [frame Sprd REP_ACK []])"
    by (rule script_delivers) (simp add: script_transport_def)
qed (simp_all add: FLAG_def)

text \<open>C29: a message of up to 65535 data bytes survives the trip: building never
  fails, the receiver finds exactly its body, decodes the same type and data, and recognises the
  Spreadtrum sum; no proper prefix of the wire bytes yields a body.\<close>

theorem message_round_trip:
  assumes "length data \<le> 65535" and "FLAG \<notin> set noise"
  shows "\<exists>msg body. build_message cmd data ck = Ok msg \<and>
    find_frame_body (noise @ msg @ rest) = Some body \<and>
    parse_message body = Ok (cmd, data) \<and>
    (\<exists>k \<in> {Sprd, ck}. detect_checksum body = Ok (Some k)) \<and>
    (\<forall>n < length (noise @ msg). find_frame_body (take n (noise @ msg)) = None)"
proof -
  define c where "c = message_sum ck cmd data"
  define body where "body = message_body cmd data c"
  have ne: "body \<noteq> []" by (simp add: body_def message_body_def to_be16_def)
  have msg: "build_message cmd data ck = Ok (FLAG # escape body @ [FLAG])"
    using build_message_frame [OF assms(1)] by (simp add: frame_def body_def c_def)
  have "find_frame_body (noise @ (FLAG # escape body @ [FLAG]) @ rest) = Some body"
    using find_frame_body_message [OF assms(2) ne, of 0 rest] by simp
  moreover have "parse_message body = Ok (cmd, data)"
    unfolding body_def using assms(1) by (intro parse_message_body) simp
  moreover have "\<exists>k \<in> {Sprd, ck}. detect_checksum body = Ok (Some k)"
    using assms(1) unfolding body_def c_def by (rule detect_message_sum)
  moreover have "\<forall>n < length (noise @ FLAG # escape body @ [FLAG]).
      find_frame_body (take n (noise @ FLAG # escape body @ [FLAG])) = None"
    using find_frame_body_prefix [OF assms(2) ne, of _ 0] by simp
  ultimately show ?thesis using msg by blast
qed

theorem message_round_trip_witness:
  "\<exists>msg body. build_message CMD_MIDST_DATA [FLAG, ESCAPE, 7] Sprd = Ok msg \<and>
     find_frame_body ([0x55] @ msg @ [FLAG]) = Some body \<and>
     parse_message body = Ok (CMD_MIDST_DATA, [FLAG, ESCAPE, 7])"
  using message_round_trip [of "[FLAG, ESCAPE, 7]" "[0x55]" CMD_MIDST_DATA Sprd "[FLAG]"]
  by (simp add: FLAG_def) blast

text \<open>C40: a message with more data than the 16-bit size field can name (up to 131068 bytes, for which
  the sum of the checksum does not overflow) is built all the same, and the receiver takes only the first \<open>length data mod 65536\<close> bytes of it, without an
  error; and the stored checksum plays no part in what is received.\<close>

theorem oversized_message_is_cut:
  assumes "length data \<le> 131068"
  shows "\<exists>body. build_message cmd data ck = Ok (FLAG # escape body @ [FLAG]) \<and>
    parse_message body = Ok (cmd, take (length data mod 65536) data) \<and>
    (\<forall>c. parse_message (take (length body - 2) body @ to_be16 c) = parse_message body)"
proof -
  obtain c where "compute ck (to_be16 cmd @ to_be16 (word_of_nat (length data)) @ data)
      = (Ok c :: (u16, 'a) result)"
    using compute_ok [of "to_be16 cmd @ to_be16 (word_of_nat (length data)) @ data" ck] assms by auto
  then have "build_message cmd data ck = (Ok (FLAG # escape (message_body cmd data c) @ [FLAG]) ::
      (u8 list, 'a) result)"
    by (simp add: build_message_def message_body_def)
  moreover have "take (length (message_body cmd data c) - 2) (message_body cmd data c) @ to_be16 c'
      = message_body cmd data c'" for c'
    by (simp add: message_body_def)
  ultimately show ?thesis by (metis parse_any_message_body)
qed

theorem oversized_message_is_cut_witness:
  "\<exists>body. build_message CMD_MIDST_DATA (replicate 70000 1) Sprd = Ok (FLAG # escape body @ [FLAG]) \<and>
     parse_message body = Ok (CMD_MIDST_DATA, take 4464 (replicate 70000 1))"
proof -
  have "length (replicate 70000 (1 :: u8)) = 70000" by (rule length_replicate)
  with oversized_message_is_cut [of "replicate 70000 1" CMD_MIDST_DATA Sprd] show ?thesis
    by (simp del: take_replicate) blast
qed

end
