(* ===== verification/Pdl.thy ===== *)
theory Pdl
  imports Bytes
begin

text \<open>
  The first-stage PDL link layer of \<open>crates/sprdflash-core/src/pdl.rs\<close>: the 8-byte header,
  command payloads and the response decoder. The lemmas show that the decoder finds a response
  behind leading garbage, waits on every incomplete one and never changes its mind when more
  bytes arrive.
\<close>

definition PDL_MAGIC :: u8 where "PDL_MAGIC = 0xAE"
definition PDL_HEADER_LEN :: nat where "PDL_HEADER_LEN = 8"
definition PDL_CHUNK :: nat where "PDL_CHUNK = 2048"

datatype pdl_cmd = PdlConnect | PdlStartData | PdlMidstData | PdlEndData | PdlExec

fun pdl_code :: "pdl_cmd \<Rightarrow> u32" where
  "pdl_code PdlConnect = 0"
| "pdl_code PdlStartData = 4"
| "pdl_code PdlMidstData = 5"
| "pdl_code PdlEndData = 6"
| "pdl_code PdlExec = 7"

definition pdl_header :: "u16 \<Rightarrow> u8 list" where
  "pdl_header payload_len = [PDL_MAGIC] @ to_le16 payload_len @ [0x00, 0x00, 0xFF, 0x00, 0x00]"

definition params :: "pdl_cmd \<Rightarrow> u32 \<Rightarrow> u32 \<Rightarrow> u8 list \<Rightarrow> u8 list" where
  "params cmd arg1 arg2 extra = to_le32 (pdl_code cmd) @ to_le32 arg1 @ to_le32 arg2 @ extra"

record response =
  resp_status :: u32
  resp_payload :: "u8 list"

definition try_parse_response :: "u8 list \<Rightarrow> response option" where
  "try_parse_response buf0 =
     (case position (\<lambda>b. b = PDL_MAGIC) buf0 of
        None \<Rightarrow> None
      | Some start \<Rightarrow>
          (let buf = drop start buf0
           in if length buf < PDL_HEADER_LEN then None
              else
                (let rlen = unat (from_le16 (buf ! 1) (buf ! 2)); fin = PDL_HEADER_LEN + rlen
                 in if length buf < fin then None
                    else
                      (let payload = take (fin - PDL_HEADER_LEN) (drop PDL_HEADER_LEN buf);
                           status = (if 4 \<le> length payload
                                     then from_le32 (payload ! 0) (payload ! 1) (payload ! 2) (payload ! 3)
                                     else 0)
                       in Some \<lparr>resp_status = status, resp_payload = payload\<rparr>))))"

lemma length_pdl_header [simp, wire_lengths]: "length (pdl_header n) = 8"
  by (simp add: pdl_header_def)

lemma length_params [simp, wire_lengths]: "length (params c a b extra) = 12 + length extra"
  by (simp add: params_def)

lemma pdl_code_inj: "pdl_code c = pdl_code d \<Longrightarrow> c = d"
  by (cases c; cases d) simp_all

section \<open>The decoder\<close>

lemma try_parse_no_magic [simp]:
  "PDL_MAGIC \<notin> set buf \<Longrightarrow> try_parse_response buf = None"
proof -
  assume "PDL_MAGIC \<notin> set buf"
  then have "position (\<lambda>b. b = PDL_MAGIC) buf = None" by (intro position_none) auto
  then show ?thesis by (simp add: try_parse_response_def)
qed

text \<open>The response a well-formed payload stands for.\<close>

definition response_of :: "u8 list \<Rightarrow> response" where
  "response_of p =
     \<lparr>resp_status = (if 4 \<le> length p then from_le32 (p ! 0) (p ! 1) (p ! 2) (p ! 3) else 0),
      resp_payload = p\<rparr>"

lemma try_parse_at_magic:
  assumes "PDL_MAGIC \<notin> set garbage"
  shows "try_parse_response (garbage @ PDL_MAGIC # rest) =
    (if length rest < 7 then None
     else let rlen = unat (from_le16 (rest ! 0) (rest ! 1))
          in if length rest < 7 + rlen then None
             else Some (response_of (take rlen (drop 7 rest))))"
proof -
  have "position (\<lambda>b. b = PDL_MAGIC) (garbage @ PDL_MAGIC # rest) = Some (length garbage)"
    using assms by (intro position_append_hit) auto
  then show ?thesis
    by (auto simp: try_parse_response_def PDL_HEADER_LEN_def Let_def response_of_def)
qed

lemma split_at_magic:
  "PDL_MAGIC \<notin> set buf \<or> (\<exists>garbage rest. buf = garbage @ PDL_MAGIC # rest \<and> PDL_MAGIC \<notin> set garbage)"
  by (metis split_list_first)

lemma try_parse_stable:
  assumes "try_parse_response buf = Some r"
  shows "try_parse_response (buf @ tail) = Some r"
proof -
  from assms obtain garbage rest where
    buf: "buf = garbage @ PDL_MAGIC # rest" "PDL_MAGIC \<notin> set garbage"
    using split_at_magic [of buf] by auto
  define rlen where "rlen = unat (from_le16 (rest ! 0) (rest ! 1))"
  from assms buf have len: "7 + rlen \<le> length rest"
    and r: "r = response_of (take rlen (drop 7 rest))"
    by (auto simp: try_parse_at_magic rlen_def Let_def split: if_splits)
  from len have "0 < length rest" "1 < length rest" by linarith+
  then have same: "rlen = unat (from_le16 ((rest @ tail) ! 0) ((rest @ tail) ! 1))"
    unfolding rlen_def by (simp only: nth_append if_True)
  have "try_parse_response (garbage @ PDL_MAGIC # (rest @ tail))
      = Some (response_of (take rlen (drop 7 (rest @ tail))))"
    unfolding try_parse_at_magic [OF buf(2)] Let_def same [symmetric] using len by simp
  then show ?thesis using len by (simp add: buf(1) r)
qed

lemma try_parse_frame:
  assumes "PDL_MAGIC \<notin> set garbage" and "length p < 65536"
  shows "try_parse_response (garbage @ pdl_header (word_of_nat (length p)) @ p) = Some (response_of p)"
    and "n < length garbage + 8 + length p \<Longrightarrow>
      try_parse_response (take n (garbage @ pdl_header (word_of_nat (length p)) @ p)) = None"
proof -
  let ?tl = "to_le16 (word_of_nat (length p)) @ [0x00, 0x00, 0xFF, 0x00, 0x00] @ p"
  have whole: "garbage @ pdl_header (word_of_nat (length p)) @ p = garbage @ PDL_MAGIC # ?tl"
    by (simp add: pdl_header_def)
  have rlen: "unat (from_le16 (?tl ! 0) (?tl ! 1)) = length p"
    using assms(2) by (simp add: to_le16_def unat_of_nat_u16)
  show "try_parse_response (garbage @ pdl_header (word_of_nat (length p)) @ p) = Some (response_of p)"
    unfolding whole try_parse_at_magic [OF assms(1)] rlen Let_def by (simp add: to_le16_def)
  assume n: "n < length garbage + 8 + length p"
  show "try_parse_response (take n (garbage @ pdl_header (word_of_nat (length p)) @ p)) = None"
  proof (cases "n \<le> length garbage")
    case True
    with assms(1) have "PDL_MAGIC \<notin> set (take n (garbage @ PDL_MAGIC # ?tl))"
      by (auto dest: in_set_takeD)
    then show ?thesis unfolding whole by (rule try_parse_no_magic)
  next
    case False
    define m where "m = n - Suc (length garbage)"
    have cut: "take n (garbage @ PDL_MAGIC # ?tl) = garbage @ PDL_MAGIC # take m ?tl"
      using False by (simp add: m_def take_Cons' del: append.simps)
    have "try_parse_response (garbage @ PDL_MAGIC # take m ?tl) = None"
    proof (cases "m < 7")
      case True
      then show ?thesis by (simp add: try_parse_at_magic assms(1))
    next
      case m7: False
      have "unat (from_le16 (take m ?tl ! 0) (take m ?tl ! 1)) = length p"
        using m7 rlen by (subst (1 2) nth_take) simp_all
      moreover have "length (take m ?tl) < 7 + length p" using n m_def False by simp
      ultimately show ?thesis by (simp only: try_parse_at_magic [OF assms(1)] Let_def if_True) simp
    qed
    then show ?thesis unfolding whole cut .
  qed
qed

section \<open>Properties\<close>

text \<open>Behind any garbage without the magic byte, a PDL reply decodes to its status and
  payload exactly when its last byte has arrived: every shorter prefix asks for more, and
  bytes that follow do not change the answer.\<close>

lemma pdl_response_incremental:
  assumes "PDL_MAGIC \<notin> set garbage" and "length p < 65536"
  defines "msg \<equiv> garbage @ pdl_header (word_of_nat (length p)) @ p"
  shows "try_parse_response (msg @ tail) = Some (response_of p) \<and>
         (\<forall>n < length msg. try_parse_response (take n msg) = None)"
  using try_parse_stable [OF try_parse_frame(1) [OF assms(1,2)]] try_parse_frame(2) [OF assms(1,2)]
  by (simp add: msg_def)

end
