(* ===== verification/Pdl_Io.thy ===== *)
theory Pdl_Io
  imports Pdl Transport
begin

text \<open>
  The PDL link over a transport, \<open>crates/sprdflash-flash/src/pdl_io.rs\<close>: one definition per
  method of \<open>PdlIo\<close>. The struct's \<open>port\<close> is the transport argument and the world, its timeout an
  argument. The loop that waits for the version banner of FDL1 is a partial function: it returns
  \<open>None\<close> on a wire whose clock never reaches the deadline.
\<close>

datatype pdl_error = PdlTransport transport_error | NoVersion

text \<open>Two writes, header and payload.\<close>

definition pdl_send :: "'w transport \<Rightarrow> u8 list \<Rightarrow> (unit, pdl_error, 'w) io" where
  "pdl_send T p =
     io_bind (io_map_err PdlTransport (write_all T (pdl_header (word_of_nat (length p))))) (\<lambda>_.
       io_map_err PdlTransport (write_all T p))"

definition pdl_command :: "'w transport \<Rightarrow> u8 list \<Rightarrow> nat \<Rightarrow> (response, pdl_error, 'w) io" where
  "pdl_command T p timeout =
     io_bind (pdl_send T p) (\<lambda>_ w.
       let deadline = now T w + timeout
       in io_map_err PdlTransport (read_until T try_parse_response [] deadline) w)"

definition pdl_connect :: "'w transport \<Rightarrow> nat \<Rightarrow> (unit, pdl_error, 'w) io" where
  "pdl_connect T timeout =
     io_bind (pdl_command T (params PdlConnect 0 0 []) timeout) (\<lambda>_. io_return ())"

text \<open>The loop over the numbered chunks.\<close>

fun send_chunks :: "'w transport \<Rightarrow> nat \<Rightarrow> nat \<Rightarrow> u8 list list \<Rightarrow> (unit, pdl_error, 'w) io" where
  "send_chunks T timeout i [] = io_return ()"
| "send_chunks T timeout i (chunk # rest) =
     io_bind (pdl_command T (params PdlMidstData (word_of_nat i) (word_of_nat (length chunk)) chunk) timeout)
       (\<lambda>_. send_chunks T timeout (i + 1) rest)"

definition PDL1_TAG :: "u8 list" where
  "PDL1_TAG = [0x50, 0x44, 0x4C, 0x31, 0x00]"

definition send_image :: "'w transport \<Rightarrow> nat \<Rightarrow> u32 \<Rightarrow> u8 list \<Rightarrow> (unit, pdl_error, 'w) io" where
  "send_image T timeout addr data =
     io_bind (pdl_command T (params PdlStartData addr (word_of_nat (length data)) PDL1_TAG) timeout) (\<lambda>_.
     io_bind (send_chunks T timeout 0 (chunks PDL_CHUNK data)) (\<lambda>_.
     io_bind (pdl_command T (params PdlEndData 0 0 (to_le32 0)) timeout) (\<lambda>_.
       io_return ())))"

definition extract_flag_frame :: "u8 list \<Rightarrow> u8 list option" where
  "extract_flag_frame buf =
     (case position (\<lambda>b. b = 0x7E) buf of
        None \<Rightarrow> None
      | Some first \<Rightarrow>
          (case position (\<lambda>b. b = 0x7E) (drop (first + 1) buf) of
             None \<Rightarrow> None
           | Some fin \<Rightarrow> Some (take (fin + 2) (drop first buf))))"

definition KICK_INTERVAL :: nat where
  "KICK_INTERVAL = 50"

lemma KICK_INTERVAL_pos [simp]: "0 < KICK_INTERVAL"
  by (simp add: KICK_INTERVAL_def)

definition VER_BUF :: nat where
  "VER_BUF = 256"

partial_function (option) ver_loop ::
    "'w transport \<Rightarrow> nat \<Rightarrow> nat \<Rightarrow> u8 list \<Rightarrow> 'w \<Rightarrow> ((u8 list, pdl_error) result \<times> 'w) option"
where
  "ver_loop T deadline next_kick acc w =
     (if deadline \<le> now T w then Some (Err NoVersion, w)
      else
        Option.bind
          (if next_kick \<le> now T w
           then (case write_all T [0x7E] w of
                   None \<Rightarrow> None
                 | Some (Ok _, w') \<Rightarrow> Some (Ok (now T w' + KICK_INTERVAL), w')
                 | Some (Err e, w') \<Rightarrow> Some (Err (PdlTransport e), w')
                 | Some (Panic, w') \<Rightarrow> Some (Panic, w'))
           else Some (Ok next_kick, w))
          (\<lambda>(kick, w1).
             case kick of
               Err e \<Rightarrow> Some (Err e, w1)
             | Panic \<Rightarrow> Some (Panic, w1)
             | Ok next_kick' \<Rightarrow>
                 Option.bind (read_some T VER_BUF w1) (\<lambda>(r, w2).
                   case r of
                     Err e \<Rightarrow> Some (Err (PdlTransport e), w2)
                   | Panic \<Rightarrow> Some (Panic, w2)
                   | Ok bytes \<Rightarrow>
                       (if bytes \<noteq> []
                        then (case extract_flag_frame (acc @ bytes) of
                                Some frame \<Rightarrow> Some (Ok frame, w2)
                              | None \<Rightarrow> ver_loop T deadline next_kick' (acc @ bytes) w2)
                        else ver_loop T deadline next_kick' acc w2))))"

definition exec_and_get_ver :: "'w transport \<Rightarrow> nat \<Rightarrow> (u8 list, pdl_error, 'w) io" where
  "exec_and_get_ver T timeout =
     io_bind (pdl_send T (params PdlExec 0 0 [])) (\<lambda>_ w.
       ver_loop T (now T w + timeout) (now T w) [] w)"

section \<open>The readers\<close>

interpretation pdl_response: stream_parser try_parse_response
  by unfold_locales (rule try_parse_stable)

lemma extract_flag_frame_stable:
  assumes "extract_flag_frame buf = Some f"
  shows "extract_flag_frame (buf @ tail) = Some f"
proof -
  from assms obtain i j where i: "position (\<lambda>b. b = 0x7E) buf = Some i"
    and j: "position (\<lambda>b. b = 0x7E) (drop (i + 1) buf) = Some j"
    and f: "f = take (j + 2) (drop i buf)"
    by (auto simp: extract_flag_frame_def split: option.splits)
  have "j < length (drop (i + 1) buf)" using position_Some_length [OF j] .
  then have "j + 2 \<le> length (drop i buf)" by simp
  moreover from this have "drop (i + 1) (buf @ tail) = drop (i + 1) buf @ tail" "drop i (buf @ tail) = drop i buf @ tail"
    by simp_all
  ultimately show ?thesis
    using position_stable [OF i, of tail] position_stable [OF j, of tail]
    by (simp add: extract_flag_frame_def f)
qed

interpretation flag_frame: stream_parser extract_flag_frame
  by unfold_locales (rule extract_flag_frame_stable)

lemma extract_flag_frame_message:
  assumes "0x7E \<notin> set noise" and "0x7E \<notin> set mid"
  shows "extract_flag_frame (noise @ 0x7E # mid @ 0x7E # rest) = Some (0x7E # mid @ [0x7E])"
proof -
  have "position (\<lambda>b. b = 0x7E) (noise @ 0x7E # mid @ 0x7E # rest) = Some (length noise)"
    using assms(1) by (intro position_append_hit) auto
  moreover have "position (\<lambda>b. b = 0x7E) (mid @ 0x7E # rest) = Some (length mid)"
    using assms(2) by (intro position_append_hit) auto
  ultimately show ?thesis by (simp add: extract_flag_frame_def)
qed

lemma extract_flag_frame_length: "extract_flag_frame buf = Some f \<Longrightarrow> 2 \<le> length f"
  using position_Some_length by (fastforce simp: extract_flag_frame_def split: option.splits)

section \<open>Every call returns on a live wire\<close>

context live_transport
begin

lemma total_pdl_send: "io_total live (pdl_send T p)"
  unfolding pdl_send_def by (intro io_total_bind io_total_map_err total_write)

lemma total_pdl_command: "io_total live (pdl_command T p timeout)"
  unfolding pdl_command_def Let_def
proof (rule io_total_bind [OF total_pdl_send])
  show "io_total live (\<lambda>w. io_map_err PdlTransport (read_until T try_parse_response [] (now T w + timeout)) w)" for x
    using io_total_map_err [OF total_read_until] unfolding io_total_def by blast
qed

lemma total_send_chunks: "io_total live (send_chunks T timeout i cs)"
  by (induction cs arbitrary: i) (auto intro!: io_total_bind total_pdl_command simp del: io_basic_simps)

lemma total_send_image: "io_total live (send_image T timeout addr data)"
  unfolding send_image_def by (intro io_total_bind total_pdl_command total_send_chunks io_total_basic)

lemma total_pdl_connect: "io_total live (pdl_connect T timeout)"
  unfolding pdl_connect_def by (intro io_total_bind total_pdl_command io_total_basic)

text \<open>A kick is due at most once at any instant, so the loop ends.\<close>

definition left_in_loop :: "nat \<Rightarrow> ((nat \<times> 'w) \<times> (nat \<times> 'w)) set" where
  "left_in_loop d =
     measures [\<lambda>(k, w). d - now T w, \<lambda>(k, w). if k \<le> now T w then 1 else 0, \<lambda>(k, w). pending w]"

lemma wf_left_in_loop: "wf (left_in_loop d)"
  by (simp add: left_in_loop_def)

lemma ver_loop_returns:
  "live w \<Longrightarrow> \<exists>r w'. ver_loop T d k acc w = Some (r, w') \<and> live w'"
proof (induction "(k, w)" arbitrary: k w acc rule: wf_induct_rule [OF wf_left_in_loop [of d]])
  case (1 k w)
  show ?case
  proof (cases "d \<le> now T w")
    case True
    with 1 show ?thesis by (simp add: ver_loop.simps [of T d k acc w])
  next
    case False
    obtain q w0 where q: "write_all T [0x7E] w = Some (q, w0)" "live w0" "now T w \<le> now T w0"
      using write_returns [OF 1(2)] by blast
    have rest: "\<exists>r w'. Option.bind (read_some T VER_BUF w1) (\<lambda>(r, w2).
          case r of Err e \<Rightarrow> Some (Err (PdlTransport e), w2) | Panic \<Rightarrow> Some (Panic, w2)
          | Ok bytes \<Rightarrow> (if bytes \<noteq> []
              then (case extract_flag_frame (acc @ bytes) of
                      Some frame \<Rightarrow> Some (Ok frame, w2)
                    | None \<Rightarrow> ver_loop T d k1 (acc @ bytes) w2)
              else ver_loop T d k1 acc w2)) = Some (r, w') \<and> live w'"
      if w1: "live w1" "now T w \<le> now T w1" "now T w1 < k1"
        "now T w1 = now T w \<Longrightarrow> k \<le> now T w \<or> w1 = w \<and> k1 = k" for w1 k1
    proof -
      obtain r w2 where r: "read_some T VER_BUF w1 = Some (r, w2)" "live w2"
        using read_returns [OF w1(1)] by blast
      have "((k1, w2), (k, w)) \<in> left_in_loop d" if "r = Ok bytes" for bytes
        using read_progress [OF w1(1) r(1) [unfolded that]] w1 False
        by (cases "now T w1 = now T w") (auto simp: left_in_loop_def not_le)
      with 1(1) r show ?thesis by (cases r) (auto split: option.splits)
    qed
    show ?thesis
    proof (cases "k \<le> now T w")
      case True
      show ?thesis
      proof (cases q)
        case (Ok u)
        have "\<exists>r w'. ver_loop T d k acc w = Some (r, w') \<and> live w'"
          using rest [of w0 "now T w0 + KICK_INTERVAL"] q True False Ok
          by (simp add: ver_loop.simps [of T d k acc w])
        then show ?thesis .
      qed (use q True False in \<open>simp_all add: ver_loop.simps [of T d k acc w]\<close>)
    next
      case nokick: False
      with rest [of w k] 1(2) False show ?thesis
        by (simp add: ver_loop.simps [of T d k acc w])
    qed
  qed
qed

lemma total_exec_and_get_ver: "io_total live (exec_and_get_ver T timeout)"
  unfolding exec_and_get_ver_def
proof (rule io_total_bind [OF total_pdl_send])
  show "io_total live (\<lambda>w. ver_loop T (now T w + timeout) (now T w) [] w)" for x
    using ver_loop_returns unfolding io_total_def by blast
qed

end

end
