(* ===== verification/Flasher.thy ===== *)
theory Flasher
  imports Plan Bsl_Io Pdl_Io
begin

text \<open>
  The device driver of \<open>crates/sprdflash-flash/src/flasher.rs\<close> and \<open>options.rs\<close>: bring-up (PDL,
  FDL1, BSL, FDL2, baud change), partition writes with the adaptive chunk, read-back, the format
  phase, reset, and the read-only sessions \<open>dump\<close>, \<open>dump_full\<close> and \<open>probe_commands\<close>. A session
  is a state-passing action over the world of the transport. Durations are milliseconds;
  progress callbacks and log lines are left out, they have no effect on the device.
\<close>

section \<open>Options, errors, outcome\<close>

definition FDL_LOAD_CHUNK :: nat where "FDL_LOAD_CHUNK = 2048"
definition MIN_ADAPTIVE_CHUNK :: nat where "MIN_ADAPTIVE_CHUNK = 512"
definition READBACK_CHUNK :: nat where "READBACK_CHUNK = 1024"

datatype flash_error =
    FlashPdl pdl_error
  | FlashBsl bsl_error
  | FlashPlan string
  | FlashPayload rust_string
  | FlashVersion
  | FlashVerifyMismatch rust_string
  | FlashSize

record flash_options =
  opt_format :: bool
  opt_chunk :: nat
  opt_baud :: "u32 option"
  opt_verify_readback :: bool
  opt_reset :: bool
  opt_reset_hold :: nat
  opt_timeout :: nat
  opt_exec_timeout :: nat

definition default_options :: flash_options where
  "default_options =
     \<lparr>opt_format = False, opt_chunk = 2048, opt_baud = None, opt_verify_readback = False,
      opt_reset = True, opt_reset_hold = 1000, opt_timeout = 5000, opt_exec_timeout = 15000\<rparr>"

record flash_outcome =
  out_version :: rust_string
  out_bytes_written :: nat
  out_elapsed :: nat
  out_phases :: "(string \<times> nat) list"

definition io_now :: "'w transport \<Rightarrow> (nat, 'e, 'w) io" where
  "io_now T w = Some (Ok (now T w), w)"

section \<open>Bring-up\<close>

text \<open>The version banner out of the raw \<open>7e ... 7e\<close> frame.\<close>

definition ver_banner :: "u8 list \<Rightarrow> (rust_string, flash_error) result" where
  "ver_banner raw =
     rbind (slice raw 1 (length raw - 1)) (\<lambda>inner.
       case parse_message (unescape inner) of
         Ok (t, vdata) \<Rightarrow>
           (if t \<noteq> REP_VER then Err FlashVersion else Ok (trim (from_utf8_lossy vdata)))
       | Err _ \<Rightarrow> Err FlashVersion
       | Panic \<Rightarrow> Panic)"

definition load_fdl1 ::
    "'w transport \<Rightarrow> flash_options \<Rightarrow> u32 \<Rightarrow> u8 list \<Rightarrow> (rust_string, flash_error, 'w) io" where
  "load_fdl1 T opts addr img =
     io_bind (io_map_err FlashPdl (pdl_connect T (opt_timeout opts))) (\<lambda>_.
     io_bind (io_map_err FlashPdl (send_image T (opt_timeout opts) addr img)) (\<lambda>_.
     io_bind (io_map_err FlashPdl (exec_and_get_ver T (opt_exec_timeout opts))) (\<lambda>raw.
       io_lift (ver_banner raw))))"

definition load_fdl2 ::
    "'w transport \<Rightarrow> flash_options \<Rightarrow> bsl_io \<Rightarrow> u8 list \<Rightarrow> pac_entry \<Rightarrow> (unit, flash_error, 'w) io" where
  "load_fdl2 T opts io pac e =
     io_bind (io_lift (ok_or (payload e pac) (FlashPayload (file_id e)))) (\<lambda>img.
     io_bind (io_map_err FlashBsl (send_stage T io (entry_address e) img FDL_LOAD_CHUNK)) (\<lambda>_.
     io_bind (io_map_err FlashBsl
                (command T io CMD_EXEC_DATA [] REP_ACK (opt_exec_timeout opts) ''EXEC FDL2'')) (\<lambda>_.
       io_map_err FlashBsl (bsl_connect T io))))"

definition change_baud ::
    "'w transport \<Rightarrow> flash_options \<Rightarrow> bsl_io \<Rightarrow> u32 \<Rightarrow> (unit, flash_error, 'w) io" where
  "change_baud T opts io baud =
     io_bind (io_map_err FlashBsl
                (command T io CMD_CHANGE_BAUD (to_be32 baud) REP_ACK (opt_timeout opts) ''CHANGE_BAUD'')) (\<lambda>_.
     io_bind (io_map_err (FlashBsl \<circ> BslTransport) (set_baud T baud)) (\<lambda>_.
       io_map_err FlashBsl (bsl_connect T io)))"

definition bring_up ::
    "'w transport \<Rightarrow> flash_options \<Rightarrow> u8 list \<Rightarrow> flash_plan \<Rightarrow>
       (bsl_io \<times> rust_string \<times> nat \<times> nat, flash_error, 'w) io"
where
  "bring_up T opts pac plan =
     io_bind (io_lift (ok_or (payload (fdl1 plan) pac) (FlashPayload (file_id (fdl1 plan))))) (\<lambda>img.
     io_bind (io_now T) (\<lambda>t0.
     io_bind (load_fdl1 T opts (entry_address (fdl1 plan)) img) (\<lambda>version.
     io_bind (io_now T) (\<lambda>t1.
       let io = bsl_io_new (opt_timeout opts) in
     io_bind (io_map_err FlashBsl (bsl_connect T io)) (\<lambda>_.
     io_bind (case fdl2 plan of None \<Rightarrow> io_return () | Some e \<Rightarrow> load_fdl2 T opts io pac e) (\<lambda>_.
     io_bind (case opt_baud opts of None \<Rightarrow> io_return () | Some b \<Rightarrow> change_baud T opts io b) (\<lambda>_.
     io_bind (io_now T) (\<lambda>t2.
       io_return (io, version, t1 - t0, t2 - t1)))))))))"

section \<open>Writes with an adaptive chunk\<close>

text \<open>
  The \<open>loop\<close> shared by \<open>send_stage_adaptive\<close> and \<open>write_nv\<close>: \<open>attempt chunk\<close> is the write at one
  chunk size; a timeout above the floor purges the input, reconnects and halves the chunk.
\<close>

function adaptive_loop ::
    "'w transport \<Rightarrow> bsl_io \<Rightarrow> (nat \<Rightarrow> ('a, bsl_error, 'w) io) \<Rightarrow> nat \<Rightarrow> 'w \<Rightarrow>
       (('a, flash_error) result \<times> 'w) option"
where
  "adaptive_loop T io attempt chunk w =
     (case attempt chunk w of
        None \<Rightarrow> None
      | Some (Ok x, w1) \<Rightarrow> Some (Ok x, w1)
      | Some (Panic, w1) \<Rightarrow> Some (Panic, w1)
      | Some (Err e, w1) \<Rightarrow>
          (if is_timeout e \<and> MIN_ADAPTIVE_CHUNK < chunk
           then io_bind (io_map_err FlashBsl (bsl_connect T io))
                  (\<lambda>_ w2. adaptive_loop T io attempt (max (chunk div 2) MIN_ADAPTIVE_CHUNK) w2)
                  (purge_input T w1)
           else Some (Err (FlashBsl e), w1)))"
  by pat_completeness auto
termination
  by (relation "measure (\<lambda>(T, io, attempt, chunk, w). chunk)") (auto simp: MIN_ADAPTIVE_CHUNK_def)

declare adaptive_loop.simps [simp del]

definition send_stage_adaptive ::
    "'w transport \<Rightarrow> flash_options \<Rightarrow> bsl_io \<Rightarrow> u32 \<Rightarrow> u8 list \<Rightarrow> (unit, flash_error, 'w) io" where
  "send_stage_adaptive T opts io addr data =
     adaptive_loop T io (send_stage T io addr data) (max (opt_chunk opts) 1)"

definition write_nv_once ::
    "'w transport \<Rightarrow> flash_options \<Rightarrow> bsl_io \<Rightarrow> u32 \<Rightarrow> u8 list \<Rightarrow> nat \<Rightarrow> (nat, bsl_error, 'w) io" where
  "write_nv_once T opts io addr fixed chunk =
     io_bind (command T io CMD_START_DATA (nv_start_payload addr fixed) REP_ACK (opt_timeout opts)
                ''NV START'') (\<lambda>_.
     io_bind (send_pieces T io (opt_timeout opts) ''NV MIDST'' (chunks (max chunk 1) fixed)) (\<lambda>_.
     io_bind (command T io CMD_END_DATA [] REP_ACK (opt_timeout opts) ''NV END'') (\<lambda>_.
       io_return (length fixed))))"

definition write_nv ::
    "'w transport \<Rightarrow> flash_options \<Rightarrow> bsl_io \<Rightarrow> u32 \<Rightarrow> u8 list \<Rightarrow> (nat, flash_error, 'w) io" where
  "write_nv T opts io addr data =
     (let fixed = nv_fix_crc data
      in adaptive_loop T io (write_nv_once T opts io addr fixed) (max (opt_chunk opts) 1))"

section \<open>The flash run\<close>

definition verify_partition ::
    "'w transport \<Rightarrow> bsl_io \<Rightarrow> pac_entry \<Rightarrow> u8 list \<Rightarrow> (unit, flash_error, 'w) io" where
  "verify_partition T io e data =
     io_bind (io_map_err FlashBsl (read_flash T io (entry_address e) (length data) READBACK_CHUNK)) (\<lambda>back.
       if back \<noteq> data then io_fail (FlashVerifyMismatch (file_id e)) else io_return ())"

fun write_partitions ::
    "'w transport \<Rightarrow> flash_options \<Rightarrow> bsl_io \<Rightarrow> u8 list \<Rightarrow> pac_entry list \<Rightarrow> nat \<Rightarrow>
       (nat, flash_error, 'w) io"
where
  "write_partitions T opts io pac [] written = io_return written"
| "write_partitions T opts io pac (e # es) written =
     io_bind (io_lift (ok_or (payload e pac) (FlashPayload (file_id e)))) (\<lambda>data.
     io_bind (send_stage_adaptive T opts io (entry_address e) data) (\<lambda>_.
     io_bind (if opt_verify_readback opts then verify_partition T io e data else io_return ()) (\<lambda>_.
       write_partitions T opts io pac es (written + length data))))"

fun send_erases ::
    "'w transport \<Rightarrow> flash_options \<Rightarrow> bsl_io \<Rightarrow> erase_op list \<Rightarrow> (unit, flash_error, 'w) io" where
  "send_erases T opts io [] = io_return ()"
| "send_erases T opts io (op # ops) =
     io_bind (io_map_err FlashBsl
                (command T io CMD_ERASE_FLASH (to_be32 (erase_address op) @ erase_parameter op) REP_ACK
                   (opt_timeout opts) ''ERASE'')) (\<lambda>_.
       send_erases T opts io ops)"

fun write_markers ::
    "'w transport \<Rightarrow> flash_options \<Rightarrow> bsl_io \<Rightarrow> u8 list \<Rightarrow> pac_entry list \<Rightarrow> nat \<Rightarrow>
       (nat, flash_error, 'w) io"
where
  "write_markers T opts io pac [] written = io_return written"
| "write_markers T opts io pac (e # es) written =
     io_bind (io_lift (ok_or (payload e pac) (FlashPayload (file_id e)))) (\<lambda>data.
     io_bind (if is_nv (file_id e)
              then write_nv T opts io (entry_address e) data
              else io_bind (send_stage_adaptive T opts io (entry_address e) data)
                     (\<lambda>_. io_return (length data))) (\<lambda>n.
       write_markers T opts io pac es (written + n)))"

definition send_reset :: "'w transport \<Rightarrow> flash_options \<Rightarrow> bsl_io \<Rightarrow> (unit, flash_error, 'w) io" where
  "send_reset T opts io =
     (if opt_reset opts
      then io_bind (io_map_err FlashBsl (bsl_send T io CMD_NORMAL_RESET [])) (\<lambda>_.
             io_modify (reset_teardown T (opt_reset_hold opts)))
      else io_return ())"

definition run ::
    "'w transport \<Rightarrow> flash_options \<Rightarrow> pac_info \<Rightarrow> u8 list \<Rightarrow> (flash_outcome, flash_error, 'w) io" where
  "run T opts info pac =
     io_bind (io_now T) (\<lambda>start.
     io_bind (io_lift (map_err FlashPlan (build info))) (\<lambda>plan.
     io_bind (bring_up T opts pac plan) (\<lambda>(io, version, fdl1_ms, fdl2_ms).
     io_bind (io_now T) (\<lambda>mark1.
     io_bind (write_partitions T opts io pac (partitions plan) 0) (\<lambda>written1.
     io_bind (io_now T) (\<lambda>mark2.
     io_bind (if opt_format opts
              then io_bind (send_erases T opts io (erases plan)) (\<lambda>_.
                     write_markers T opts io pac (plan_markers plan) written1)
              else io_return written1) (\<lambda>written.
     io_bind (io_now T) (\<lambda>mark3.
     io_bind (send_reset T opts io) (\<lambda>_.
     io_bind (io_now T) (\<lambda>fin.
       io_return
         \<lparr>out_version = version, out_bytes_written = written, out_elapsed = fin - start,
          out_phases = [(''fdl1'', fdl1_ms), (''fdl2'', fdl2_ms), (''partitions'', mark2 - mark1)] @
            (if opt_format opts then [(''format'', mark3 - mark2)] else [])\<rparr>))))))))))"

section \<open>Read-only sessions\<close>

fun dump_regions ::
    "'w transport \<Rightarrow> bsl_io \<Rightarrow> (u32 \<times> u32) list \<Rightarrow> u8 list list \<Rightarrow> (u8 list list, flash_error, 'w) io" where
  "dump_regions T io [] out = io_return out"
| "dump_regions T io ((addr, len) # rest) out =
     io_bind (io_map_err FlashBsl (read_flash T io addr (unat len) READBACK_CHUNK)) (\<lambda>data.
       dump_regions T io rest (out @ [data]))"

definition dump ::
    "'w transport \<Rightarrow> flash_options \<Rightarrow> pac_info \<Rightarrow> u8 list \<Rightarrow> (u32 \<times> u32) list \<Rightarrow>
       (u8 list list, flash_error, 'w) io"
where
  "dump T opts info pac regions =
     io_bind (io_lift (map_err FlashPlan (build info))) (\<lambda>plan.
     io_bind (bring_up T opts pac plan) (\<lambda>(io, version, f1, f2).
     io_bind (dump_regions T io regions []) (\<lambda>out.
     io_bind (send_reset T opts io) (\<lambda>_.
       io_return out))))"

definition GRAN :: u32 where "GRAN = 0x10000"
definition CAP :: u32 where "CAP = push_bit 20 128"

definition probe :: "'w transport \<Rightarrow> bsl_io \<Rightarrow> u32 \<Rightarrow> nat \<Rightarrow> (bool, flash_error, 'w) io" where
  "probe T io addr timeout =
     io_bind (io_map_err FlashBsl (bsl_send T io CMD_READ_FLASH (to_be32 addr @ to_be32 16 @ to_be32 0))) (\<lambda>_.
     io_bind (io_map_err FlashBsl (recv T timeout)) (\<lambda>(ty, d).
       io_return (ty = REP_READ_FLASH)))"

text \<open>The exponential search; its result is the last readable offset and the bound.\<close>

partial_function (option) grow_loop ::
    "'w transport \<Rightarrow> bsl_io \<Rightarrow> u32 \<Rightarrow> nat \<Rightarrow> u32 \<Rightarrow> u32 \<Rightarrow> 'w \<Rightarrow>
       ((u32 \<times> u32, flash_error) result \<times> 'w) option"
where
  "grow_loop T io base timeout lo s w =
     (if CAP \<le> s then Some (Ok (lo, CAP), w)
      else Option.bind (probe T io (base + s) timeout w) (\<lambda>(r, w').
             case r of
               Err e \<Rightarrow> Some (Err e, w')
             | Panic \<Rightarrow> Some (Panic, w')
             | Ok readable \<Rightarrow>
                 (if readable then grow_loop T io base timeout s (push_bit 1 s) w'
                  else Some (Ok (lo, s), w'))))"

text \<open>The binary search for the boundary between \<open>lo\<close> and \<open>hi\<close>; \<open>hi - lo\<close> is checked.\<close>

definition half_step :: "u32 \<Rightarrow> u32" where
  "half_step d = (d div 2) AND NOT (GRAN - 1)"

lemma half_step_le: "unat (half_step d) \<le> unat d div 2"
proof -
  have "half_step d \<le> d div 2" unfolding half_step_def by (rule word_and_le2)
  then show ?thesis by (simp add: word_le_nat_alt unat_div)
qed

function shrink_loop ::
    "'w transport \<Rightarrow> bsl_io \<Rightarrow> u32 \<Rightarrow> nat \<Rightarrow> u32 \<Rightarrow> u32 \<Rightarrow> 'w \<Rightarrow> ((u32, flash_error) result \<times> 'w) option"
where
  "shrink_loop T io base timeout lo hi w =
     (if hi < lo then Some (Panic, w)
      else if GRAN < hi - lo then
        (let mid = lo + half_step (hi - lo)
         in if mid = lo then Some (Ok hi, w)
            else io_bind (probe T io (base + mid) timeout)
                   (\<lambda>readable w'. if readable then shrink_loop T io base timeout mid hi w'
                                  else shrink_loop T io base timeout lo mid w') w)
      else Some (Ok hi, w))"
  by pat_completeness auto

text \<open>Both halves of the split are shorter.\<close>

lemma half_step_split:
  fixes lo hi :: u32
  assumes "lo \<le> hi" and "half_step (hi - lo) \<noteq> 0"
  defines "mid \<equiv> lo + half_step (hi - lo)"
  shows "unat mid = unat lo + unat (half_step (hi - lo))" and "unat lo < unat mid" and "unat mid < unat hi"
proof -
  have d: "unat (hi - lo) = unat hi - unat lo" using assms(1) by (rule unat_sub)
  have pos: "0 < unat (half_step (hi - lo))" using assms(2) by (simp add: unat_gt_0)
  have le: "unat (half_step (hi - lo)) \<le> (unat hi - unat lo) div 2"
    using half_step_le [of "hi - lo"] by (simp add: d)
  have "unat lo \<le> unat hi" using assms(1) by (simp add: word_le_nat_alt)
  moreover have "unat hi < 2 ^ 32" using unat_u32_less [of hi] by simp
  ultimately have "unat lo + unat (half_step (hi - lo)) < 2 ^ 32" using le by linarith
  then show mid: "unat mid = unat lo + unat (half_step (hi - lo))"
    unfolding mid_def by (rule unat_add_u32)
  show "unat lo < unat mid" using mid pos by linarith
  show "unat mid < unat hi" using mid pos le by linarith
qed

termination shrink_loop
proof (relation "measure (\<lambda>(T, io, base, timeout, lo, hi, w). unat hi - unat lo)")
  fix T :: "'w transport" and io base timeout w x w'' and lo hi mid :: u32
  assume range: "\<not> hi < lo" and "GRAN < hi - lo" and mid: "mid = lo + half_step (hi - lo)" "mid \<noteq> lo"
  then have "half_step (hi - lo) \<noteq> 0" by auto
  with half_step_split [of lo hi] range mid
  have "unat lo < unat mid" "unat mid < unat hi" by (simp_all add: not_less)
  then show "((T, io, base, timeout, mid, hi, w''), T, io, base, timeout, lo, hi, w)
      \<in> measure (\<lambda>(T, io, base, timeout, lo, hi, w). unat hi - unat lo)"
    and "((T, io, base, timeout, lo, mid, w''), T, io, base, timeout, lo, hi, w)
      \<in> measure (\<lambda>(T, io, base, timeout, lo, hi, w). unat hi - unat lo)"
    by simp_all
qed simp

declare shrink_loop.simps [simp del]

definition discover_flash_size ::
    "'w transport \<Rightarrow> bsl_io \<Rightarrow> u32 \<Rightarrow> nat \<Rightarrow> (u32, flash_error, 'w) io" where
  "discover_flash_size T io base timeout =
     io_bind (probe T io base timeout) (\<lambda>readable.
       if \<not> readable then io_fail FlashSize
       else io_bind (grow_loop T io base timeout 0 (push_bit 20 1)) (\<lambda>(lo, hi).
              shrink_loop T io base timeout lo hi))"

text \<open>The read loop of \<open>dump_full\<close>; lengths are compared at 32 bits as the code does.\<close>

partial_function (option) read_all_loop ::
    "'w transport \<Rightarrow> bsl_io \<Rightarrow> u32 \<Rightarrow> u32 \<Rightarrow> u8 list \<Rightarrow> 'w \<Rightarrow> ((u8 list, flash_error) result \<times> 'w) option"
where
  "read_all_loop T io base size32 out w =
     (if word_of_nat (length out) < size32
      then
        Option.bind
          (read_flash T io (base + word_of_nat (length out))
             (unat (min (size32 - word_of_nat (length out)) (word_of_nat READBACK_CHUNK)))
             READBACK_CHUNK w)
          (\<lambda>(r, w').
             case r of
               Err e \<Rightarrow> Some (Err (FlashBsl e), w')
             | Panic \<Rightarrow> Some (Panic, w')
             | Ok chunk \<Rightarrow>
                 (if chunk = [] then Some (Ok out, w')
                  else read_all_loop T io base size32 (out @ chunk) w'))
      else Some (Ok out, w))"

definition dump_full ::
    "'w transport \<Rightarrow> flash_options \<Rightarrow> pac_info \<Rightarrow> u8 list \<Rightarrow> u32 \<Rightarrow>
       (u8 list \<times> u32, flash_error, 'w) io"
where
  "dump_full T opts info pac base =
     io_bind (io_lift (map_err FlashPlan (build info))) (\<lambda>plan.
     io_bind (bring_up T opts pac plan) (\<lambda>(io, version, f1, f2).
     io_bind (discover_flash_size T io base (opt_timeout opts)) (\<lambda>size32.
     io_bind (read_all_loop T io base size32 []) (\<lambda>out.
     io_bind (send_reset T opts io) (\<lambda>_.
       io_return (out, size32))))))"

text \<open>The probe loop: a timeout is recorded as type 0 and ends the loop.\<close>

fun probe_loop ::
    "'w transport \<Rightarrow> flash_options \<Rightarrow> bsl_io \<Rightarrow> (u16 \<times> u8 list) list \<Rightarrow> (u16 \<times> u8 list) list \<Rightarrow>
       ((u16 \<times> u8 list) list, flash_error, 'w) io"
where
  "probe_loop T opts io [] replies = io_return replies"
| "probe_loop T opts io ((cmd, p) # rest) replies =
     io_bind (io_map_err FlashBsl (bsl_send T io cmd p)) (\<lambda>_ w.
       case recv T (opt_timeout opts) w of
         None \<Rightarrow> None
       | Some (Ok reply, w') \<Rightarrow> probe_loop T opts io rest (replies @ [reply]) w'
       | Some (Panic, w') \<Rightarrow> Some (Panic, w')
       | Some (Err e, w') \<Rightarrow>
           (if is_timeout e then Some (Ok (replies @ [(0, [])]), w') else Some (Err (FlashBsl e), w')))"

definition probe_commands ::
    "'w transport \<Rightarrow> flash_options \<Rightarrow> pac_info \<Rightarrow> u8 list \<Rightarrow> (u16 \<times> u8 list) list \<Rightarrow>
       ((u16 \<times> u8 list) list, flash_error, 'w) io"
where
  "probe_commands T opts info pac cmds =
     io_bind (io_lift (map_err FlashPlan (build info))) (\<lambda>plan.
     io_bind (bring_up T opts pac plan) (\<lambda>(io, version, f1, f2).
     io_bind (probe_loop T opts io cmds []) (\<lambda>replies.
     io_bind (send_reset T opts io) (\<lambda>_.
       io_return replies))))"

end
