(* ===== verification/Sessions.thy ===== *)
theory Sessions
  imports Flasher
begin

text \<open>
  Every session of \<open>flasher.rs\<close> comes to an end on a live wire: with its result, an error or a
  panic, whatever the device sends and however its replies are cut or lost. The loops need their
  own arguments: the shrinking chunk of a retried write, the doubling and halving of the size
  search, and the growing buffer of the full read.
\<close>

section \<open>Lengths of what a read returns\<close>

lemma get_range_data_length: "parse_message body = Ok (t, d) \<Longrightarrow> length d < 65536"
  using unat_u16_less
  by (auto simp: parse_message_def rbind_def rmap_def slice_def unwrap_or_panic_def Let_def get_range_Some_iff
      split: result.splits if_splits option.splits)

lemma recv_length: "recv T timeout w = Some (Ok (t, d), w') \<Longrightarrow> length d < 65536"
  by (auto simp: recv_def io_bind_def io_map_err_def io_lift_def map_err_def Let_def
      dest!: get_range_data_length split: option.splits prod.splits result.splits)

lemma command_length: "command T io cmd data expect timeout what w = Some (Ok d, w') \<Longrightarrow> length d < 65536"
  by (auto simp: command_def io_bind_def io_fail_def io_return_def
      dest!: recv_length split: option.splits prod.splits result.splits if_splits)

lemma read_flash_loop_length:
  "read_flash_loop T io addr want chunk out w = Some (Ok got, w') \<Longrightarrow>
     length got < max (length out + 1) (want + 65536)"
proof (induction "want - length out" arbitrary: out w rule: less_induct)
  case less
  show ?case
  proof (cases "length out < want")
    case True
    define m where "m = command T io CMD_READ_FLASH
      (read_request addr (length out) (min (want - length out) (max chunk 1))) REP_READ_FLASH
      (io_timeout io) ''READ_FLASH''"
    have step: "read_flash_loop T io addr want chunk out w =
        io_bind m (\<lambda>data w'. if data = [] then Some (Ok out, w')
          else read_flash_loop T io addr want chunk (out @ data) w') w"
      using True by (simp add: read_flash_loop.simps [of T io addr want chunk out w] m_def Let_def)
    from step less.prems obtain data w1 where m: "m w = Some (Ok data, w1)"
      and rest: "(if data = [] then Some (Ok out, w1)
          else read_flash_loop T io addr want chunk (out @ data) w1) = Some (Ok got, w')"
      by (auto simp: io_bind_def split: option.splits prod.splits result.splits)
    have d: "length data < 65536" using m unfolding m_def by (rule command_length)
    show ?thesis
    proof (cases "data = []")
      case False
      then have "want - length (out @ data) < want - length out" using True by (cases data) auto
      from less.hyps [OF this] rest False have "length got < max (length (out @ data) + 1) (want + 65536)" by simp
      then show ?thesis using d True by (auto simp: less_max_iff_disj)
    qed (use rest in auto)
  qed (use less.prems in \<open>simp add: read_flash_loop.simps [of T io addr want chunk out w]\<close>)
qed

lemma read_flash_length: "read_flash T io addr want chunk w = Some (Ok got, w') \<Longrightarrow> length got < want + 65536"
  using read_flash_loop_length [of T io addr want chunk "[]" w got w'] by (simp add: read_flash_def)

section \<open>The chunk sizes of a retried write\<close>

text \<open>The sizes that \<open>adaptive_loop\<close> goes through, fixed in advance, and a loop that takes them from
  a list: a specification in which the number of attempts is the length of the list.\<close>

function chunk_schedule :: "nat \<Rightarrow> nat list" where
  "chunk_schedule c =
     (if MIN_ADAPTIVE_CHUNK < c then c # chunk_schedule (max (c div 2) MIN_ADAPTIVE_CHUNK) else [c])"
  by pat_completeness auto
termination by (relation "measure id") (auto simp: MIN_ADAPTIVE_CHUNK_def)

declare chunk_schedule.simps [simp del]

fun try_schedule ::
    "'w transport \<Rightarrow> bsl_io \<Rightarrow> (nat \<Rightarrow> ('a, bsl_error, 'w) io) \<Rightarrow> nat list \<Rightarrow> ('a, flash_error, 'w) io"
where
  "try_schedule T io attempt [] w = None"
| "try_schedule T io attempt [c] w = io_map_err FlashBsl (attempt c) w"
| "try_schedule T io attempt (c # d # cs) w =
     (case attempt c w of
        Some (Err e, w1) \<Rightarrow>
          (if is_timeout e
           then io_bind (io_map_err FlashBsl (bsl_connect T io)) (\<lambda>_. try_schedule T io attempt (d # cs))
                  (purge_input T w1)
           else Some (Err (FlashBsl e), w1))
      | _ \<Rightarrow> io_map_err FlashBsl (attempt c) w)"

lemma chunk_schedule_not_Nil [simp]: "chunk_schedule c \<noteq> []"
  by (subst chunk_schedule.simps) simp

lemma adaptive_loop_schedule: "adaptive_loop T io attempt c w = try_schedule T io attempt (chunk_schedule c) w"
proof (induction c arbitrary: w rule: chunk_schedule.induct)
  case (1 c)
  define d where "d = max (c div 2) MIN_ADAPTIVE_CHUNK"
  obtain e es where rest: "chunk_schedule d = e # es" by (cases "chunk_schedule d") auto
  show ?case
  proof (cases "MIN_ADAPTIVE_CHUNK < c")
    case True
    then have s: "chunk_schedule c = c # e # es"
      using rest by (subst chunk_schedule.simps) (simp add: d_def)
    have "adaptive_loop T io attempt d = try_schedule T io attempt (e # es)"
      using 1 [OF True] rest by (auto simp: d_def)
    then show ?thesis
      using True unfolding s adaptive_loop.simps [of T io attempt c w] d_def [symmetric]
      by (auto simp: io_map_err_def map_err_def split: option.splits prod.splits result.splits)
  next
    case False
    then have "chunk_schedule c = [c]" by (subst chunk_schedule.simps) simp
    with False show ?thesis
      by (auto simp: adaptive_loop.simps [of T io attempt c w] io_map_err_def map_err_def
          split: option.splits prod.splits result.splits)
  qed
qed

lemma chunk_schedule_sizes:
  "(\<forall>c' \<in> set (chunk_schedule c). min c MIN_ADAPTIVE_CHUNK \<le> c' \<and> c' \<le> c) \<and> sorted_wrt (>) (chunk_schedule c)"
proof (induction c rule: chunk_schedule.induct)
  case (1 c)
  show ?case
  proof (cases "MIN_ADAPTIVE_CHUNK < c")
    case True
    then have "max (c div 2) MIN_ADAPTIVE_CHUNK < c" by (auto simp: MIN_ADAPTIVE_CHUNK_def)
    with 1 [OF True] True show ?thesis
      by (subst (1 2) chunk_schedule.simps) (fastforce simp: max_def min_def split: if_splits)
  qed (subst (1 2) chunk_schedule.simps, simp)
qed

lemma chunk_schedule_length: "c \<le> 512 * 2 ^ k \<Longrightarrow> length (chunk_schedule c) \<le> k + 1"
proof (induction k arbitrary: c)
  case 0
  then show ?case by (subst chunk_schedule.simps) (simp add: MIN_ADAPTIVE_CHUNK_def)
next
  case (Suc k)
  have "(1::nat) \<le> 2 ^ k" by simp
  then have "max (c div 2) MIN_ADAPTIVE_CHUNK \<le> 512 * 2 ^ k"
    using Suc.prems by (simp add: MIN_ADAPTIVE_CHUNK_def)
  from Suc.IH [OF this] show ?case by (subst chunk_schedule.simps) simp
qed

section \<open>Properties of the chunk sizes\<close>

text \<open>C28: whatever the write and the wire do, a retried write behaves as one that goes
  through a schedule fixed by the first chunk size alone: strictly decreasing sizes, none below the
  smaller of that size and 512, and at most \<open>k + 1\<close> attempts for a first chunk of up to
  \<open>512 * 2 ^ k\<close> bytes.\<close>

theorem adaptive_write_schedule:
  "adaptive_loop T io attempt chunk w = try_schedule T io attempt (chunk_schedule chunk) w \<and>
   sorted_wrt (>) (chunk_schedule chunk) \<and> (\<forall>c \<in> set (chunk_schedule chunk). min chunk 512 \<le> c \<and> c \<le> chunk) \<and>
   (chunk \<le> 512 * 2 ^ k \<longrightarrow> length (chunk_schedule chunk) \<le> k + 1)"
  using adaptive_loop_schedule chunk_schedule_sizes [of chunk] chunk_schedule_length [of chunk k]
  by (simp add: MIN_ADAPTIVE_CHUNK_def)

theorem adaptive_write_schedule_witness:
  "length (chunk_schedule 2048) \<le> 3 \<and> 512 \<le> last (chunk_schedule 2048) \<and> last (chunk_schedule 2048) \<le> 2048 \<and>
   adaptive_loop script_transport (bsl_io_new 5) (\<lambda>c. io_return c) 2048 ([], 0) =
     try_schedule script_transport (bsl_io_new 5) (\<lambda>c. io_return c) (chunk_schedule 2048) ([], 0)"
  using adaptive_write_schedule [of script_transport "bsl_io_new 5" "\<lambda>c. io_return c" 2048 "([], 0)" 2]
    last_in_set [of "chunk_schedule 2048"] by simp

section \<open>The size search\<close>

lemma GRAN_unat [simp]: "unat GRAN = 65536" and CAP_unat [simp]: "unat CAP = 134217728"
  by (simp_all add: GRAN_def CAP_def)

lemma half_step_unat: "unat (half_step d) = unat d div 2 div 65536 * 65536"
proof -
  have "GRAN - 1 = mask 16" by (simp add: GRAN_def mask_eq_exp_minus_1)
  then have "half_step d = push_bit 16 (drop_bit 16 (d div 2))"
    unfolding half_step_def by (auto simp: bit_eq_iff bit_simps)
  moreover have "unat (drop_bit 16 (d div 2)) = unat d div 2 div 65536"
    by (simp add: unat_drop_bit_eq drop_bit_eq_div unat_div)
  moreover have "unat d div 2 div 65536 * 65536 < 4294967296" using unat_u32_less [of d] by linarith
  ultimately show ?thesis by (simp add: push_bit_eq_mult unat_mult_lem [THEN iffD1] unat_word_ariths)
qed

lemma push_bit_power:
  assumes "unat s = 2 ^ k" "k < 31"
  shows "unat (push_bit 1 s :: u32) = 2 ^ Suc k"
proof -
  have "(2::nat) ^ Suc k \<le> 2 ^ 31" using assms(2) by (intro power_increasing) simp_all
  then show ?thesis using assms(1) by (simp add: push_bit_eq_mult unat_word_ariths)
qed

text \<open>Whatever the device answers, the bounds stay 64 KiB apart at least and below the cap.\<close>

definition bracket :: "u32 \<Rightarrow> u32 \<Rightarrow> bool" where
  "bracket lo hi \<longleftrightarrow> 65536 dvd unat lo \<and> 65536 dvd unat hi \<and> unat lo < unat hi \<and> unat hi \<le> 134217728"

lemma bracket_mid:
  assumes "bracket lo hi" "GRAN < hi - lo"
  defines "mid \<equiv> lo + half_step (hi - lo)"
  shows "bracket lo mid" and "bracket mid hi" and "mid \<noteq> lo" and "unat mid < unat hi"
proof -
  obtain a b where ab: "unat lo = 65536 * a" "unat hi = 65536 * b" "a < b" "b \<le> 2048"
    using assms(1) by (auto simp: bracket_def dvd_def)
  have d: "unat (hi - lo) = 65536 * b - 65536 * a"
    using ab by (subst unat_sub) (simp_all add: word_le_nat_alt)
  then have ge: "a + 2 \<le> b" using assms(2) ab(3) by (simp add: word_less_nat_alt)
  have "65536 * b - 65536 * a = 65536 * (b - a)" by (simp add: diff_mult_distrib2)
  then have "(65536 * b - 65536 * a) div 2 div 65536 = (b - a) div 2"
    by (simp add: div_mult2_eq [symmetric])
  then have h: "unat (half_step (hi - lo)) = (b - a) div 2 * 65536"
    unfolding half_step_unat d by simp
  have nz: "half_step (hi - lo) \<noteq> 0" using h ge by (auto simp: unat_eq_0 [symmetric])
  have le: "lo \<le> hi" using ab by (simp add: word_le_nat_alt)
  note split = half_step_split [OF le nz]
  have "65536 dvd unat mid" unfolding mid_def split(1) h ab by simp
  with split assms(1) show "bracket lo mid" "bracket mid hi" "mid \<noteq> lo" "unat mid < unat hi"
    by (auto simp: bracket_def mid_def [symmetric])
qed


lemma grow_loop_bracket:
  assumes "grow_loop T io base timeout lo s w = Some (Ok (lo', hi), w')" "unat s = 2 ^ k" "20 \<le> k" "k \<le> 27"
    and "65536 dvd unat lo" "unat lo < unat s"
  shows "bracket lo' hi"
  using assms
proof (induction "27 - k" arbitrary: k lo s w)
  case 0
  then have "CAP \<le> s" "k = 27" by (simp_all add: word_le_nat_alt)
  with 0 show ?case
    by (auto simp: grow_loop.simps [of T io base timeout lo s w] bracket_def)
next
  case (Suc n)
  then have k: "k < 27" by simp
  then have "(2::nat) ^ k \<le> 2 ^ 26" by (intro power_increasing) simp_all
  then have "\<not> CAP \<le> s" using Suc.prems(2) by (simp add: word_le_nat_alt)
  then have "Option.bind (probe T io (base + s) timeout w) (\<lambda>(r, w1). case r of
      Err e \<Rightarrow> Some (Err e, w1) | Panic \<Rightarrow> Some (Panic, w1)
    | Ok readable \<Rightarrow> if readable then grow_loop T io base timeout s (push_bit 1 s) w1 else Some (Ok (lo, s), w1))
      = Some (Ok (lo', hi), w')"
    using Suc.prems(1) by (subst (asm) grow_loop.simps) simp
  then obtain r w1 where r: "(case r of
      Err e \<Rightarrow> Some (Err e, w1) | Panic \<Rightarrow> Some (Panic, w1)
    | Ok readable \<Rightarrow> if readable then grow_loop T io base timeout s (push_bit 1 s) w1 else Some (Ok (lo, s), w1))
      = Some (Ok (lo', hi), w')"
    by (auto simp: Option.bind_eq_Some_conv)
  then obtain readable where
    rest: "(if readable then grow_loop T io base timeout s (push_bit 1 s) w1 else Some (Ok (lo, s), w1))
      = Some (Ok (lo', hi), w')"
    by (cases r) auto
  have dv: "65536 dvd unat s"
    unfolding Suc.prems(2) using le_imp_power_dvd [of 16 k "2 :: nat"] Suc.prems(3) by simp
  show ?case
  proof (cases readable)
    case True
    have "unat (push_bit 1 s) = 2 ^ Suc k" using push_bit_power [OF Suc.prems(2)] k by simp
    from Suc.hyps(1) [of "Suc k", OF _ _ this] Suc.hyps(2) rest True Suc.prems(3) k dv this
    show ?thesis by (simp add: Suc.prems(2))
  next
    case False
    with rest have "lo' = lo" "hi = s" by simp_all
    with Suc.prems(2,5,6) dv \<open>(2::nat) ^ k \<le> 2 ^ 26\<close> show ?thesis by (simp add: bracket_def)
  qed
qed

lemma shrink_loop_bracket:
  "shrink_loop T io base timeout lo hi w = Some (Ok total_size, w') \<Longrightarrow> bracket lo hi \<Longrightarrow>
     65536 dvd unat total_size \<and> 0 < unat total_size \<and> unat total_size \<le> 134217728"
proof (induction "unat hi - unat lo" arbitrary: lo hi w rule: less_induct)
  case less
  have le: "\<not> hi < lo" using less.prems(2) by (simp add: bracket_def word_less_nat_alt)
  show ?case
  proof (cases "GRAN < hi - lo")
    case True
    define mid where "mid = lo + half_step (hi - lo)"
    note m = bracket_mid [OF less.prems(2) True, folded mid_def]
    from le True m(3) less.prems(1) obtain readable w1 where
      "(if readable then shrink_loop T io base timeout mid hi w1 else shrink_loop T io base timeout lo mid w1)
        = Some (Ok total_size, w')"
      by (auto simp: shrink_loop.simps [of T io base timeout lo hi w] mid_def [symmetric] Let_def io_bind_def
          split: option.splits prod.splits result.splits)
    with less.hyps [of hi mid w1] less.hyps [of mid lo w1] m show ?thesis
      by (auto simp: bracket_def split: if_splits)
  next
    case False
    with le less.prems show ?thesis
      by (auto simp: shrink_loop.simps [of T io base timeout lo hi w] bracket_def)
  qed
qed


lemma discover_bounded:
  assumes "discover_flash_size T io base timeout w = Some (Ok sz, w')"
  shows "65536 dvd unat sz \<and> 0 < unat sz \<and> unat sz \<le> 134217728"
proof -
  from assms obtain w1 lo hi w2 where
    g: "grow_loop T io base timeout 0 (push_bit 20 1) w1 = Some (Ok (lo, hi), w2)"
    and s: "shrink_loop T io base timeout lo hi w2 = Some (Ok sz, w')"
    by (auto simp: discover_flash_size_def io_bind_def io_fail_def
        split: option.splits prod.splits result.splits if_splits)
  have start: "unat (push_bit 20 1 :: u32) = 2 ^ 20" by simp
  have "bracket lo hi" using grow_loop_bracket [OF g start] by simp
  with s show ?thesis by (rule shrink_loop_bracket)
qed

section \<open>Every session returns\<close>

context live_transport
begin

lemma total_load_fdl1: "io_total live (load_fdl1 T opts addr img)"
  unfolding load_fdl1_def
  by (intro io_total_bind io_total_map_err total_pdl_connect total_send_image total_exec_and_get_ver io_total_basic)

lemma total_load_fdl2: "io_total live (load_fdl2 T opts io pac e)"
  unfolding load_fdl2_def
  by (intro io_total_bind io_total_map_err total_send_stage total_command total_bsl_connect io_total_basic)

lemma total_change_baud: "io_total live (change_baud T opts io baud)"
  unfolding change_baud_def
  by (intro io_total_bind io_total_map_err total_command total_baud total_bsl_connect)

lemma total_now: "io_total live (io_now T)"
  by (simp add: io_total_def io_now_def)

lemma total_bring_up: "io_total live (bring_up T opts pac plan)"
  unfolding bring_up_def Let_def
  by (intro io_total_bind io_total_map_err total_now total_load_fdl1 total_bsl_connect io_total_basic)
    (auto intro: total_load_fdl2 total_change_baud split: option.splits)

lemma total_adaptive_loop:
  assumes "\<And>c. io_total live (attempt c)"
  shows "io_total live (adaptive_loop T io attempt chunk)"
  unfolding io_total_def
proof (intro allI impI)
  fix w assume "live w"
  then show "\<exists>r w'. adaptive_loop T io attempt chunk w = Some (r, w') \<and> live w'"
  proof (induction chunk arbitrary: w rule: less_induct)
    case (less chunk)
    obtain r w1 where a: "attempt chunk w = Some (r, w1)" "live w1"
      using io_totalD [OF assms less.prems] by blast
    define c where "c = max (chunk div 2) MIN_ADAPTIVE_CHUNK"
    obtain rc w2 where c: "io_map_err FlashBsl (bsl_connect T io) (purge_input T w1) = Some (rc, w2)" "live w2"
      using io_totalD [OF io_total_map_err [OF total_bsl_connect] purge_live [OF a(2)]] by blast
    show ?case
    proof (cases r)
      case (Err e)
      show ?thesis
      proof (cases "is_timeout e \<and> MIN_ADAPTIVE_CHUNK < chunk")
        case True
        then have "c < chunk" by (auto simp: c_def MIN_ADAPTIVE_CHUNK_def)
        from less.IH [OF this c(2)] True a c Err show ?thesis
          by (cases rc)
            (simp_all add: adaptive_loop.simps [of T io attempt chunk w] c_def [symmetric] io_bind_def)
      qed (use a Err in \<open>auto simp: adaptive_loop.simps [of T io attempt chunk w]\<close>)
    qed (use a in \<open>simp_all add: adaptive_loop.simps [of T io attempt chunk w]\<close>)
  qed
qed

lemma total_send_stage_adaptive: "io_total live (send_stage_adaptive T opts io addr data)"
  unfolding send_stage_adaptive_def by (intro total_adaptive_loop total_send_stage)

lemma total_write_nv: "io_total live (write_nv T opts io addr data)"
  unfolding write_nv_def Let_def write_nv_once_def
  by (intro total_adaptive_loop io_total_bind total_command total_send_pieces io_total_basic)

lemma total_verify_partition: "io_total live (verify_partition T io e data)"
  unfolding verify_partition_def
  by (intro io_total_bind io_total_map_err total_read_flash) simp

lemma total_write_partitions: "io_total live (write_partitions T opts io pac es written)"
  by (induction es arbitrary: written)
    (auto intro!: io_total_bind total_send_stage_adaptive total_verify_partition simp del: io_basic_simps)

lemma total_send_erases: "io_total live (send_erases T opts io ops)"
  by (induction ops) (auto intro!: io_total_bind io_total_map_err total_command simp del: io_basic_simps)

lemma total_write_markers: "io_total live (write_markers T opts io pac es written)"
  by (induction es arbitrary: written)
    (auto intro!: io_total_bind total_send_stage_adaptive total_write_nv simp del: io_basic_simps)

lemma total_send_reset: "io_total live (send_reset T opts io)"
  unfolding send_reset_def
  by (auto intro!: io_total_bind io_total_map_err total_bsl_send total_world simp del: io_basic_simps)

lemma total_run: "io_total live (run T opts info pac)"
  unfolding run_def
  by (intro io_total_bind total_now total_bring_up total_write_partitions io_total_basic)
    (auto intro!: io_total_bind total_now total_write_partitions total_send_erases total_write_markers total_send_reset
      simp del: io_basic_simps)

lemma total_dump_regions: "io_total live (dump_regions T io regions out)"
  by (induction regions arbitrary: out)
    (auto intro!: io_total_bind io_total_map_err total_read_flash simp del: io_basic_simps)

lemma total_dump: "io_total live (dump T opts info pac regions)"
  unfolding dump_def
  by (intro io_total_bind io_total_basic total_bring_up)
    (auto intro!: io_total_bind total_dump_regions total_send_reset simp del: io_basic_simps)


lemma total_probe: "io_total live (probe T io addr timeout)"
  unfolding probe_def
  by (intro io_total_bind io_total_map_err total_bsl_send total_recv) (auto split: prod.splits)

lemma grow_loop_returns:
  assumes "live w" "unat s = 2 ^ k"
  shows "\<exists>r w'. grow_loop T io base timeout lo s w = Some (r, w') \<and> live w'"
  using assms
proof (induction "27 - k" arbitrary: k lo s w)
  case 0
  then have "(2::nat) ^ 27 \<le> 2 ^ k" by (intro power_increasing) simp_all
  with 0 have "CAP \<le> s" by (simp add: word_le_nat_alt)
  with 0 show ?case by (simp add: grow_loop.simps [of T io base timeout lo s w])
next
  case (Suc n)
  obtain r w1 where p: "probe T io (base + s) timeout w = Some (r, w1)" "live w1"
    using io_totalD [OF total_probe Suc.prems(1)] by blast
  have "unat (push_bit 1 s) = 2 ^ Suc k" using Suc.hyps(2) by (intro push_bit_power [OF Suc.prems(2)]) simp
  from Suc.hyps(1) [OF _ p(2) this] Suc.hyps(2) p Suc.prems(1) show ?case
    by (cases r) (auto simp: grow_loop.simps [of T io base timeout lo s w])
qed

lemma shrink_loop_returns:
  "live w \<Longrightarrow> bracket lo hi \<Longrightarrow> \<exists>r w'. shrink_loop T io base timeout lo hi w = Some (r, w') \<and> live w'"
proof (induction "unat hi - unat lo" arbitrary: lo hi w rule: less_induct)
  case less
  have le: "\<not> hi < lo" using less.prems(2) by (simp add: bracket_def word_less_nat_alt)
  show ?case
  proof (cases "GRAN < hi - lo")
    case True
    define mid where "mid = lo + half_step (hi - lo)"
    note m = bracket_mid [OF less.prems(2) True, folded mid_def]
    obtain r w1 where p: "probe T io (base + mid) timeout w = Some (r, w1)" "live w1"
      using io_totalD [OF total_probe less.prems(1)] by blast
    have "\<exists>r w'. (if b then shrink_loop T io base timeout mid hi w1 else shrink_loop T io base timeout lo mid w1)
        = Some (r, w') \<and> live w'" for b
      using less.hyps [of hi mid w1] less.hyps [of mid lo w1] m p(2) by (auto simp: bracket_def)
    with le True m(3) p show ?thesis
      by (cases r) (auto simp: shrink_loop.simps [of T io base timeout lo hi w] mid_def [symmetric] Let_def)
  next
    case False
    with le less.prems show ?thesis by (auto simp: shrink_loop.simps [of T io base timeout lo hi w])
  qed
qed

lemma total_discover: "io_total live (discover_flash_size T io base timeout)"
  unfolding io_total_def
proof (intro allI impI)
  fix w assume live: "live w"
  obtain r w1 where p: "probe T io base timeout w = Some (r, w1)" "live w1"
    using io_totalD [OF total_probe live] by blast
  have start: "unat (push_bit 20 1 :: u32) = 2 ^ 20" by simp
  obtain g w2 where g: "grow_loop T io base timeout 0 (push_bit 20 1) w1 = Some (g, w2)" "live w2"
    using grow_loop_returns [OF p(2) start] by blast
  have "\<exists>r w'. shrink_loop T io base timeout lo hi w2 = Some (r, w') \<and> live w'" if "g = Ok (lo, hi)" for lo hi
    using shrink_loop_returns [OF g(2)] grow_loop_bracket [OF g(1) [unfolded that] start] by simp
  with p g show "\<exists>r w'. discover_flash_size T io base timeout w = Some (r, w') \<and> live w'"
    unfolding discover_flash_size_def by (cases r; cases g) (auto split: prod.splits)
qed

lemma read_all_loop_returns:
  "live w \<Longrightarrow> unat size32 \<le> 134217728 \<Longrightarrow> length out < 4294967296 \<Longrightarrow>
     \<exists>r w'. read_all_loop T io base size32 out w = Some (r, w') \<and> live w'"
proof (induction "unat size32 - length out" arbitrary: out w rule: less_induct)
  case less
  show ?case
  proof (cases "word_of_nat (length out) < size32")
    case False
    with less.prems show ?thesis by (simp add: read_all_loop.simps [of T io base size32 out w])
  next
    case True
    then have short: "length out < unat size32"
      using less.prems(3) by (simp add: word_less_nat_alt unat_of_nat_u32)
    define want where
      "want = unat (min (size32 - word_of_nat (length out)) (word_of_nat READBACK_CHUNK))"
    have want: "want \<le> 1024"
      unfolding want_def by (simp add: READBACK_CHUNK_def min_def word_le_nat_alt)
    obtain r w1 where p: "read_flash T io (base + word_of_nat (length out)) want READBACK_CHUNK w = Some (r, w1)" "live w1"
      using io_totalD [OF total_read_flash less.prems(1)] by blast
    show ?thesis
    proof (cases r)
      case (Ok chunk)
      have len: "length (out @ chunk) < 4294967296"
        using read_flash_length p(1) [unfolded Ok] want short less.prems(2) by fastforce
      have "unat size32 - length (out @ chunk) < unat size32 - length out" if "chunk \<noteq> []"
        using that short by (cases chunk) auto
      from less.hyps [OF this p(2) less.prems(2) len] True p Ok show ?thesis
        by (cases "chunk = []") (simp_all add: read_all_loop.simps [of T io base size32 out w] want_def)
    qed (use True p in \<open>simp_all add: read_all_loop.simps [of T io base size32 out w] want_def\<close>)
  qed
qed

lemma total_dump_full: "io_total live (dump_full T opts info pac base)"
proof -
  have "io_total live (io_bind (discover_flash_size T io base timeout) (\<lambda>size32.
      io_bind (read_all_loop T io base size32 []) (f size32)))"
    if "\<And>size32 out. io_total live (f size32 out)" for io timeout and f :: "u32 \<Rightarrow> u8 list \<Rightarrow> (u8 list \<times> u32, flash_error, 'w) io"
    unfolding io_total_def
  proof (intro allI impI)
    fix w assume "live w"
    then obtain r w1 where d: "discover_flash_size T io base timeout w = Some (r, w1)" "live w1"
      using io_totalD [OF total_discover] by blast
    show "\<exists>r w'. io_bind (discover_flash_size T io base timeout) (\<lambda>size32.
        io_bind (read_all_loop T io base size32 []) (f size32)) w = Some (r, w') \<and> live w'"
    proof (cases r)
      case (Ok sz)
      with d discover_bounded have "unat sz \<le> 134217728" by fastforce
      from read_all_loop_returns [OF d(2) this, of "[]"] obtain r2 w2 where
        "read_all_loop T io base sz [] w1 = Some (r2, w2)" "live w2" by fastforce
      with d Ok io_totalD [OF that] show ?thesis by (cases r2) auto
    qed (use d in auto)
  qed
  then have step: "io_total live (io_bind (discover_flash_size T io base timeout) (\<lambda>size32.
      io_bind (read_all_loop T io base size32 []) (\<lambda>out. io_bind (send_reset T opts io) (\<lambda>_. io_return (out, size32)))))"
    for io timeout
    by (simp add: io_total_bind total_send_reset)
  show ?thesis
    unfolding dump_full_def
    by (intro io_total_bind io_total_basic total_bring_up) (auto intro: step split: prod.splits)
qed

lemma total_probe_loop: "io_total live (probe_loop T opts io cmds replies)"
proof (induction cmds arbitrary: replies)
  case (Cons c cmds)
  obtain cmd p where c: "c = (cmd, p)" by fastforce
  have "\<exists>r w'. (case recv T (opt_timeout opts) w of
         None \<Rightarrow> None
       | Some (Ok reply, w') \<Rightarrow> probe_loop T opts io cmds (replies @ [reply]) w'
       | Some (Panic, w') \<Rightarrow> Some (Panic, w')
       | Some (Err e, w') \<Rightarrow>
           (if is_timeout e then Some (Ok (replies @ [(0, [])]), w') else Some (Err (FlashBsl e), w')))
      = Some (r, w') \<and> live w'" if "live w" for w
  proof -
    obtain r w1 where "recv T (opt_timeout opts) w = Some (r, w1)" "live w1"
      using io_totalD [OF total_recv \<open>live w\<close>] by blast
    with io_totalD [OF Cons.IH] show ?thesis by (cases r) auto
  qed
  then show ?case
    unfolding c probe_loop.simps
    by (intro io_total_bind io_total_map_err total_bsl_send) (simp add: io_total_def)
qed simp

lemma total_probe_commands: "io_total live (probe_commands T opts info pac cmds)"
  unfolding probe_commands_def
  by (intro io_total_bind io_total_basic total_bring_up)
    (auto intro!: io_total_bind total_probe_loop total_send_reset simp del: io_basic_simps)

end

end
