(* ===== verification/Bench.thy ===== *)
theory Bench
  imports Sessions
begin

text \<open>
  The host side of \<open>crates/sprdflash-transport\<close>: USB port discovery (\<open>discovery.rs\<close>), the switch to
  download mode (\<open>recovery.rs\<close>) and the \<open>Serial\<close> stream (\<open>serial.rs\<close>) with its \<open>Transport\<close>. The
  operating system and the \<open>serialport\<close> crate are a parameter, the record \<open>bench\<close>: each call takes
  the world and returns the next one, so that ports come and go as the world likes. An opened port
  is named by its path. Times are milliseconds.
\<close>

section \<open>The operating system\<close>

datatype port_type = UsbPort u16 u16 "rust_string option" | BluetoothPort | PciPort | UnknownPort

record os_port =
  os_port_name :: rust_string
  os_port_type :: port_type

datatype io_error = IoTimedOut | IoWouldBlock | IoOther rust_string

record 'w bench =
  os_ports :: "'w \<Rightarrow> os_port list option \<times> 'w"
  os_open :: "rust_string \<Rightarrow> nat \<Rightarrow> nat \<Rightarrow> 'w \<Rightarrow> (unit, rust_string) result \<times> 'w"
  os_close :: "rust_string \<Rightarrow> 'w \<Rightarrow> 'w"
  os_write_all :: "rust_string \<Rightarrow> u8 list \<Rightarrow> 'w \<Rightarrow> (unit, io_error) result \<times> 'w"
  os_read :: "rust_string \<Rightarrow> nat \<Rightarrow> 'w \<Rightarrow> (u8 list, io_error) result \<times> 'w"
  os_flush :: "rust_string \<Rightarrow> 'w \<Rightarrow> 'w"
  os_clear_input :: "rust_string \<Rightarrow> 'w \<Rightarrow> 'w"
  os_set_baud :: "rust_string \<Rightarrow> u32 \<Rightarrow> 'w \<Rightarrow> (unit, rust_string) result \<times> 'w"
  os_set_dtr :: "rust_string \<Rightarrow> bool \<Rightarrow> 'w \<Rightarrow> (unit, rust_string) result \<times> 'w"
  os_set_rts :: "rust_string \<Rightarrow> bool \<Rightarrow> 'w \<Rightarrow> (unit, rust_string) result \<times> 'w"
  os_restart_device :: "'w \<Rightarrow> bool \<times> 'w"
  os_sleep :: "nat \<Rightarrow> 'w \<Rightarrow> 'w"
  os_now :: "'w \<Rightarrow> nat"
  os_epoch_ms :: "'w \<Rightarrow> nat option"

definition io_call :: "('w \<Rightarrow> ('a, 'e) result \<times> 'w) \<Rightarrow> ('a, 'e, 'w) io" where
  "io_call f w = Some (f w)"

definition io_query :: "('w \<Rightarrow> 'a \<times> 'w) \<Rightarrow> ('a, 'e, 'w) io" where
  "io_query f w = (case f w of (x, w') \<Rightarrow> Some (Ok x, w'))"

section \<open>Discovery\<close>

definition DOWNLOAD_VID :: u16 where "DOWNLOAD_VID = 0x0525"
definition DOWNLOAD_PID :: u16 where "DOWNLOAD_PID = 0xA4A7"
definition MODULE_VID :: u16 where "MODULE_VID = 0x1782"

record port_info =
  info_name :: rust_string
  info_vid :: "u16 option"
  info_pid :: "u16 option"
  info_product :: "rust_string option"

definition to_port_info :: "os_port \<Rightarrow> port_info" where
  "to_port_info p =
     (case os_port_type p of
        UsbPort vid pid descr \<Rightarrow>
          \<lparr>info_name = os_port_name p, info_vid = Some vid, info_pid = Some pid, info_product = descr\<rparr>
      | _ \<Rightarrow> \<lparr>info_name = os_port_name p, info_vid = None, info_pid = None, info_product = None\<rparr>)"

definition ports :: "'w bench \<Rightarrow> 'w \<Rightarrow> port_info list \<times> 'w" where
  "ports B w =
     (case os_ports B w of
        (None, w') \<Rightarrow> ([], w')
      | (Some ps, w') \<Rightarrow> (map to_port_info ps, w'))"

definition is_present :: "'w bench \<Rightarrow> rust_string \<Rightarrow> 'w \<Rightarrow> bool \<times> 'w" where
  "is_present B name w = (case ports B w of (ps, w') \<Rightarrow> (\<exists>p \<in> set ps. info_name p = name, w'))"

definition is_download :: "port_info \<Rightarrow> bool" where
  "is_download p \<longleftrightarrow> info_vid p = Some DOWNLOAD_VID \<and> info_pid p = Some DOWNLOAD_PID"

definition find_download_port :: "'w bench \<Rightarrow> 'w \<Rightarrow> port_info option \<times> 'w" where
  "find_download_port B w = (case ports B w of (ps, w') \<Rightarrow> (find is_download ps, w'))"

definition find_module_ports :: "'w bench \<Rightarrow> 'w \<Rightarrow> port_info list \<times> 'w" where
  "find_module_ports B w =
     (case ports B w of (ps, w') \<Rightarrow> (filter (\<lambda>p. info_vid p = Some MODULE_VID) ps, w'))"

partial_function (option) wait_download_loop ::
    "'w bench \<Rightarrow> nat \<Rightarrow> 'w \<Rightarrow> (port_info option \<times> 'w) option"
where
  "wait_download_loop B deadline w =
     (if os_now B w < deadline
      then (case find_download_port B w of
              (Some p, w') \<Rightarrow> Some (Some p, w')
            | (None, w') \<Rightarrow> wait_download_loop B deadline (os_sleep B 20 w'))
      else Some (None, w))"

definition wait_for_download_port :: "'w bench \<Rightarrow> nat \<Rightarrow> (port_info option, 'e, 'w) io" where
  "wait_for_download_port B timeout w =
     Option.bind (wait_download_loop B (os_now B w + timeout) w) (\<lambda>(p, w'). Some (Ok p, w'))"

partial_function (option) wait_module_loop ::
    "'w bench \<Rightarrow> nat \<Rightarrow> 'w \<Rightarrow> (port_info list \<times> 'w) option"
where
  "wait_module_loop B deadline w =
     (case find_module_ports B w of
        (m, w') \<Rightarrow>
          (if m \<noteq> [] \<or> deadline \<le> os_now B w' then Some (m, w')
           else wait_module_loop B deadline (os_sleep B 200 w')))"

definition wait_for_module :: "'w bench \<Rightarrow> nat \<Rightarrow> (port_info list, 'e, 'w) io" where
  "wait_for_module B timeout w =
     Option.bind (wait_module_loop B (os_now B w + timeout) w) (\<lambda>(m, w'). Some (Ok m, w'))"

section \<open>Recovery\<close>

definition AT_DOWNLOAD :: "u8 list" where
  "AT_DOWNLOAD = map (\<lambda>c. word_of_nat (of_char c)) ''AT*DOWNLOAD=1'' @ [13, 10]"

definition enter_download_mode :: "'w bench \<Rightarrow> rust_string \<Rightarrow> (unit, rust_string, 'w) io" where
  "enter_download_mode B at_port =
     io_bind (io_call (os_open B at_port 115200 500)) (\<lambda>_.
     io_bind (io_modify (\<lambda>w. snd (os_write_all B at_port AT_DOWNLOAD w))) (\<lambda>_.
     io_bind (io_modify (os_flush B at_port)) (\<lambda>_.
       io_modify (os_close B at_port))))"

section \<open>The serial stream\<close>

text \<open>The open loop, with the attempts left and the latest error; the port asserts DTR and RTS and
  drops its stale input, whatever those calls answer.\<close>

definition assert_carrier :: "'w bench \<Rightarrow> rust_string \<Rightarrow> 'w \<Rightarrow> 'w" where
  "assert_carrier B port w =
     os_clear_input B port (snd (os_set_rts B port True (snd (os_set_dtr B port True w))))"

fun serial_open_loop ::
    "'w bench \<Rightarrow> rust_string \<Rightarrow> nat \<Rightarrow> nat \<Rightarrow> rust_string option \<Rightarrow> (unit, transport_error, 'w) io"
where
  "serial_open_loop B port baud 0 latest w =
     (case latest of None \<Rightarrow> Some (Panic, w) | Some e \<Rightarrow> Some (Err (TransportOpen port e), w))"
| "serial_open_loop B port baud (Suc n) latest w =
     (case os_open B port baud 20 w of
        (Ok _, w') \<Rightarrow> Some (Ok (), assert_carrier B port w')
      | (Err e, w') \<Rightarrow> serial_open_loop B port baud n (Some e) (os_sleep B 30 w')
      | (Panic, w') \<Rightarrow> Some (Panic, w'))"

definition serial_open :: "'w bench \<Rightarrow> rust_string \<Rightarrow> nat \<Rightarrow> (unit, transport_error, 'w) io" where
  "serial_open B port baud = serial_open_loop B port baud 200 None"

definition set_dtr_rts :: "'w bench \<Rightarrow> rust_string \<Rightarrow> bool \<Rightarrow> (unit, transport_error, 'w) io" where
  "set_dtr_rts B port on =
     io_bind (io_map_err TransportControl (io_call (os_set_dtr B port on))) (\<lambda>_.
       io_map_err TransportControl (io_call (os_set_rts B port on)))"

definition io_error_text :: "io_error \<Rightarrow> rust_string" where
  "io_error_text e =
     (case e of IoTimedOut \<Rightarrow> str ''timed out'' | IoWouldBlock \<Rightarrow> str ''would block'' | IoOther s \<Rightarrow> s)"

definition serial_write_all :: "'w bench \<Rightarrow> rust_string \<Rightarrow> u8 list \<Rightarrow> (unit, transport_error, 'w) io" where
  "serial_write_all B port data =
     io_bind (io_map_err (TransportIo \<circ> io_error_text) (io_call (os_write_all B port data))) (\<lambda>_.
       io_modify (os_flush B port))"

definition serial_read_some :: "'w bench \<Rightarrow> rust_string \<Rightarrow> nat \<Rightarrow> (u8 list, transport_error, 'w) io" where
  "serial_read_some B port n w =
     (case os_read B port n w of
        (Ok bytes, w') \<Rightarrow> Some (Ok bytes, w')
      | (Err e, w') \<Rightarrow>
          (if e = IoTimedOut \<or> e = IoWouldBlock then Some (Ok [], w')
           else Some (Err (TransportIo (io_error_text e)), w'))
      | (Panic, w') \<Rightarrow> Some (Panic, w'))"

definition serial :: "'w bench \<Rightarrow> rust_string \<Rightarrow> 'w transport" where
  "serial B port =
     \<lparr>write_all = serial_write_all B port,
      read_some = serial_read_some B port,
      set_baud = (\<lambda>baud. io_map_err TransportControl (io_call (os_set_baud B port baud))),
      purge_input = os_clear_input B port,
      reset_teardown = (\<lambda>hold w. os_sleep B hold (os_flush B port w)),
      now = os_now B\<rparr>"

text \<open>A stretch of code that owns an open port, which Rust closes at its end on every path.\<close>

definition owning :: "'w bench \<Rightarrow> rust_string \<Rightarrow> ('a, 'e, 'w) io \<Rightarrow> ('a, 'e, 'w) io" where
  "owning B port act w =
     (case act w of None \<Rightarrow> None | Some (r, w') \<Rightarrow> Some (r, os_close B port w'))"

section \<open>A bench on which time passes\<close>

text \<open>Calls keep the world alive and the clock from going back, sleeping takes its time, and a read
  lets time pass or uses up some of the finitely many bytes on their way.\<close>

definition moves_on :: "'w bench \<Rightarrow> ('w \<Rightarrow> bool) \<Rightarrow> 'w \<Rightarrow> 'w \<Rightarrow> bool" where
  "moves_on B live w w' \<longleftrightarrow> live w' \<and> os_now B w \<le> os_now B w'"

locale live_bench =
  fixes B :: "'w bench" and live :: "'w \<Rightarrow> bool" and pending :: "rust_string \<Rightarrow> 'w \<Rightarrow> nat"
  assumes ports_move: "live w \<Longrightarrow> moves_on B live w (snd (os_ports B w))"
    and open_moves: "live w \<Longrightarrow> moves_on B live w (snd (os_open B port baud timeout w))"
    and close_moves: "live w \<Longrightarrow> moves_on B live w (os_close B port w)"
    and write_moves: "live w \<Longrightarrow> moves_on B live w (snd (os_write_all B port data w))"
    and read_moves: "live w \<Longrightarrow> moves_on B live w (snd (os_read B port n w))"
    and read_uses_up: "live w \<Longrightarrow> os_read B port n w = (r, w') \<Longrightarrow>
      os_now B w < os_now B w' \<or> pending port w' < pending port w"
    and flush_moves: "live w \<Longrightarrow> moves_on B live w (os_flush B port w)"
    and clear_moves: "live w \<Longrightarrow> moves_on B live w (os_clear_input B port w)"
    and baud_moves: "live w \<Longrightarrow> moves_on B live w (snd (os_set_baud B port b w))"
    and dtr_moves: "live w \<Longrightarrow> moves_on B live w (snd (os_set_dtr B port on w))"
    and rts_moves: "live w \<Longrightarrow> moves_on B live w (snd (os_set_rts B port on w))"
    and restart_moves: "live w \<Longrightarrow> moves_on B live w (snd (os_restart_device B w))"
    and sleep_live: "live w \<Longrightarrow> live (os_sleep B n w)"
    and sleep_takes_time: "live w \<Longrightarrow> os_now B w + n \<le> os_now B (os_sleep B n w)"
begin

lemma total_call: "(\<And>w. live w \<Longrightarrow> moves_on B live w (snd (f w))) \<Longrightarrow> io_total live (io_call f)"
  by (metis io_call_def io_total_def moves_on_def prod.collapse)

lemma total_modify: "(\<And>w. live w \<Longrightarrow> moves_on B live w (f w)) \<Longrightarrow> io_total live (io_modify f)"
  by (simp add: io_total_def moves_on_def)

lemma total_query: "(\<And>w. live w \<Longrightarrow> moves_on B live w (snd (f w))) \<Longrightarrow> io_total live (io_query f)"
  by (fastforce simp: io_query_def io_total_def moves_on_def split: prod.splits)

lemma moves_trans: "moves_on B live w w1 \<Longrightarrow> (live w1 \<Longrightarrow> moves_on B live w1 w2) \<Longrightarrow> moves_on B live w w2"
  by (auto simp: moves_on_def)

lemma enumeration_moves:
  assumes "live w"
  shows "moves_on B live w (snd (ports B w))" "moves_on B live w (snd (find_download_port B w))"
    "moves_on B live w (snd (find_module_ports B w))" "moves_on B live w (snd (is_present B name w))"
proof -
  show p: "moves_on B live w (snd (ports B w))"
    using ports_move [OF assms] by (auto simp: ports_def split: prod.splits option.splits)
  then show "moves_on B live w (snd (find_download_port B w))" "moves_on B live w (snd (find_module_ports B w))"
    "moves_on B live w (snd (is_present B name w))"
    by (auto simp: find_download_port_def find_module_ports_def is_present_def split: prod.splits)
qed

lemma total_wait_for_download_port: "io_total live (wait_for_download_port B timeout)"
proof -
  have "\<exists>p w'. wait_download_loop B deadline w = Some (p, w') \<and> live w'" if "live w" for deadline w
    using that
  proof (induction "deadline - os_now B w" arbitrary: w rule: less_induct)
    case less
    obtain p w1 where p: "find_download_port B w = (p, w1)" by fastforce
    have w1: "live w1" "os_now B w \<le> os_now B w1"
      using enumeration_moves(2) [OF less.prems] p by (simp_all add: moves_on_def)
    show ?case
    proof (cases "os_now B w < deadline")
      case True
      have "deadline - os_now B (os_sleep B 20 w1) < deadline - os_now B w"
        using True w1 sleep_takes_time [OF w1(1), of 20] by simp
      from less.hyps [OF this sleep_live [OF w1(1)]] True p w1 show ?thesis
        by (subst wait_download_loop.simps) (auto split: option.splits)
    qed (use less.prems in \<open>simp add: wait_download_loop.simps [of B deadline w]\<close>)
  qed
  note loop = this
  show ?thesis
    unfolding io_total_def wait_for_download_port_def
  proof (intro allI impI)
    fix w assume "live w"
    from loop [OF this, of "os_now B w + timeout"] obtain x w' where
      "wait_download_loop B (os_now B w + timeout) w = Some (x, w')" "live w'" by blast
    then show "\<exists>r w'. Option.bind (wait_download_loop B (os_now B w + timeout) w) (\<lambda>(x, w'). Some (Ok x, w')) = Some (r, w') \<and> live w'"
      by simp
  qed
qed

lemma total_wait_for_module: "io_total live (wait_for_module B timeout)"
proof -
  have "\<exists>m w'. wait_module_loop B deadline w = Some (m, w') \<and> live w'" if "live w" for deadline w
    using that
  proof (induction "deadline - os_now B w" arbitrary: w rule: less_induct)
    case less
    obtain m w1 where m: "find_module_ports B w = (m, w1)" by fastforce
    have w1: "live w1" "os_now B w \<le> os_now B w1"
      using enumeration_moves(3) [OF less.prems] m by (simp_all add: moves_on_def)
    show ?case
    proof (cases "m \<noteq> [] \<or> deadline \<le> os_now B w1")
      case True
      with m w1 show ?thesis by (subst wait_module_loop.simps) auto
    next
      case False
      have "deadline - os_now B (os_sleep B 200 w1) < deadline - os_now B w"
        using False w1(2) sleep_takes_time [OF w1(1), of 200] by linarith
      from less.hyps [OF this sleep_live [OF w1(1)]] False m show ?thesis
        by (subst wait_module_loop.simps) simp
    qed
  qed
  note loop = this
  show ?thesis
    unfolding io_total_def wait_for_module_def
  proof (intro allI impI)
    fix w assume "live w"
    from loop [OF this, of "os_now B w + timeout"] obtain x w' where
      "wait_module_loop B (os_now B w + timeout) w = Some (x, w')" "live w'" by blast
    then show "\<exists>r w'. Option.bind (wait_module_loop B (os_now B w + timeout) w) (\<lambda>(x, w'). Some (Ok x, w')) = Some (r, w') \<and> live w'"
      by simp
  qed
qed

lemma total_sleep: "io_total live (io_modify (os_sleep B n))"
  by (simp add: io_total_def sleep_live)

lemma total_enter_download_mode: "io_total live (enter_download_mode B port)"
  unfolding enter_download_mode_def
  by (intro io_total_bind total_call total_modify open_moves write_moves flush_moves close_moves)

lemma carrier_moves: "live w \<Longrightarrow> moves_on B live w (assert_carrier B port w)"
  unfolding assert_carrier_def by (blast intro: moves_trans dtr_moves rts_moves clear_moves)

lemma total_serial_open: "io_total live (serial_open B port baud)"
proof -
  have "\<exists>r w'. serial_open_loop B port baud n latest w = Some (r, w') \<and> live w'" if "live w" for n latest w
    using that
  proof (induction n arbitrary: latest w)
    case 0
    then show ?case by (cases latest) auto
  next
    case (Suc n)
    obtain r w1 where r: "os_open B port baud 20 w = (r, w1)" by fastforce
    have w1: "live w1" using open_moves [OF Suc.prems, of port baud 20] r by (simp add: moves_on_def)
    show ?case
      using r w1 Suc.IH [OF sleep_live [OF w1]] carrier_moves [OF w1]
      by (cases r) (auto simp: moves_on_def)
  qed
  then show ?thesis by (simp add: io_total_def serial_open_def)
qed

lemma total_owning: "io_total live act \<Longrightarrow> io_total live (owning B port act)"
  using close_moves unfolding io_total_def owning_def moves_on_def by fastforce

end

text \<open>The serial stream of a live bench is a live wire: its contract is the one the driver needs.\<close>

sublocale live_bench \<subseteq> wire: live_transport "serial B port" live "pending port" for port
proof unfold_locales
  fix w n
  assume w: "live w"
  obtain r w1 where r: "os_read B port n w = (r, w1)" by fastforce
  have "live w1" using read_moves [OF w, of port n] r by (simp add: moves_on_def)
  then show "\<exists>r w'. read_some (serial B port) n w = Some (r, w') \<and> live w'"
    using r by (auto simp: serial_def serial_read_some_def split: result.splits)
next
  fix w n bytes w'
  assume w: "live w" and r: "read_some (serial B port) n w = Some (Ok bytes, w')"
  then have "snd (os_read B port n w) = w'"
    by (auto simp: serial_def serial_read_some_def split: prod.splits result.splits if_splits)
  with read_moves [OF w, of port n] read_uses_up [OF w, of port n "fst (os_read B port n w)" w']
  show "now (serial B port) w < now (serial B port) w' \<or>
      now (serial B port) w' = now (serial B port) w \<and> pending port w' < pending port w"
    by (cases "os_read B port n w") (auto simp: serial_def moves_on_def)
next
  fix w data
  assume w: "live w"
  obtain r w1 where r: "os_write_all B port data w = (r, w1)" by fastforce
  have w1: "live w1" "os_now B w \<le> os_now B w1"
    using write_moves [OF w, of port data] r by (simp_all add: moves_on_def)
  with flush_moves [OF w1(1), of port] r
  show "\<exists>r w'. write_all (serial B port) data w = Some (r, w') \<and> live w' \<and>
      now (serial B port) w \<le> now (serial B port) w'"
    by (cases r) (auto simp: serial_def serial_write_all_def io_bind_def io_map_err_def io_call_def moves_on_def)
next
  fix w baud
  assume "live w"
  then show "\<exists>r w'. set_baud (serial B port) baud w = Some (r, w') \<and> live w'"
    using io_totalD [OF io_total_map_err [OF total_call [of "os_set_baud B port baud", OF baud_moves]]]
    by (simp add: serial_def)
next
  fix w assume "live w"
  then show "live (purge_input (serial B port) w)"
    using clear_moves by (simp add: serial_def moves_on_def)
next
  fix w hold assume "live w"
  then show "live (reset_teardown (serial B port) hold w)"
    using flush_moves sleep_live by (simp add: serial_def moves_on_def)
qed

end
