(* ===== verification/Station.thy ===== *)
theory Station
  imports Bench
begin

text \<open>
  One station of \<open>crates/sprdflash-line\<close>: boot verification over the AT port (\<open>verify.rs\<close>), the
  record of a unit (\<open>record.rs\<close>), and the way of one unit through flash, verification, retries and
  recovery with the waits of a continuous run (\<open>station.rs\<close>). Error messages are constructors with
  the error they carry, their texts are in \<open>Messages\<close>; durations are milliseconds where the code has
  floating-point seconds.
\<close>

section \<open>Boot verification\<close>

record boot_info =
  boot_firmware :: rust_string
  boot_imei :: rust_string

datatype verify_error = VerifyOpen rust_string rust_string | VerifyNoResponse rust_string

definition crlf_bytes :: "rust_string \<Rightarrow> u8 list" where
  "crlf_bytes cmd = map ucast cmd @ [13, 10]"

partial_function (option) at_read_loop ::
    "'w bench \<Rightarrow> rust_string \<Rightarrow> nat \<Rightarrow> u8 list \<Rightarrow> 'w \<Rightarrow> ((u8 list, 'e) result \<times> 'w) option"
where
  "at_read_loop B port deadline out w =
     (if os_now B w < deadline
      then (case os_read B port 512 w of
              (Panic, w') \<Rightarrow> Some (Panic, w')
            | (Err e, w') \<Rightarrow> at_read_loop B port deadline out (os_sleep B 20 w')
            | (Ok bytes, w') \<Rightarrow>
                (if bytes \<noteq> [] then at_read_loop B port deadline (out @ bytes) w'
                 else at_read_loop B port deadline out (os_sleep B 20 w')))
      else Some (Ok out, w))"

definition at_query :: "'w bench \<Rightarrow> rust_string \<Rightarrow> rust_string \<Rightarrow> (rust_string, 'e, 'w) io" where
  "at_query B port cmd =
     io_bind (io_modify (os_clear_input B port)) (\<lambda>_.
     io_bind (io_modify (\<lambda>w. snd (os_write_all B port (crlf_bytes cmd) w))) (\<lambda>_.
     io_bind (io_modify (os_flush B port)) (\<lambda>_.
     io_bind (\<lambda>w. at_read_loop B port (os_now B w + 700) [] w) (\<lambda>out.
       io_return (from_utf8_lossy out)))))"

definition meaningful :: "rust_string \<Rightarrow> rust_string \<Rightarrow> rust_string option" where
  "meaningful resp cmd =
     find (\<lambda>l. l \<noteq> [] \<and> l \<noteq> str ''OK'' \<and> l \<noteq> cmd \<and> \<not> starts_with l (str ''AT''))
       (map trim (str_lines resp))"

text \<open>One try on the AT port: the port is closed again; \<open>None\<close> when there was no answer.\<close>

definition verify_try :: "'w bench \<Rightarrow> rust_string \<Rightarrow> (boot_info option, 'e, 'w) io" where
  "verify_try B at_port w =
     (case os_open B at_port 115200 200 w of
        (Panic, w') \<Rightarrow> Some (Panic, w')
      | (Err e, w') \<Rightarrow> Some (Ok None, w')
      | (Ok _, w') \<Rightarrow>
          owning B at_port
            (io_bind (at_query B at_port (str ''ATI'')) (\<lambda>ati.
               case meaningful ati (str ''ATI'') of
                 None \<Rightarrow> io_return None
               | Some firmware \<Rightarrow>
                   io_bind (at_query B at_port (str ''AT+CGSN'')) (\<lambda>cgsn.
                     let imei = (case meaningful cgsn (str ''AT+CGSN'') of None \<Rightarrow> [] | Some i \<Rightarrow> i)
                     in io_return (Some \<lparr>boot_firmware = firmware, boot_imei = imei\<rparr>)))) w')"

partial_function (option) verify_loop ::
    "'w bench \<Rightarrow> rust_string \<Rightarrow> nat \<Rightarrow> 'w \<Rightarrow> ((boot_info, verify_error) result \<times> 'w) option"
where
  "verify_loop B at_port deadline w =
     Option.bind (verify_try B at_port w) (\<lambda>(r, w').
       case (r :: (boot_info option, verify_error) result) of
         Panic \<Rightarrow> Some (Panic, w')
       | Err e \<Rightarrow> Some (Err e, w')
       | Ok (Some info) \<Rightarrow> Some (Ok info, w')
       | Ok None \<Rightarrow>
           (if deadline \<le> os_now B w' then Some (Err (VerifyNoResponse at_port), w')
            else verify_loop B at_port deadline (os_sleep B 300 w')))"

definition verify_boot :: "'w bench \<Rightarrow> rust_string \<Rightarrow> nat \<Rightarrow> (boot_info, verify_error, 'w) io" where
  "verify_boot B at_port timeout w = verify_loop B at_port (os_now B w + timeout) w"

section \<open>Records\<close>

datatype outcome = Pass | Fail

record phase_timing =
  phase_name :: string
  phase_ms :: nat

datatype download_error = SwitchFailed rust_string | PortDidNotAppear | NoPortToSwitch

datatype unit_error =
    EnterDownload download_error
  | OpenFailed rust_string transport_error
  | FlashFailed flash_error
  | DidNotBoot
  | BootVerify verify_error

record unit_record =
  rec_ts_ms :: nat
  rec_station :: rust_string
  rec_work_order :: "rust_string option"
  rec_operator :: "rust_string option"
  rec_port :: rust_string
  rec_product :: rust_string
  rec_pac :: rust_string
  rec_result :: outcome
  rec_attempts :: u32
  rec_bytes :: nat
  rec_flash_ms :: nat
  rec_total_ms :: nat
  rec_phases :: "phase_timing list"
  rec_firmware :: "rust_string option"
  rec_imei :: "rust_string option"
  rec_error :: "unit_error option"

definition now_ms :: "'w bench \<Rightarrow> 'w \<Rightarrow> nat" where
  "now_ms B w = (case os_epoch_ms B w of None \<Rightarrow> 0 | Some t \<Rightarrow> t)"

section \<open>One attempt\<close>

record station_config =
  st_label :: rust_string
  st_at_port :: "rust_string option"
  st_download_port :: "rust_string option"

record unit_job =
  job_info :: pac_info
  job_pac :: "u8 list"
  job_pac_name :: rust_string
  job_opts :: flash_options
  job_verify :: bool
  job_retries :: u32
  job_work_order :: "rust_string option"
  job_operator :: "rust_string option"

record success =
  suc_bytes :: nat
  suc_flash_ms :: nat
  suc_phases :: "phase_timing list"
  suc_firmware :: "rust_string option"
  suc_imei :: "rust_string option"

text \<open>The configured port, if the test before it holds; the port it found; a switch over the AT port.\<close>

definition configured_port :: "'w bench \<Rightarrow> station_config \<Rightarrow> (rust_string option, download_error, 'w) io" where
  "configured_port B st =
     (case st_download_port st of
        None \<Rightarrow> io_return None
      | Some p \<Rightarrow>
          io_bind (io_query (find_download_port B)) (\<lambda>d.
            io_return (if d \<noteq> None \<or> st_at_port st = None then Some p else None)))"

definition ensure_download :: "'w bench \<Rightarrow> station_config \<Rightarrow> (rust_string, download_error, 'w) io" where
  "ensure_download B st =
     io_bind (configured_port B st) (\<lambda>early.
       case early of
         Some p \<Rightarrow> io_return p
       | None \<Rightarrow>
           io_bind (io_query (find_download_port B)) (\<lambda>d.
             case d of
               Some p \<Rightarrow> io_return (info_name p)
             | None \<Rightarrow>
                 (case st_at_port st of
                    Some at_port \<Rightarrow>
                      io_bind (io_map_err SwitchFailed (enter_download_mode B at_port)) (\<lambda>_.
                      io_bind (wait_for_download_port B 30000) (\<lambda>p.
                        io_lift (ok_or (map_option info_name p) PortDidNotAppear)))
                  | None \<Rightarrow> io_lift (ok_or (st_download_port st) NoPortToSwitch))))"

definition at_product :: "port_info \<Rightarrow> bool" where
  "at_product p =
     (let d = (case info_product p of None \<Rightarrow> [] | Some s \<Rightarrow> s)
      in ends_with d (str '' AT'') \<or> str_contains d (str '' AT '') \<or> str_contains d (str ''AT (''))"

definition pick_at_port :: "station_config \<Rightarrow> port_info list \<Rightarrow> rust_string" where
  "pick_at_port st mods =
     (case st_at_port st of
        Some at_port \<Rightarrow> at_port
      | None \<Rightarrow>
          (case find at_product mods of
             Some p \<Rightarrow> info_name p
           | None \<Rightarrow> (case mods of [] \<Rightarrow> [] | p # _ \<Rightarrow> info_name p)))"

text \<open>The boot check: firmware and IMEI, if the unit is verified.\<close>

definition boot_check ::
    "'w bench \<Rightarrow> station_config \<Rightarrow> bool \<Rightarrow> (rust_string option \<times> rust_string option, unit_error, 'w) io"
where
  "boot_check B st verified =
     (if verified
      then io_bind (wait_for_module B 60000) (\<lambda>mods.
             if mods = [] then io_fail DidNotBoot
             else io_bind (io_map_err BootVerify (verify_boot B (pick_at_port st mods) 20000)) (\<lambda>b.
                    io_return (Some (boot_firmware b), Some (boot_imei b))))
      else io_return (None, None))"

definition bench_now :: "'w bench \<Rightarrow> (nat, 'e, 'w) io" where
  "bench_now B w = Some (Ok (os_now B w), w)"

definition try_once :: "'w bench \<Rightarrow> station_config \<Rightarrow> unit_job \<Rightarrow> (success \<times> rust_string, unit_error, 'w) io" where
  "try_once B st job =
     io_bind (io_map_err EnterDownload (ensure_download B st)) (\<lambda>port.
     io_bind (io_map_err (OpenFailed port) (serial_open B port 115200)) (\<lambda>_.
     io_bind (owning B port (io_map_err FlashFailed
                (run (serial B port) (job_opts job) (job_info job) (job_pac job)))) (\<lambda>out.
     io_bind (bench_now B) (\<lambda>verify_start.
       let verified = job_verify job \<and> opt_reset (job_opts job)
       in io_bind (boot_check B st verified) (\<lambda>(firmware, imei).
          io_bind (bench_now B) (\<lambda>t.
            io_return
              (\<lparr>suc_bytes = out_bytes_written out, suc_flash_ms = out_elapsed out,
                suc_phases = map (\<lambda>(p, ms). \<lparr>phase_name = p, phase_ms = ms\<rparr>) (out_phases out) @
                  (if verified then [\<lparr>phase_name = ''verify'', phase_ms = t - verify_start\<rparr>] else []),
                suc_firmware = firmware, suc_imei = imei\<rparr>, port)))))))"

section \<open>Retries\<close>

text \<open>An action whose result is dropped, as \<open>let _ = ...\<close> does.\<close>

definition io_ignore :: "('a, 'e, 'w) io \<Rightarrow> (unit, 'f, 'w) io" where
  "io_ignore act w =
     (case act w of
        None \<Rightarrow> None
      | Some (Panic, w') \<Rightarrow> Some (Panic, w')
      | Some (_, w') \<Rightarrow> Some (Ok (), w'))"

definition recover :: "'w bench \<Rightarrow> station_config \<Rightarrow> (unit, 'e, 'w) io" where
  "recover B st =
     io_bind (io_query (os_restart_device B)) (\<lambda>ok.
       if ok then io_modify (os_sleep B 6000)
       else (case st_at_port st of
               None \<Rightarrow> io_return ()
             | Some at_port \<Rightarrow>
                 io_bind (io_ignore (enter_download_mode B at_port)) (\<lambda>_. io_modify (os_sleep B 2000))))"

definition pass_record ::
    "station_config \<Rightarrow> unit_job \<Rightarrow> nat \<Rightarrow> nat \<Rightarrow> u32 \<Rightarrow> success \<Rightarrow> rust_string \<Rightarrow> unit_record"
where
  "pass_record st job ts elapsed attempts s port =
     \<lparr>rec_ts_ms = ts, rec_station = st_label st, rec_work_order = job_work_order job,
      rec_operator = job_operator job, rec_port = port, rec_product = product_name (job_info job),
      rec_pac = job_pac_name job, rec_result = Pass, rec_attempts = attempts, rec_bytes = suc_bytes s,
      rec_flash_ms = suc_flash_ms s, rec_total_ms = elapsed, rec_phases = suc_phases s,
      rec_firmware = suc_firmware s, rec_imei = suc_imei s, rec_error = None\<rparr>"

definition fail_record ::
    "station_config \<Rightarrow> unit_job \<Rightarrow> nat \<Rightarrow> nat \<Rightarrow> u32 \<Rightarrow> unit_error option \<Rightarrow> unit_record"
where
  "fail_record st job ts elapsed attempts err =
     \<lparr>rec_ts_ms = ts, rec_station = st_label st, rec_work_order = job_work_order job,
      rec_operator = job_operator job,
      rec_port = (case st_download_port st of None \<Rightarrow> [] | Some p \<Rightarrow> p),
      rec_product = product_name (job_info job), rec_pac = job_pac_name job, rec_result = Fail,
      rec_attempts = attempts, rec_bytes = 0, rec_flash_ms = 0, rec_total_ms = elapsed, rec_phases = [],
      rec_firmware = None, rec_imei = None, rec_error = err\<rparr>"

lemma attempts_left:
  fixes attempts :: u32
  assumes "attempts \<noteq> 0xFFFFFFFF"
  shows "unat (attempts + 1) = unat attempts + 1"
    and "4294967295 - unat (attempts + 1) < 4294967295 - unat attempts"
proof -
  have "unat attempts \<noteq> unat (0xFFFFFFFF :: u32)" using assms by (metis unsigned_word_eqI)
  then have "unat attempts \<noteq> 4294967295" by simp
  then have lt: "unat attempts < 4294967295" using unat_u32_less [of attempts] by linarith
  then show eq: "unat (attempts + 1) = unat attempts + 1" by (subst unat_add_u32) simp_all
  show "4294967295 - unat (attempts + 1) < 4294967295 - unat attempts" using lt by (simp only: eq)
qed

text \<open>The \<open>while\<close> loop of \<open>run_unit\<close>. The increment of the 32-bit counter is checked, as in a debug
  build.\<close>

function attempt_loop ::
    "'w bench \<Rightarrow> station_config \<Rightarrow> unit_job \<Rightarrow> nat \<Rightarrow> nat \<Rightarrow> u32 \<Rightarrow> unit_error option \<Rightarrow> 'w \<Rightarrow>
       ((unit_record, unit) result \<times> 'w) option"
where
  "attempt_loop B st job ts started attempts err w =
     (if attempts \<le> job_retries job
      then
        (if attempts = 0xFFFFFFFF then Some (Panic, w)
         else
           (case try_once B st job w of
              None \<Rightarrow> None
            | Some (Panic, w') \<Rightarrow> Some (Panic, w')
            | Some (Ok (s, port), w') \<Rightarrow>
                Some (Ok (pass_record st job ts (os_now B w' - started) (attempts + 1) s port), w')
            | Some (Err e, w') \<Rightarrow>
                io_bind (if attempts + 1 \<le> job_retries job then recover B st else io_return ())
                  (\<lambda>_ w2. attempt_loop B st job ts started (attempts + 1) (Some e) w2) w'))
      else Some (Ok (fail_record st job ts (os_now B w - started) attempts err), w))"
  by pat_completeness auto
termination
  by (relation "measure (\<lambda>(B, st, job, ts, started, attempts, err, w). 4294967295 - unat attempts)")
    (simp_all add: attempts_left(2))

declare attempt_loop.simps [simp del]

definition run_unit :: "'w bench \<Rightarrow> station_config \<Rightarrow> unit_job \<Rightarrow> (unit_record, unit, 'w) io" where
  "run_unit B st job w = attempt_loop B st job (now_ms B w) (os_now B w) 0 None w"

section \<open>Waiting for the next unit\<close>

definition PRESENCE_POLL :: nat where
  "PRESENCE_POLL = 250"

definition station_present :: "'w bench \<Rightarrow> station_config \<Rightarrow> 'w \<Rightarrow> bool \<times> 'w" where
  "station_present B st w =
     (case (case st_at_port st of None \<Rightarrow> (False, w) | Some p \<Rightarrow> is_present B p w) of
        (True, w') \<Rightarrow> (True, w')
      | (False, w') \<Rightarrow> (case st_download_port st of None \<Rightarrow> (False, w') | Some p \<Rightarrow> is_present B p w'))"

text \<open>Poll while \<open>cond\<close> holds and the stop flag is not set; the flag is read first.\<close>

partial_function (option) wait_while ::
    "'w bench \<Rightarrow> ('w \<Rightarrow> bool \<times> 'w) \<Rightarrow> nat \<Rightarrow> ('w \<Rightarrow> bool \<times> 'w) \<Rightarrow> 'w \<Rightarrow> ((unit, 'e) result \<times> 'w) option"
where
  "wait_while B stop poll cond w =
     (case stop w of
        (stopped, w1) \<Rightarrow>
          if stopped then Some (Ok (), w1)
          else (case cond w1 of
                  (holds, w2) \<Rightarrow>
                    if holds then wait_while B stop poll cond (os_sleep B poll w2) else Some (Ok (), w2)))"

definition poll_not :: "('w \<Rightarrow> bool \<times> 'w) \<Rightarrow> 'w \<Rightarrow> bool \<times> 'w" where
  "poll_not f w = (case f w of (b, w') \<Rightarrow> (\<not> b, w'))"

definition wait_cycle ::
    "'w bench \<Rightarrow> ('w \<Rightarrow> bool \<times> 'w) \<Rightarrow> nat \<Rightarrow> ('w \<Rightarrow> bool \<times> 'w) \<Rightarrow> (unit, 'e, 'w) io"
where
  "wait_cycle B stop poll present =
     io_bind (wait_while B stop poll present) (\<lambda>_. wait_while B stop poll (poll_not present))"

text \<open>Any device, for a station without ports of its own: the bench is empty when neither is found.\<close>

definition bench_occupied :: "'w bench \<Rightarrow> 'w \<Rightarrow> bool \<times> 'w" where
  "bench_occupied B w =
     (case find_download_port B w of
        (Some p, w1) \<Rightarrow> (True, w1)
      | (None, w1) \<Rightarrow> (case find_module_ports B w1 of (m, w2) \<Rightarrow> (m \<noteq> [], w2)))"

definition wait_for_next_unit ::
    "'w bench \<Rightarrow> station_config \<Rightarrow> ('w \<Rightarrow> bool \<times> 'w) \<Rightarrow> (unit, 'e, 'w) io"
where
  "wait_for_next_unit B st stop =
     (if st_at_port st \<noteq> None \<or> st_download_port st \<noteq> None
      then wait_cycle B stop PRESENCE_POLL (station_present B st)
      else wait_while B stop PRESENCE_POLL (bench_occupied B))"

section \<open>Every unit ends in a record\<close>

context live_bench
begin

lemma total_now: "io_total live (bench_now B)"
  by (simp add: io_total_def bench_now_def)

lemma total_at_query: "io_total live (at_query B port cmd)"
proof -
  have "\<exists>r w'. at_read_loop B port deadline out w = Some (r, w') \<and> live w'" if "live w" for deadline out w
    using that
  proof (induction w arbitrary: out rule: wf_induct_rule [OF wf_measures [of "[\<lambda>w. deadline - os_now B w, pending port]"]])
    case (1 w)
    obtain r w1 where r: "os_read B port 512 w = (r, w1)" by fastforce
    have w1: "live w1" "os_now B w \<le> os_now B w1"
      using read_moves [OF 1(2), of port 512] r by (simp_all add: moves_on_def)
    show ?case
    proof (cases "os_now B w < deadline")
      case True
      have less: "(w1, w) \<in> measures [\<lambda>w. deadline - os_now B w, pending port]"
        using read_uses_up [OF 1(2) r] w1 True by auto
      have slept: "(os_sleep B 20 w1, w) \<in> measures [\<lambda>w. deadline - os_now B w, pending port]"
        using sleep_takes_time [OF w1(1), of 20] w1 True by auto
      from 1(1) [OF less w1(1)] 1(1) [OF slept sleep_live [OF w1(1)]] True r w1 show ?thesis
        by (subst at_read_loop.simps) (cases r; simp)
    qed (use 1(2) in \<open>simp add: at_read_loop.simps [of B port deadline out w]\<close>)
  qed
  then have "io_total live (\<lambda>w. at_read_loop B port (os_now B w + 700) [] w)"
    unfolding io_total_def by blast
  then show ?thesis
    unfolding at_query_def
    by (intro io_total_bind total_modify clear_moves write_moves flush_moves io_total_basic)
qed

lemma total_verify_try: "io_total live (verify_try B at_port)"
  unfolding io_total_def
proof (intro allI impI)
  fix w assume w: "live w"
  obtain r w1 where r: "os_open B at_port 115200 200 w = (r, w1)" by fastforce
  have w1: "live w1" using open_moves [OF w, of at_port 115200 200] r by (simp add: moves_on_def)
  have "io_total live (owning B at_port
            (io_bind (at_query B at_port (str ''ATI'')) (\<lambda>ati.
               case meaningful ati (str ''ATI'') of
                 None \<Rightarrow> io_return None
               | Some firmware \<Rightarrow>
                   io_bind (at_query B at_port (str ''AT+CGSN'')) (\<lambda>cgsn.
                     let imei = (case meaningful cgsn (str ''AT+CGSN'') of None \<Rightarrow> [] | Some i \<Rightarrow> i)
                     in io_return (Some \<lparr>boot_firmware = firmware, boot_imei = imei\<rparr>)))))"
    by (intro total_owning io_total_bind total_at_query)
      (auto intro!: io_total_bind total_at_query simp: Let_def simp del: io_basic_simps split: option.splits)
  from io_totalD [OF this w1] r w1 show "\<exists>r w'. verify_try B at_port w = Some (r, w') \<and> live w'"
    unfolding verify_try_def by (cases r) auto
qed

text \<open>The same bench from a later time on.\<close>

lemma moves_later:
  "moves_on B live w w' \<Longrightarrow> t \<le> os_now B w \<Longrightarrow> moves_on B (\<lambda>w. live w \<and> t \<le> os_now B w) w w'"
  by (auto simp: moves_on_def)

lemma later: "live_bench B (\<lambda>w. live w \<and> t \<le> os_now B w) pending"
proof unfold_locales
  fix w r w' port n
  assume "live w \<and> t \<le> os_now B w" and "os_read B port n w = (r, w')"
  then show "os_now B w < os_now B w' \<or> pending port w' < pending port w" using read_uses_up by blast
next
  fix w n
  assume "live w \<and> t \<le> os_now B w"
  then show "live (os_sleep B n w) \<and> t \<le> os_now B (os_sleep B n w)"
    using sleep_live [of w n] sleep_takes_time [of w n] by simp
qed (simp_all add: moves_later ports_move open_moves close_moves write_moves read_moves flush_moves clear_moves
    baud_moves dtr_moves rts_moves restart_moves sleep_takes_time)

lemma total_verify_boot: "io_total live (verify_boot B at_port timeout)"
proof -
  have "\<exists>r w'. verify_loop B at_port deadline w = Some (r, w') \<and> live w'" if "live w" for deadline w
    using that
  proof (induction "deadline - os_now B w" arbitrary: w rule: less_induct)
    case less
    obtain r w1 where r: "verify_try B at_port w = Some (r :: (boot_info option, verify_error) result, w1)"
      and w1: "live w1" "os_now B w \<le> os_now B w1"
      using io_totalD [OF live_bench.total_verify_try [OF later [of "os_now B w"], of at_port]] less.prems by blast
    show ?case
    proof (cases "r = Ok None \<and> os_now B w1 < deadline")
      case True
      then have "deadline - os_now B (os_sleep B 300 w1) < deadline - os_now B w"
        using w1(2) sleep_takes_time [OF w1(1), of 300] by linarith
      from less.hyps [OF this sleep_live [OF w1(1)]] True r show ?thesis
        by (subst verify_loop.simps) simp
    next
      case False
      with r w1(1) show ?thesis
        by (subst verify_loop.simps) (auto split: result.splits option.splits)
    qed
  qed
  then show ?thesis by (simp add: io_total_def verify_boot_def)
qed

lemma total_boot_check: "io_total live (boot_check B st verified)"
  unfolding boot_check_def
  by (auto intro!: io_total_bind total_wait_for_module io_total_map_err total_verify_boot simp del: io_basic_simps)

lemma total_ensure_download: "io_total live (ensure_download B st)"
  unfolding ensure_download_def configured_port_def
  by (auto intro!: io_total_bind total_query enumeration_moves io_total_map_err total_enter_download_mode
      total_wait_for_download_port simp del: io_basic_simps split: option.splits)

lemma total_try_once: "io_total live (try_once B st job)"
  unfolding try_once_def Let_def
  by (intro io_total_bind io_total_map_err total_ensure_download total_serial_open total_owning wire.total_run
      total_now)
    (auto intro!: io_total_bind total_now total_boot_check simp del: io_basic_simps split: prod.splits)

lemma total_recover: "io_total live (recover B st)"
proof -
  have "io_total live (io_ignore (enter_download_mode B port))" for port
    using total_enter_download_mode [of port] unfolding io_total_def io_ignore_def
    by (fastforce split: result.splits)
  then show ?thesis
    unfolding recover_def
    by (auto intro!: io_total_bind total_query restart_moves total_sleep simp del: io_basic_simps split: option.splits)
qed

lemma attempt_loop_returns:
  "live w \<Longrightarrow> \<exists>r w'. attempt_loop B st job ts started attempts err w = Some (r, w') \<and> live w'"
proof (induction "4294967295 - unat attempts" arbitrary: attempts err w rule: less_induct)
  case less
  show ?case
  proof (cases "attempts \<le> job_retries job \<and> attempts \<noteq> 0xFFFFFFFF")
    case True
    then have next_attempt: "4294967295 - unat (attempts + 1) < 4294967295 - unat attempts"
      using True by (intro attempts_left(2)) simp
    obtain r w1 where r: "try_once B st job w = Some (r, w1)" "live w1"
      using io_totalD [OF total_try_once less.prems] by blast
    have "io_total live (if attempts + 1 \<le> job_retries job then recover B st else io_return ())"
      by (simp add: total_recover)
    from io_totalD [OF this r(2)] obtain v :: "(unit, unit) result" and w2 where
      v: "(if attempts + 1 \<le> job_retries job then recover B st else io_return ()) w1 = Some (v, w2)" "live w2"
      by blast
    have again: "\<exists>r w'. attempt_loop B st job ts started (attempts + 1) e w2 = Some (r, w') \<and> live w'" for e
      using less.hyps [OF next_attempt v(2)] .
    show ?thesis
    proof (cases r)
      case (Err e)
      then have "attempt_loop B st job ts started attempts err w =
          io_bind (if attempts + 1 \<le> job_retries job then recover B st else io_return ())
            (\<lambda>_ w2. attempt_loop B st job ts started (attempts + 1) (Some e) w2) w1"
        using True r(1) by (subst attempt_loop.simps) simp
      with again [of "Some e"] v show ?thesis by (cases v) simp_all
    next
      case (Ok x)
      with True r show ?thesis by (cases x) (simp add: attempt_loop.simps [of B st job ts started attempts err w])
    next
      case Panic
      with True r show ?thesis by (simp add: attempt_loop.simps [of B st job ts started attempts err w])
    qed
  qed (use less.prems in \<open>auto simp: attempt_loop.simps [of B st job ts started attempts err w]\<close>)
qed

lemma total_run_unit: "io_total live (run_unit B st job)"
  using attempt_loop_returns by (simp add: io_total_def run_unit_def)

end

end
