(* ===== verification/Utf8.thy ===== *)
theory Utf8
  imports Pac
begin

text \<open>
  The strings of the program as a type: a Rust \<open>String\<close> holds Unicode scalar values only, so every
  string the code decodes out of a file or a device answer must. Also the UTF-8 bytes of a string,
  which is what \<open>std::fs::write\<close> puts into a file and \<open>body.len()\<close> counts.
\<close>

section \<open>Encoding\<close>

text \<open>\<open>char::encode_utf8\<close>, and \<open>as_bytes\<close> of a string.\<close>

definition utf8_char :: "u32 \<Rightarrow> u8 list" where
  "utf8_char c =
     (if c < 0x80 then [ucast c]
      else if c < 0x800 then [0xC0 OR ucast (drop_bit 6 c), 0x80 OR (ucast c AND 0x3F)]
      else if c < 0x10000 then
        [0xE0 OR ucast (drop_bit 12 c), 0x80 OR (ucast (drop_bit 6 c) AND 0x3F), 0x80 OR (ucast c AND 0x3F)]
      else
        [0xF0 OR ucast (drop_bit 18 c), 0x80 OR (ucast (drop_bit 12 c) AND 0x3F),
         0x80 OR (ucast (drop_bit 6 c) AND 0x3F), 0x80 OR (ucast c AND 0x3F)])"

definition utf8_bytes :: "rust_string \<Rightarrow> u8 list" where
  "utf8_bytes s = concat (map utf8_char s)"

lemma utf8_bytes_simps [simp]:
  "utf8_bytes [] = []"
  "utf8_bytes (c # s) = utf8_char c @ utf8_bytes s"
  "utf8_bytes (s @ t) = utf8_bytes s @ utf8_bytes t"
  by (simp_all add: utf8_bytes_def)

lemma utf8_bytes_ascii: "\<forall>c \<in> set s. c < 0x80 \<Longrightarrow> utf8_bytes s = map ucast s"
  by (induction s) (simp_all add: utf8_char_def)

section \<open>Scalar values\<close>

definition is_scalar :: "u32 \<Rightarrow> bool" where
  "is_scalar c \<longleftrightarrow> unat c < 0xD800 \<or> (0xE000 \<le> unat c \<and> unat c < 0x110000)"

lemma is_scalarI: "unat c < 0xD800 \<or> (0xE000 \<le> unat c \<and> unat c < 0x110000) \<Longrightarrow> is_scalar c"
  by (simp add: is_scalar_def)

definition valid_string :: "rust_string \<Rightarrow> bool" where
  "valid_string s \<longleftrightarrow> list_all is_scalar s"

lemma valid_string_simps [simp]:
  "valid_string []"
  "valid_string (c # s) \<longleftrightarrow> is_scalar c \<and> valid_string s"
  "valid_string (s @ t) \<longleftrightarrow> valid_string s \<and> valid_string t"
  by (simp_all add: valid_string_def)

lemma is_scalar_replacement [simp]: "is_scalar replacement_char"
  by (simp add: is_scalar_def replacement_char_def)

lemma valid_string_subset: "set s \<subseteq> set t \<Longrightarrow> valid_string t \<Longrightarrow> valid_string s"
  by (auto simp: valid_string_def list_all_iff)

lemma valid_string_trim: "valid_string s \<Longrightarrow> valid_string (trim s)"
  by (rule valid_string_subset [of _ s]) (auto simp: trim_def dest!: set_dropWhileD)

section \<open>What the decoder of UTF-8 puts out\<close>

lemma unat_push_or:
  fixes x z :: u32
  assumes "unat z < 2 ^ k" "unat x * 2 ^ k + unat z < 2 ^ 32"
  shows "unat (push_bit k x OR z) = unat x * 2 ^ k + unat z"
proof -
  have "\<not> bit z n" if "k \<le> n" for n
  proof -
    have "unat z < 2 ^ n" using assms(1) that by (meson less_le_trans one_le_numeral power_increasing)
    then have "take_bit n z = z"
      by (metis take_bit_nat_eq_self unsigned_take_bit_eq word_unat_eq_iff)
    then show ?thesis by (metis bit_take_bit_iff less_irrefl)
  qed
  then have "push_bit k x + z = push_bit k x OR z"
    by (intro disjunctive_add_eq_or) (auto simp: bit_eq_iff bit_simps)
  moreover have "unat (push_bit k x) = unat x * 2 ^ k"
  proof -
    have "unat (push_bit k x) = take_bit 32 (push_bit k (unat x))" by (simp add: unsigned_push_bit_eq)
    also have "\<dots> = take_bit 32 (unat x * 2 ^ k)" by (simp only: push_bit_eq_mult)
    finally show ?thesis using assms(2) by (simp add: take_bit_nat_eq_self)
  qed
  ultimately show ?thesis using assms(2) by (metis unat_add_u32)
qed

lemma unat_cont_bits: "unat (cont_bits b) = unat b mod 64"
proof -
  have "b AND 63 = take_bit 6 b" by (simp add: take_bit_eq_mask mask_eq_exp_minus_1)
  then show ?thesis
    by (simp add: cont_bits_def unsigned_ucast_eq unsigned_take_bit_eq take_bit_take_bit)
      (simp add: take_bit_eq_mod)
qed

lemma unat_lead_bits:
  fixes b :: u8
  shows "unat (b AND 0x1F) = unat b mod 32" "unat (b AND 0x0F) = unat b mod 16" "unat (b AND 0x07) = unat b mod 8"
proof -
  have "b AND 31 = take_bit 5 b" "b AND 15 = take_bit 4 b" "b AND 7 = take_bit 3 b"
    by (simp_all add: take_bit_eq_mask mask_eq_exp_minus_1)
  then show "unat (b AND 0x1F) = unat b mod 32" "unat (b AND 0x0F) = unat b mod 16" "unat (b AND 0x07) = unat b mod 8"
    by (simp_all add: unsigned_take_bit_eq) (simp_all add: take_bit_eq_mod)
qed

lemma unat_two_bytes:
  fixes b :: u8
  shows "unat (push_bit 6 (ucast (b AND 0x1F)) OR cont_bits c) = (unat b mod 32) * 64 + unat c mod 64"
proof -
  have "unat b mod 32 < 32" "unat c mod 64 < 64" by simp_all
  then show ?thesis
    by (subst unat_push_or) (simp_all add: unat_lead_bits unat_cont_bits)
qed

lemma unat_three_bytes:
  fixes b :: u8
  shows "unat (push_bit 12 (ucast (b AND 0x0F)) OR push_bit 6 (cont_bits c) OR cont_bits d) =
     (unat b mod 16) * 4096 + (unat c mod 64) * 64 + unat d mod 64"
proof -
  have l: "unat b mod 16 < 16" "unat c mod 64 < 64" "unat d mod 64 < 64" by simp_all
  have r: "unat (push_bit 6 (cont_bits c) OR cont_bits d) = (unat c mod 64) * 64 + unat d mod 64"
    using l by (subst unat_push_or) (simp_all add: unat_cont_bits)
  show ?thesis using l
    by (subst unat_push_or) (simp_all add: r unat_lead_bits)
qed

lemma unat_four_bytes:
  fixes b :: u8
  shows "unat (push_bit 18 (ucast (b AND 0x07)) OR push_bit 12 (cont_bits c) OR push_bit 6 (cont_bits d) OR cont_bits e) =
     (unat b mod 8) * 262144 + (unat c mod 64) * 4096 + (unat d mod 64) * 64 + unat e mod 64"
proof -
  have l: "unat b mod 8 < 8" "unat c mod 64 < 64" "unat d mod 64 < 64" "unat e mod 64 < 64" by simp_all
  have r: "unat (push_bit 6 (cont_bits d) OR cont_bits e) = (unat d mod 64) * 64 + unat e mod 64"
    using l by (subst unat_push_or) (simp_all add: unat_cont_bits)
  have q: "unat (push_bit 12 (cont_bits c) OR push_bit 6 (cont_bits d) OR cont_bits e) =
      (unat c mod 64) * 4096 + ((unat d mod 64) * 64 + unat e mod 64)"
    using l by (subst unat_push_or) (simp_all add: r unat_cont_bits)
  show ?thesis using l
    by (subst unat_push_or) (simp_all add: q unat_lead_bits)
qed

text \<open>A byte in a range, as facts about its number.\<close>

lemma unat_range:
  fixes b :: u8
  shows "b \<le> c \<longleftrightarrow> unat b \<le> unat c" "b < c \<longleftrightarrow> unat b < unat c" "b = c \<longleftrightarrow> unat b = unat c"
  by (simp_all add: word_le_nat_alt word_less_nat_alt word_unat_eq_iff)

lemma byte_mod:
  fixes n m :: nat
  shows "128 \<le> n \<Longrightarrow> n \<le> 191 \<Longrightarrow> \<exists>m < 64. n = 128 + m \<and> n mod 64 = m"
    and "224 \<le> n \<Longrightarrow> n \<le> 239 \<Longrightarrow> \<exists>m < 16. n = 224 + m \<and> n mod 16 = m"
    and "240 \<le> n \<Longrightarrow> n \<le> 244 \<Longrightarrow> \<exists>m < 8. n = 240 + m \<and> n mod 8 = m"
proof -
  show "\<exists>m < 64. n = 128 + m \<and> n mod 64 = m" if "128 \<le> n" "n \<le> 191"
    using that by (intro exI [of _ "n - 128"] conjI mod_nat_eqI) auto
  show "\<exists>m < 16. n = 224 + m \<and> n mod 16 = m" if "224 \<le> n" "n \<le> 239"
    using that by (intro exI [of _ "n - 224"] conjI mod_nat_eqI) auto
  show "\<exists>m < 8. n = 240 + m \<and> n mod 8 = m" if "240 \<le> n" "n \<le> 244"
    using that by (intro exI [of _ "n - 240"] conjI mod_nat_eqI) auto
qed

lemma utf8_step_scalar: "is_scalar (fst (utf8_step b bs))"
proof -
  have width: "utf8_char_width b \<in> {0, 1, 2, 3, 4}" by (simp add: utf8_char_width_def)
  consider "unat b < 128" | "utf8_char_width b = 0" | "utf8_char_width b = 2" | "utf8_char_width b = 3"
    | "utf8_char_width b = 4"
    using width by (auto simp: utf8_char_width_def unat_range split: if_splits)
  then show ?thesis
  proof cases
    case 1
    then show ?thesis
      by (simp add: utf8_step_def utf8_char_width_def unat_range is_scalar_def unsigned_ucast_eq
          take_bit_nat_eq_self)
  next
    case 2
    then show ?thesis by (simp add: utf8_step_def)
  next
    case 3
    have "unat b mod 32 < 32" "unat (safe_get bs) mod 64 < 64" by simp_all
    then have "unat b mod 32 * 64 + unat (safe_get bs) mod 64 < 0xD800" by linarith
    then have "is_scalar (push_bit 6 (ucast (b AND 0x1F)) OR cont_bits (safe_get bs))"
      by (intro is_scalarI) (simp only: unat_two_bytes simp_thms)
    moreover from 3 have "utf8_char_width b = Suc (Suc 0)" by simp
    ultimately show ?thesis unfolding utf8_step_def by simp
  next
    case 4
    let ?c = "unat (safe_get bs)" and ?d = "unat (safe_get (drop 1 bs))"
    have "(unat b mod 16) * 4096 + (?c mod 64) * 64 + ?d mod 64 < 0xD800 \<or>
        0xE000 \<le> (unat b mod 16) * 4096 + (?c mod 64) * 64 + ?d mod 64 \<and>
        (unat b mod 16) * 4096 + (?c mod 64) * 64 + ?d mod 64 < 0x110000"
      if s: "second_of_three b (safe_get bs)"
    proof -
      from s have b: "224 \<le> unat b" "unat b \<le> 239" and c: "128 \<le> ?c" "?c \<le> 191"
        and gap: "unat b = 237 \<Longrightarrow> ?c \<le> 159"
        by (auto simp: second_of_three_def unat_range)
      from byte_mod(2) [OF b] obtain x where x: "x < 16" "unat b = 224 + x" "unat b mod 16 = x" by blast
      from byte_mod(1) [OF c] obtain y where y: "y < 64" "?c = 128 + y" "?c mod 64 = y" by blast
      have d: "?d mod 64 < 64" by simp
      define z where "z = ?d mod 64"
      have "x < 13 \<or> x = 13 \<and> y < 32 \<or> 14 \<le> x" using gap x(2) y(2) by linarith
      then have "x * 4096 + y * 64 + z < 0xD800 \<or> 0xE000 \<le> x * 4096 + y * 64 + z \<and> x * 4096 + y * 64 + z < 0x110000"
        using x(1) y(1) d unfolding z_def [symmetric] by linarith
      then show ?thesis unfolding x(3) y(3) z_def .
    qed
    then have "is_scalar (push_bit 12 (ucast (b AND 0x0F)) OR push_bit 6 (cont_bits (safe_get bs)) OR
        cont_bits (safe_get (drop 1 bs)))" if "second_of_three b (safe_get bs)"
      using that unfolding is_scalar_def unat_three_bytes by blast
    moreover from 4 have "utf8_char_width b = Suc (Suc (Suc 0))" by simp
    ultimately show ?thesis unfolding utf8_step_def by simp
  next
    case 5
    let ?c = "unat (safe_get bs)" and ?d = "unat (safe_get (drop 1 bs))" and ?e = "unat (safe_get (drop 2 bs))"
    have "0xE000 \<le> (unat b mod 8) * 262144 + (?c mod 64) * 4096 + (?d mod 64) * 64 + ?e mod 64 \<and>
        (unat b mod 8) * 262144 + (?c mod 64) * 4096 + (?d mod 64) * 64 + ?e mod 64 < 0x110000"
      if s: "second_of_four b (safe_get bs)"
    proof -
      from s have b: "240 \<le> unat b" "unat b \<le> 244" and c: "128 \<le> ?c" "?c \<le> 191"
        and low: "unat b = 240 \<Longrightarrow> 144 \<le> ?c" and high: "unat b = 244 \<Longrightarrow> ?c \<le> 143"
        by (auto simp: second_of_four_def unat_range)
      from byte_mod(3) [OF b] obtain x where x: "x < 8" "unat b = 240 + x" "unat b mod 8 = x" by blast
      from byte_mod(1) [OF c] obtain y where y: "y < 64" "?c = 128 + y" "?c mod 64 = y" by blast
      have d: "?d mod 64 < 64" "?e mod 64 < 64" by simp_all
      define z where "z = ?d mod 64"
      define v where "v = ?e mod 64"
      have "x = 0 \<and> 16 \<le> y \<or> 1 \<le> x \<and> x \<le> 3 \<or> x = 4 \<and> y < 16"
        using low high b(2) x(2) y(2) by linarith
      then have "0xE000 \<le> x * 262144 + y * 4096 + z * 64 + v \<and> x * 262144 + y * 4096 + z * 64 + v < 0x110000"
        using y(1) d unfolding z_def [symmetric] v_def [symmetric] by linarith
      then show ?thesis unfolding x(3) y(3) z_def v_def .
    qed
    then have "is_scalar (push_bit 18 (ucast (b AND 0x07)) OR push_bit 12 (cont_bits (safe_get bs)) OR
        push_bit 6 (cont_bits (safe_get (drop 1 bs))) OR cont_bits (safe_get (drop 2 bs)))"
      if "second_of_four b (safe_get bs)"
      using that unfolding is_scalar_def unat_four_bytes by blast
    moreover from 5 have "utf8_char_width b = Suc (Suc (Suc (Suc 0)))" by simp
    ultimately show ?thesis unfolding utf8_step_def by simp
  qed
qed

lemma valid_from_utf8_lossy: "valid_string (from_utf8_lossy bs)"
proof (induction bs rule: from_utf8_lossy.induct)
  case (2 b bs)
  then show ?case using utf8_step_scalar [of b bs] by (cases "utf8_step b bs") simp
qed simp

section \<open>What the decoder of UTF-16 puts out\<close>

lemma unat_u16_limit: "unat (u :: u16) < 65536"
  using unsigned_less [of u, where 'a = nat] by simp

lemma unat_le16_ucast: "unat (ucast (u :: u16) :: u32) = unat u"
proof -
  have "unat u < 2 ^ 32" by (rule less_le_trans [OF unat_u16_limit]) simp
  then have "take_bit 32 (unat u) = unat u" by (rule take_bit_nat_eq_self)
  then show ?thesis by (simp add: unsigned_ucast_eq)
qed

lemma valid_utf16z: "valid_string (utf16z bs)"
proof (induction bs rule: utf16z.induct)
  case (1 a b rest)
  have "is_scalar (if 0xD800 \<le> u \<and> u \<le> 0xDFFF then replacement_char else ucast u)" for u :: u16
  proof -
    have "unat u < 0x110000" by (rule less_le_trans [OF unat_u16_limit]) simp
    then show ?thesis
      by (cases "0xD800 \<le> u \<and> u \<le> 0xDFFF") (auto intro!: is_scalarI simp: unat_le16_ucast word_le_nat_alt)
  qed
  with 1 show ?case by (simp add: Let_def)
qed auto

lemma length_utf16z: "length (utf16z bs) \<le> length bs div 2"
  by (induction bs rule: utf16z.induct) (auto simp: Let_def)

lemma utf16z_no_nul: "0 \<notin> set (utf16z bs)"
proof (induction bs rule: utf16z.induct)
  case (1 a b rest)
  have "u \<noteq> 0 \<Longrightarrow> (ucast u :: u32) \<noteq> 0" for u :: u16
    using unat_le16_ucast [of u] by (metis unat_0 unat_eq_0)
  with 1 show ?case by (auto simp: Let_def replacement_char_def)
qed auto

section \<open>The type of a parsed PAC\<close>

text \<open>A text field of \<open>n\<close> UTF-16 units: a Rust string that a NUL ended or the field did.\<close>

definition is_field_text :: "nat \<Rightarrow> rust_string \<Rightarrow> bool" where
  "is_field_text n s \<longleftrightarrow> valid_string s \<and> 0 \<notin> set s \<and> length s \<le> n"

definition well_formed_entry :: "u8 list \<Rightarrow> pac_entry \<Rightarrow> bool" where
  "well_formed_entry pac e \<longleftrightarrow>
     is_field_text 256 (file_id e) \<and> is_field_text 256 (file_name e) \<and>
     (is_marker e \<or> map_option length (payload e pac) = Some (unat (entry_size e)))"

definition well_formed_pac :: "u8 list \<Rightarrow> pac_info \<Rightarrow> bool" where
  "well_formed_pac pac info \<longleftrightarrow>
     is_field_text 24 (pac_version info) \<and> is_field_text 256 (product_name info) \<and>
     is_field_text 256 (product_version info) \<and> unat (pac_size info) = length pac \<and>
     list_all (well_formed_entry pac) (entries info)"

lemma is_field_text_utf16z: "length bs \<le> 2 * n \<Longrightarrow> is_field_text n (utf16z bs)"
  using length_utf16z [of bs] by (simp add: is_field_text_def valid_utf16z utf16z_no_nul)

lemma table_entry_texts:
  "is_field_text 256 (file_id (table_entry pac off i))" "is_field_text 256 (file_name (table_entry pac off i))"
  by (simp_all add: table_entry_def Let_def is_field_text_utf16z)

lemma entry_in_range_length:
  "entry_in_range pac e \<Longrightarrow> is_marker e \<or> map_option length (payload e pac) = Some (unat (entry_size e))"
  by (auto simp: entry_in_range_def payload_eq is_marker_def)

text \<open>C20: the result of a successful parse is well typed against the file: every text in it is a string
  of Unicode scalar values without NUL that fits its field, also where the file holds unpaired surrogates, its size is the
  file's, and every entry either is a marker or has a payload of exactly its size.\<close>

theorem parsed_pac_is_well_formed:
  assumes "parse pac v = Ok info"
  shows "well_formed_pac pac info"
proof -
  from assms have e: "\<forall>e \<in> set (file_table pac). entry_in_range pac e"
    and info: "info = parsed_info pac v (file_table pac)" and n: "unat (header_u32 pac 48) = length pac"
    by (simp_all add: parse_Ok_iff)
  have "list_all (well_formed_entry pac) (file_table pac)"
    using e entry_in_range_length
    by (auto simp: list_all_iff well_formed_entry_def file_table_def table_entry_texts)
  then show ?thesis
    by (simp add: well_formed_pac_def info parsed_info_def n is_field_text_utf16z)
qed

theorem parsed_pac_is_well_formed_witness:
  "\<exists>info. parse (demo_pac [0xAA, 0xBB]) True = Ok info \<and> well_formed_pac (demo_pac [0xAA, 0xBB]) info"
proof -
  have "length [0xAA, 0xBB :: u8] = 2" by simp
  from demo_parses [OF this] have "\<exists>info. parse (demo_pac [0xAA, 0xBB]) True = Ok info"
    unfolding demo_pac_def by blast
  with parsed_pac_is_well_formed show ?thesis by blast
qed

end
