(* ===== verification/Metrics.thy ===== *)
theory Metrics
  imports Station Utf8
begin

text \<open>
  The counters of \<open>crates/sprdflash-line/src/metrics.rs\<close>: the 64-bit atomics, the four
  \<open>fetch_add\<close>s of \<open>Metrics::record\<close> as separate steps, since the stations run them concurrently,
  and the Prometheus text. A counter is addressed by its number and each step adds an amount to
  one counter; the line's accounts rest on that. The decimal text of a floating-point number of
  seconds is a parameter, and times are milliseconds as in \<open>Station\<close>. The server is in \<open>Exporter\<close>.
\<close>

section \<open>Counters\<close>

record metrics =
  m_passed :: u64
  m_failed :: u64
  m_retries :: u64
  m_bytes :: u64
  m_flash_millis :: u64
  m_started :: nat

definition metrics_default :: "nat \<Rightarrow> metrics" where
  "metrics_default t =
     \<lparr>m_passed = 0, m_failed = 0, m_retries = 0, m_bytes = 0, m_flash_millis = 0, m_started = t\<rparr>"

definition extra_attempts :: "unit_record \<Rightarrow> u64" where
  "extra_attempts rec = ucast (if rec_attempts rec = 0 then 0 else rec_attempts rec - 1)"

text \<open>The cast of the milliseconds to \<open>u64\<close> saturates.\<close>

definition flash_amount :: "unit_record \<Rightarrow> u64" where
  "flash_amount rec = word_of_nat (min (rec_flash_ms rec) 0xFFFFFFFFFFFFFFFF)"

text \<open>The four atomic additions of \<open>record\<close>, in program order.\<close>

definition count_step :: "nat \<Rightarrow> unit_record \<Rightarrow> metrics \<Rightarrow> metrics" where
  "count_step k rec m =
     (if k = 0
      then (case rec_result rec of
              Pass \<Rightarrow> m\<lparr>m_passed := m_passed m + 1\<rparr>
            | Fail \<Rightarrow> m\<lparr>m_failed := m_failed m + 1\<rparr>)
      else if k = 1 then m\<lparr>m_retries := m_retries m + extra_attempts rec\<rparr>
      else if k = 2 then m\<lparr>m_bytes := m_bytes m + word_of_nat (rec_bytes rec)\<rparr>
      else m\<lparr>m_flash_millis := m_flash_millis m + flash_amount rec\<rparr>)"

definition COUNT_STEPS :: nat where
  "COUNT_STEPS = 4"

definition metrics_record :: "unit_record \<Rightarrow> metrics \<Rightarrow> metrics" where
  "metrics_record rec m = fold (\<lambda>k. count_step k rec) [0..<COUNT_STEPS] m"

definition totals :: "metrics \<Rightarrow> u64 \<times> u64" where
  "totals m = (m_passed m, m_failed m)"

section \<open>The Prometheus text\<close>

definition metric_line :: "string \<Rightarrow> rust_string \<Rightarrow> rust_string" where
  "metric_line name val = str name @ val @ [10]"

definition text_line :: "string \<Rightarrow> rust_string" where
  "text_line s = str s @ [10]"

definition render :: "(nat \<Rightarrow> rust_string) \<Rightarrow> nat \<Rightarrow> metrics \<Rightarrow> rust_string" where
  "render seconds_text t m =
     text_line ''# HELP sprdflash_units_total Units flashed, by result.'' @
     text_line ''# TYPE sprdflash_units_total counter'' @
     metric_line ''sprdflash_units_total{result=\"pass\"} '' (fmt_dec (unat (m_passed m))) @
     metric_line ''sprdflash_units_total{result=\"fail\"} '' (fmt_dec (unat (m_failed m))) @
     text_line ''# HELP sprdflash_retries_total Retry attempts beyond the first.'' @
     text_line ''# TYPE sprdflash_retries_total counter'' @
     metric_line ''sprdflash_retries_total '' (fmt_dec (unat (m_retries m))) @
     text_line ''# HELP sprdflash_bytes_total Payload bytes written.'' @
     text_line ''# TYPE sprdflash_bytes_total counter'' @
     metric_line ''sprdflash_bytes_total '' (fmt_dec (unat (m_bytes m))) @
     text_line ''# HELP sprdflash_flash_seconds_total Sum of flash wall-clock seconds.'' @
     text_line ''# TYPE sprdflash_flash_seconds_total counter'' @
     metric_line ''sprdflash_flash_seconds_total '' (seconds_text (unat (m_flash_millis m))) @
     text_line ''# HELP sprdflash_uptime_seconds Exporter uptime.'' @
     text_line ''# TYPE sprdflash_uptime_seconds gauge'' @
     metric_line ''sprdflash_uptime_seconds '' (seconds_text (t - m_started m))"

definition http_response :: "rust_string \<Rightarrow> rust_string" where
  "http_response body =
     str ''HTTP/1.1 200 OK'' @ [13, 10] @ str ''Content-Type: text/plain; version=0.0.4'' @ [13, 10] @
     str ''Content-Length: '' @ fmt_dec (length (utf8_bytes body)) @ [13, 10] @
     str ''Connection: close'' @ [13, 10, 13, 10] @ body"

section \<open>Each step adds an amount to one counter\<close>

definition counters :: "metrics \<Rightarrow> u64 list" where
  "counters m = [m_passed m, m_failed m, m_retries m, m_bytes m, m_flash_millis m]"

definition amounts :: "unit_record \<Rightarrow> u64 list" where
  "amounts rec =
     [of_bool (rec_result rec = Pass), of_bool (rec_result rec = Fail), extra_attempts rec,
      word_of_nat (rec_bytes rec), flash_amount rec]"

text \<open>The step that adds to counter \<open>c\<close>.\<close>

definition step_of :: "nat \<Rightarrow> nat" where
  "step_of c = c - 1"

lemma counter_cases:
  fixes c :: nat
  assumes "c < 5"
  obtains "c = 0" | "c = 1" | "c = 2" | "c = 3" | "c = 4"
  using assms by linarith

lemma counter_step:
  assumes "c < 5" "k < COUNT_STEPS"
  shows "counters (count_step k rec m) ! c = counters m ! c + (if step_of c = k then amounts rec ! c else 0)"
  using assms(1) assms(2)
  by (cases rule: counter_cases)
    (auto simp: counters_def amounts_def step_of_def count_step_def COUNT_STEPS_def split: outcome.splits)

lemma metrics_record_counters:
  assumes "c < 5"
  shows "counters (metrics_record rec m) ! c = counters m ! c + amounts rec ! c"
proof -
  have "[0..<COUNT_STEPS] = [0, 1, 2, 3]" by (simp add: COUNT_STEPS_def upt_rec)
  then have "metrics_record rec m = count_step 3 rec (count_step 2 rec (count_step 1 rec (count_step 0 rec m)))"
    by (simp add: metrics_record_def)
  moreover have "step_of c < 4" using assms by (simp add: step_of_def)
  ultimately show ?thesis using assms by (auto simp: counter_step COUNT_STEPS_def)
qed

end
