(* ===== verification/Line.thy ===== *)
theory Line
  imports Metrics Complex_Main "HOL-Library.Multiset"
begin

text \<open>
  The line of \<open>crates/sprdflash-line/src/line.rs\<close>: the station threads of \<open>run\<close> as an
  interleaving of steps on the shared state (the atomic counters, the sink and the list of recent
  records behind their mutexes, the stop flag). A step is what one thread does without being
  observed by another: a whole unit (the stations share nothing else; what their neighbours do to
  the devices is part of the bench), one atomic addition, one critical section, one load of the
  stop flag. \<open>line_step\<close> executes an event, \<open>line_runs\<close> relates the events of a run to the state
  they lead to. The records file is opened in \<open>Program\<close> (\<open>line_start\<close>), its text is in \<open>Messages\<close>;
  the exporter thread, which only reads the counters, is in \<open>Exporter\<close>.
\<close>

section \<open>State\<close>

record line_config =
  ln_stations :: "station_config list"
  ln_format :: bool
  ln_chunk :: nat
  ln_verify :: bool
  ln_retries :: u32
  ln_work_order :: "rust_string option"
  ln_operator :: "rust_string option"
  ln_records_path :: "rust_string option"
  ln_metrics_addr :: "rust_string option"
  ln_continuous :: bool

record line_summary =
  sum_records :: "unit_record list"
  sum_total :: nat
  sum_passed :: nat
  sum_failed :: nat
  sum_wall_ms :: nat
  sum_units_per_hour :: rat

definition RECENT_KEEP :: nat where
  "RECENT_KEEP = 500"

definition line_job :: "line_config \<Rightarrow> pac_info \<Rightarrow> u8 list \<Rightarrow> rust_string \<Rightarrow> unit_job" where
  "line_job cfg info pac pac_name =
     \<lparr>job_info = info, job_pac = pac, job_pac_name = pac_name,
      job_opts = default_options\<lparr>opt_format := ln_format cfg, opt_chunk := ln_chunk cfg, opt_reset := True\<rparr>,
      job_verify = ln_verify cfg, job_retries = ln_retries cfg,
      job_work_order = ln_work_order cfg, job_operator = ln_operator cfg\<rparr>"

text \<open>Where a station's thread stands in its loop: \<open>Counting k rec\<close> has made \<open>k\<close> of the additions.\<close>

datatype phase =
    Working
  | Counting nat unit_record
  | Logging unit_record
  | Storing unit_record
  | Deciding
  | Waiting
  | Finished

record line_state =
  ls_phases :: "phase list"
  ls_metrics :: metrics
  ls_sink :: "unit_record list option"
  ls_recent :: "unit_record list"
  ls_stop :: bool
  ls_aborted :: bool

definition line_init :: "line_config \<Rightarrow> nat \<Rightarrow> unit_record list option \<Rightarrow> line_state" where
  "line_init cfg t sink =
     \<lparr>ls_phases = replicate (length (ln_stations cfg)) Working, ls_metrics = metrics_default t,
      ls_sink = sink, ls_recent = [], ls_stop = False, ls_aborted = False\<rparr>"

section \<open>Steps\<close>

text \<open>The station's unit ended, one addition, the write of the record (which may fail), the critical
  section on the recent records, the test at the end of the loop, the end of the waits, and the
  stop flag being set.\<close>

datatype line_event =
    Ran nat "(unit_record, unit) result"
  | Counted nat
  | Logged nat unit_record bool
  | Stored nat unit_record
  | Decided nat
  | Resumed nat
  | Stop

definition goto :: "nat \<Rightarrow> phase \<Rightarrow> line_state \<Rightarrow> line_state" where
  "goto i p s = s\<lparr>ls_phases := (ls_phases s)[i := p]\<rparr>"

definition push_recent :: "bool \<Rightarrow> unit_record \<Rightarrow> unit_record list \<Rightarrow> unit_record list" where
  "push_recent endless rec rs =
     (let r = rs @ [rec]
      in if endless \<and> RECENT_KEEP < length r then drop (length r - RECENT_KEEP) r else r)"

definition phase_at :: "line_state \<Rightarrow> nat \<Rightarrow> phase option" where
  "phase_at s i = (if i < length (ls_phases s) then Some (ls_phases s ! i) else None)"

text \<open>\<open>None\<close> when the event cannot happen. A panicking thread aborts the process.\<close>

fun line_event_step :: "line_config \<Rightarrow> line_event \<Rightarrow> line_state \<Rightarrow> line_state option" where
  "line_event_step cfg (Ran i r) s =
     (if phase_at s i = Some Working
      then (case r of
              Ok rec \<Rightarrow> Some (goto i (Counting 0 rec) s)
            | _ \<Rightarrow> Some (s\<lparr>ls_aborted := True\<rparr>))
      else None)"
| "line_event_step cfg (Counted i) s =
     (case phase_at s i of
        Some (Counting k rec) \<Rightarrow>
          Some (goto i (if k + 1 < COUNT_STEPS then Counting (k + 1) rec else Logging rec)
            (s\<lparr>ls_metrics := count_step k rec (ls_metrics s)\<rparr>))
      | _ \<Rightarrow> None)"
| "line_event_step cfg (Logged i rec written) s =
     (if phase_at s i = Some (Logging rec) \<and> (written \<longrightarrow> ls_sink s \<noteq> None)
      then Some (goto i (Storing rec)
        (s\<lparr>ls_sink := (if written then map_option (\<lambda>f. f @ [rec]) (ls_sink s) else ls_sink s)\<rparr>))
      else None)"
| "line_event_step cfg (Stored i rec) s =
     (if phase_at s i = Some (Storing rec)
      then Some (goto i Deciding (s\<lparr>ls_recent := push_recent (ln_continuous cfg) rec (ls_recent s)\<rparr>))
      else None)"
| "line_event_step cfg (Decided i) s =
     (if phase_at s i = Some Deciding
      then Some (goto i (if \<not> ln_continuous cfg \<or> ls_stop s then Finished else Waiting) s)
      else None)"
| "line_event_step cfg (Resumed i) s =
     (if phase_at s i = Some Waiting then Some (goto i Working s) else None)"
| "line_event_step cfg Stop s = Some (s\<lparr>ls_stop := True\<rparr>)"

definition line_step :: "line_config \<Rightarrow> line_event \<Rightarrow> line_state \<Rightarrow> line_state option" where
  "line_step cfg e s = (if ls_aborted s then None else line_event_step cfg e s)"

text \<open>What a unit of station \<open>i\<close> may end in: a result of \<open>run_unit\<close> from some state of the bench.\<close>

fun may_happen :: "'w bench \<Rightarrow> line_config \<Rightarrow> unit_job \<Rightarrow> line_event \<Rightarrow> bool" where
  "may_happen B cfg job (Ran i r) \<longleftrightarrow>
     i < length (ln_stations cfg) \<and> (\<exists>w w'. run_unit B (ln_stations cfg ! i) job w = Some (r, w'))"
| "may_happen B cfg job e \<longleftrightarrow> True"

inductive line_runs ::
    "'w bench \<Rightarrow> line_config \<Rightarrow> unit_job \<Rightarrow> line_state \<Rightarrow> line_event list \<Rightarrow> line_state \<Rightarrow> bool"
  for B :: "'w bench" and cfg :: line_config and job :: unit_job and s0 :: line_state
where
  start: "line_runs B cfg job s0 [] s0"
| step: "line_runs B cfg job s0 evs s \<Longrightarrow> may_happen B cfg job e \<Longrightarrow> line_step cfg e s = Some s' \<Longrightarrow>
    line_runs B cfg job s0 (evs @ [e]) s'"

definition line_over :: "line_state \<Rightarrow> bool" where
  "line_over s \<longleftrightarrow> ls_aborted s \<or> (\<forall>p \<in> set (ls_phases s). p = Finished)"

section \<open>The summary\<close>

definition summarize :: "nat \<Rightarrow> line_state \<Rightarrow> (line_summary, unit) result" where
  "summarize wall_ms s =
     (let (p, f) = totals (ls_metrics s); passed = unat p; failed = unat f
      in if passed + failed < usize_limit
         then Ok \<lparr>sum_records = ls_recent s, sum_total = passed + failed, sum_passed = passed,
                  sum_failed = failed, sum_wall_ms = wall_ms,
                  sum_units_per_hour = (if 0 < wall_ms then of_nat passed * 3600000 / of_nat wall_ms else 0)\<rparr>
         else Panic)"

text \<open>The result of \<open>run\<close> once its threads have ended; \<open>None\<close> while they run.\<close>

definition line_result :: "nat \<Rightarrow> line_state \<Rightarrow> (line_summary, unit) result option" where
  "line_result wall_ms s =
     (if ls_aborted s then Some Panic
      else if line_over s then Some (summarize wall_ms s)
      else None)"

end
