(* ===== verification/Reconstruct.thy ===== *)
theory Reconstruct
  imports Checksum Rust_Text
begin

text \<open>
  The layout reconstruction of \<open>crates/sprdflash-core/src/reconstruct.rs\<close>: from a full NOR
  dump to a list of regions. Phase 1 walks the erase blocks at the front and anchors code
  images and script packs; phase 2 splits the back half by its longest run of blocks with one
  generation counter; the last loop turns anchors into regions. An anchor is what the code
  knows of a region's start, a region adds its reserved and used sizes.
\<close>

section \<open>Data\<close>

definition NOR_BASE :: u32 where
  "NOR_BASE = 0x60000000"

definition BLOCK :: nat where
  "BLOCK = 65536"

definition UIMAGE_MAGIC :: u32 where
  "UIMAGE_MAGIC = 0x27051956"

definition UIMAGE_HDR :: nat where
  "UIMAGE_HDR = 64"

definition LUADB_MAGIC :: "u8 list" where
  "LUADB_MAGIC = [0x5A, 0xA5, 0x5A, 0xA5]"

datatype confidence = Verified | Derived | Heuristic

fun confidence_tag :: "confidence \<Rightarrow> string" where
  "confidence_tag Verified = ''verified''"
| "confidence_tag Derived = ''derived''"
| "confidence_tag Heuristic = ''heuristic''"

record region =
  region_id :: rust_string
  phys_addr :: u32
  reserved_size :: u32
  used_size :: u32
  region_kind :: string
  region_confidence :: confidence
  region_detail :: rust_string

record anchor =
  anchor_off :: nat
  anchor_kind :: string
  anchor_used :: nat
  anchor_conf :: confidence
  anchor_detail :: rust_string

section \<open>Probing one offset\<close>

definition round_up :: "nat \<Rightarrow> nat \<Rightarrow> nat" where
  "round_up v to = (v + to - 1) div to * to"

text \<open>The loop of \<open>used_len\<close>: the counter \<open>i\<close> walks down over the erase padding.\<close>

fun used_scan :: "u8 list \<Rightarrow> nat \<Rightarrow> nat \<Rightarrow> nat" where
  "used_scan img start i =
     (if start < i \<and> img ! (i - 1) = 0xFF then used_scan img start (i - 1) else i)"

declare used_scan.simps [simp del]

definition used_len :: "u8 list \<Rightarrow> nat \<Rightarrow> nat \<Rightarrow> (nat, unit) result" where
  "used_len img start limit = sub_usize (used_scan img start (min limit (length img))) start"

definition uimage_name :: "u8 list \<Rightarrow> rust_string" where
  "uimage_name raw =
     from_utf8_lossy (take (case position (\<lambda>b. b = 0) raw of None \<Rightarrow> length raw | Some i \<Rightarrow> i) raw)"

definition uimage_detail :: "rust_string \<Rightarrow> bool \<Rightarrow> bool \<Rightarrow> rust_string" where
  "uimage_detail name hcrc_ok dcrc_ok =
     str ''uImage'' @ (if name = [] then [] else str '' '' @ [39]) @
     (if name = [] then [] else name @ [39]) @
     str '' hcrc='' @ (if hcrc_ok then str ''ok'' else str ''BAD'') @
     str '' dcrc='' @ (if dcrc_ok then str ''ok'' else str ''BAD'')"

definition detect_uimage :: "u8 list \<Rightarrow> nat \<Rightarrow> (anchor option, unit) result" where
  "detect_uimage img off =
     (if length img < off + UIMAGE_HDR then Ok None
      else
        rbind (be32_at img off) (\<lambda>magic.
          if magic \<noteq> UIMAGE_MAGIC then Ok None
          else
            rbind (be32_at img (off + 0x0C)) (\<lambda>size32.
              let used = UIMAGE_HDR + unat size32 in
              if length img < off + used then Ok None
              else
                rbind (slice img off (off + UIMAGE_HDR)) (\<lambda>hdr.
                rbind (be32_at img (off + 0x04)) (\<lambda>hcrc.
                rbind (slice img (off + UIMAGE_HDR) (off + used)) (\<lambda>body.
                rbind (be32_at img (off + 0x18)) (\<lambda>dcrc.
                rbind (slice img (off + 0x20) (off + UIMAGE_HDR)) (\<lambda>raw.
                  let hcrc_ok = crc32 (hdr[4 := 0, 5 := 0, 6 := 0, 7 := 0]) = hcrc;
                      dcrc_ok = crc32 body = dcrc
                  in Ok (Some \<lparr>anchor_off = off, anchor_kind = ''uimage'', anchor_used = used,
                               anchor_conf = (if hcrc_ok \<and> dcrc_ok then Verified else Derived),
                               anchor_detail = uimage_detail (uimage_name raw) hcrc_ok dcrc_ok\<rparr>)))))))))"

definition detect_luadb :: "u8 list \<Rightarrow> nat \<Rightarrow> anchor option" where
  "detect_luadb img off =
     (if get_range img (off + 2) (off + 6) = Some LUADB_MAGIC
      then Some \<lparr>anchor_off = off, anchor_kind = ''luadb'', anchor_used = 0, anchor_conf = Derived,
                 anchor_detail =
                   str ''LuatOS luadb script pack (the app/script region; a PAC may call it LUA/APP)''\<rparr>
      else None)"

definition fs_generation :: "u8 list \<Rightarrow> nat \<Rightarrow> u16 option" where
  "fs_generation img off =
     (if length img < off + 4 then None
      else if img ! (off + 2) = 0 \<and> img ! (off + 3) = 0
      then (let g = from_le16 (img ! off) (img ! (off + 1)) in if g \<noteq> 0 then Some g else None)
      else None)"

section \<open>Phase 1: the front of the flash\<close>

lemma detect_uimage_Some:
  "detect_uimage img off = Ok (Some a) \<Longrightarrow>
     anchor_off a = off \<and> 64 \<le> anchor_used a \<and> off + anchor_used a \<le> length img \<and>
     anchor_kind a = ''uimage''"
  by (auto simp: detect_uimage_def UIMAGE_HDR_def rbind_eq_Ok Let_def not_less split: if_splits)

lemma round_up_ge: "0 < to \<Longrightarrow> v \<le> round_up v to"
proof -
  assume to: "0 < to"
  have "v + to - 1 < (v + to - 1) div to * to + to"
    using to by (metis add.commute div_mult_mod_eq mod_less_divisor nat_add_left_cancel_less)
  with to show ?thesis by (simp add: round_up_def)
qed

lemma round_up_dvd: "to dvd round_up v to"
  by (simp add: round_up_def)

lemma round_up_less: "0 < to \<Longrightarrow> round_up v to < v + to"
proof -
  assume "0 < to"
  moreover have "round_up v to \<le> v + to - 1" by (simp add: round_up_def)
  ultimately show ?thesis by linarith
qed

lemma BLOCK_pos [simp]: "0 < BLOCK"
  by (simp add: BLOCK_def)

function phase1 :: "u8 list \<Rightarrow> nat \<Rightarrow> anchor list \<Rightarrow> (nat \<times> anchor list, unit) result" where
  "phase1 img off segs =
     (if off + BLOCK \<le> length img
      then (case detect_uimage img off of
              Panic \<Rightarrow> Panic
            | Err e \<Rightarrow> Err e
            | Ok (Some a) \<Rightarrow> phase1 img (round_up (off + anchor_used a) BLOCK) (segs @ [a])
            | Ok None \<Rightarrow>
                (case detect_luadb img off of
                   Some a \<Rightarrow> phase1 img (off + BLOCK) (segs @ [a])
                 | None \<Rightarrow>
                     if fs_generation img off \<noteq> None then Ok (off, segs)
                     else phase1 img (off + BLOCK) segs))
      else Ok (off, segs))"
  by pat_completeness auto
termination
proof (relation "measure (\<lambda>(img, off, segs). length img - off)")
  fix img off segs r a
  assume "off + BLOCK \<le> length img" and "detect_uimage img off = Ok r" and "r = Some a"
  with detect_uimage_Some [of img off a] round_up_ge [of BLOCK "off + anchor_used a"]
  show "((img, round_up (off + anchor_used a) BLOCK, segs @ [a]), img, off, segs)
      \<in> measure (\<lambda>(img, off, segs). length img - off)"
    using diff_less_mono2 [of off "round_up (off + anchor_used a) BLOCK" "length img"] BLOCK_pos
    by simp
qed (auto simp: BLOCK_def)

declare phase1.simps [simp del]

section \<open>Phase 2: the wear-levelled back half\<close>

text \<open>\<open>(start..n).step_by(BLOCK)\<close>, and the blocks that lie in the img with their counter.\<close>

definition step_offsets :: "nat \<Rightarrow> nat \<Rightarrow> nat list" where
  "step_offsets start n = map (\<lambda>k. start + k * BLOCK) [0..<(n - start + BLOCK - 1) div BLOCK]"

definition backhalf_blocks :: "u8 list \<Rightarrow> nat \<Rightarrow> nat \<Rightarrow> (nat \<times> u16 option) list" where
  "backhalf_blocks img start n =
     map (\<lambda>at. (at, fs_generation img at)) (filter (\<lambda>at. at + BLOCK \<le> n) (step_offsets start n))"

function run_end :: "(nat \<times> u16 option) list \<Rightarrow> u16 \<Rightarrow> nat \<Rightarrow> nat" where
  "run_end blocks g j =
     (if j < length blocks \<and> snd (blocks ! j) = Some g then run_end blocks g (j + 1) else j)"
  by pat_completeness auto
termination
  by (relation "measure (\<lambda>(blocks, g, j). length blocks - j)") auto

declare run_end.simps [simp del]

lemma run_end_ge: "j \<le> run_end blocks g j"
  by (induction blocks g j rule: run_end.induct) (subst run_end.simps, auto)

function longest_run :: "(nat \<times> u16 option) list \<Rightarrow> nat \<Rightarrow> nat \<Rightarrow> nat \<Rightarrow> nat \<times> nat" where
  "longest_run blocks i best_i best_len =
     (if i < length blocks
      then (case snd (blocks ! i) of
              Some g \<Rightarrow>
                (let j = run_end blocks g (i + 1)
                 in if best_len < j - i then longest_run blocks j i (j - i)
                    else longest_run blocks j best_i best_len)
            | None \<Rightarrow> longest_run blocks (i + 1) best_i best_len)
      else (best_i, best_len))"
  by pat_completeness auto
termination
proof (relation "measure (\<lambda>(blocks, i, best_i, best_len). length blocks - i)")
  fix blocks :: "(nat \<times> u16 option) list" and i best_i best_len j :: nat and g
  assume "i < length blocks" and "j = run_end blocks g (i + 1)"
  with run_end_ge [of "i + 1" blocks g]
  show "((blocks, j, i, j - i), blocks, i, best_i, best_len)
      \<in> measure (\<lambda>(blocks, i, best_i, best_len). length blocks - i)"
    and "((blocks, j, best_i, best_len), blocks, i, best_i, best_len)
      \<in> measure (\<lambda>(blocks, i, best_i, best_len). length blocks - i)"
    by simp_all
qed auto

declare longest_run.simps [simp del]

definition fs_anchor :: "nat \<Rightarrow> rust_string \<Rightarrow> anchor" where
  "fs_anchor off detail =
     \<lparr>anchor_off = off, anchor_kind = ''filesystem'', anchor_used = 0, anchor_conf = Heuristic,
      anchor_detail = detail\<rparr>"

definition segment_backhalf :: "u8 list \<Rightarrow> nat \<Rightarrow> nat \<Rightarrow> (anchor list, unit) result" where
  "segment_backhalf img start n =
     (if n \<le> start then Ok []
      else
        let blocks = backhalf_blocks img start n;
            (best_i, best_len) = longest_run blocks 0 0 0
        in if best_len = 0 then Ok [fs_anchor start (str ''unclassified back-half region'')]
           else
             rbind (index blocks best_i) (\<lambda>block.
               let fs_start = fst block;
                   fs_end = fs_start + best_len * BLOCK;
                   generation = (case snd block of Some g \<Rightarrow> g | None \<Rightarrow> 0)
               in Ok ((if start < fs_start
                       then [fs_anchor start (str ''NOR-FS staging (mixed generations)'')] else []) @
                      [fs_anchor fs_start
                         (str ''NOR-FS, longest single-generation run (gen '' @
                          fmt_hex (unat generation) @ str '', '' @ fmt_dec best_len @ str '' blocks)'')] @
                      (if fs_end < n
                       then [fs_anchor fs_end (str ''NOR-FS top region (factory/NV)'')] else []))))"

section \<open>Anchors to regions\<close>

text \<open>
  The last loop of \<open>reconstruct\<close>; \<open>counts\<close> is the per-kind counter map. The conversions
  \<open>as u32\<close> truncate, and the base address is added with an overflow check.
\<close>

fun assign_regions ::
    "u8 list \<Rightarrow> u32 \<Rightarrow> nat \<Rightarrow> anchor list \<Rightarrow> (string \<rightharpoonup> nat) \<Rightarrow> region list \<Rightarrow> (region list, unit) result"
where
  "assign_regions img phys_base n [] counts out = Ok out"
| "assign_regions img phys_base n (a # rest) counts out =
     (let next = (case rest of [] \<Rightarrow> n | b # _ \<Rightarrow> anchor_off b) in
      rbind (sub_usize next (anchor_off a)) (\<lambda>reserved.
      rbind (if anchor_kind a = ''uimage'' then Ok (anchor_used a)
             else used_len img (anchor_off a) next) (\<lambda>used.
      rbind (add_u32 phys_base (word_of_nat (anchor_off a))) (\<lambda>addr.
        let kind = (if anchor_kind a = ''filesystem'' \<and> rest = [] then ''nv'' else anchor_kind a);
            idx = (case counts kind of None \<Rightarrow> 0 | Some k \<Rightarrow> k)
        in assign_regions img phys_base n rest (counts(kind \<mapsto> idx + 1))
             (out @ [\<lparr>region_id = str kind @ str ''_'' @ fmt_dec idx, phys_addr = addr,
                      reserved_size = word_of_nat reserved, used_size = word_of_nat used,
                      region_kind = kind, region_confidence = anchor_conf a,
                      region_detail = anchor_detail a\<rparr>])))))"

definition layout_anchors :: "u8 list \<Rightarrow> (anchor list, unit) result" where
  "layout_anchors img =
     rbind (phase1 img 0 []) (\<lambda>(off, segs).
     rbind (segment_backhalf img (min off (length img)) (length img)) (\<lambda>back.
       Ok (segs @ back)))"

definition reconstruct :: "u8 list \<Rightarrow> u32 \<Rightarrow> (region list, unit) result" where
  "reconstruct img phys_base =
     rbind (layout_anchors img) (\<lambda>segs.
       assign_regions img phys_base (length img) segs Map.empty [])"

section \<open>The scheme file\<close>

definition xml_prologue :: rust_string where
  "xml_prologue =
     str ''<?xml version='' @ [34] @ str ''1.0'' @ [34] @ str '' encoding='' @ [34] @ str ''utf-8'' @ [34] @
     str ''?>'' @ [10] @ str ''<BMAConfig>'' @ [10] @ str ''  <SchemeList>'' @ [10] @
     str ''    <Scheme name='' @ [34] @ str ''RECONSTRUCTED_FROM_DUMP'' @ [34] @ str ''>'' @ [10] @
     str ''      <!-- Physical geometry derived from a full flash dump. Bases/sizes are derived; names are conventional guesses; FDL/erase/control entries are not recoverable. -->'' @ [10]"

definition region_xml :: "region \<Rightarrow> rust_string" where
  "region_xml r =
     str ''      <File>'' @ [10] @ str ''        <ID>'' @ region_id r @ str ''</ID>'' @ [10] @
     str ''        <Type>'' @ str (region_kind r) @ str ''</Type>'' @ [10] @
     str ''        <Block>'' @ [10] @
     str ''          <Base>'' @ fmt_hex8 (unat (phys_addr r)) @ str ''</Base>'' @ [10] @
     str ''          <Size>'' @ fmt_hex (unat (reserved_size r)) @ str ''</Size>'' @ [10] @
     str ''        </Block>'' @ [10] @
     str ''        <Description>'' @ str (confidence_tag (region_confidence r)) @ str '' | used '' @
     fmt_hex (unat (used_size r)) @ str '' | '' @ region_detail r @ str ''</Description>'' @ [10] @
     str ''      </File>'' @ [10]"

definition to_bmaconfig_xml :: "region list \<Rightarrow> rust_string" where
  "to_bmaconfig_xml regions =
     foldl (\<lambda>s r. s @ region_xml r) xml_prologue regions @
     str ''    </Scheme>'' @ [10] @ str ''  </SchemeList>'' @ [10] @ str ''</BMAConfig>'' @ [10]"

section \<open>The anchors are in order and inside the image\<close>

text \<open>\<open>anchored n lo as\<close>: the anchors lie in \<open>[lo, n)\<close> in ascending order, none inside the used
  part of the one before.\<close>

fun anchored :: "nat \<Rightarrow> nat \<Rightarrow> anchor list \<Rightarrow> bool" where
  "anchored n lo [] \<longleftrightarrow> True"
| "anchored n lo (a # rest) \<longleftrightarrow>
     lo \<le> anchor_off a \<and> anchor_off a < n \<and> anchor_off a + anchor_used a \<le> n \<and>
     anchored n (anchor_off a + max 1 (anchor_used a)) rest"

lemma anchored_mono: "anchored n lo segs \<Longrightarrow> lo' \<le> lo \<Longrightarrow> anchored n lo' segs"
  by (cases segs) auto

lemma anchored_append:
  assumes "anchored n lo segs" and "\<forall>a \<in> set segs. anchor_off a + max 1 (anchor_used a) \<le> mid"
    and "anchored n mid back" and "lo \<le> mid"
  shows "anchored n lo (segs @ back)"
  using assms by (induction segs arbitrary: lo) (auto intro: anchored_mono)

lemma detect_uimage_ok: "\<exists>r. detect_uimage img off = Ok r"
  by (auto simp: detect_uimage_def UIMAGE_HDR_def Let_def not_less)

lemma detect_luadb_Some:
  "detect_luadb img off = Some a \<Longrightarrow>
     anchor_off a = off \<and> anchor_used a = 0 \<and> anchor_kind a = ''luadb'' \<and> anchor_conf a = Derived"
  by (auto simp: detect_luadb_def split: if_splits)

lemma phase1_anchored:
  "\<exists>off' new. phase1 img off segs = Ok (off', segs @ new) \<and> anchored (length img) off new \<and>
     off \<le> off' \<and>
     (\<forall>a \<in> set new. anchor_off a + max 1 (anchor_used a) \<le> min off' (length img))"
proof (induction img off segs rule: phase1.induct)
  case (1 img off segs)
  show ?case
  proof (cases "off + BLOCK \<le> length img")
    case False
    then show ?thesis by (subst phase1.simps) simp
  next
    case in_image: True
    obtain r where r: "detect_uimage img off = Ok r" using detect_uimage_ok by blast
    have step: ?thesis
      if a: "anchor_off a = off" "off + max 1 (anchor_used a) \<le> next" "off + max 1 (anchor_used a) \<le> length img"
        and IH: "\<exists>off' new. phase1 img next (segs @ [a]) = Ok (off', (segs @ [a]) @ new) \<and>
            anchored (length img) next new \<and> next \<le> off' \<and>
            (\<forall>a \<in> set new. anchor_off a + max 1 (anchor_used a) \<le> min off' (length img))"
        and eq: "phase1 img off segs = phase1 img next (segs @ [a])" for a "next"
    proof -
      from IH obtain off' new where "phase1 img next (segs @ [a]) = Ok (off', segs @ a # new)"
        "anchored (length img) next new" "next \<le> off'"
        "\<forall>a \<in> set new. anchor_off a + max 1 (anchor_used a) \<le> min off' (length img)" by auto
      with a eq show ?thesis
        by (intro exI [of _ off'] exI [of _ "a # new"]) (auto intro: anchored_mono)
    qed
    show ?thesis
    proof (cases r)
      case (Some a)
      note u = detect_uimage_Some [OF r [unfolded Some]]
      show ?thesis
      proof (rule step [of a "round_up (off + anchor_used a) BLOCK"])
        show "phase1 img off segs = phase1 img (round_up (off + anchor_used a) BLOCK) (segs @ [a])"
          using in_image r Some by (subst phase1.simps) simp
      qed (use u round_up_ge [of BLOCK "off + anchor_used a"] "1.IH"(3) [OF in_image r Some] in simp_all)
    next
      case uimage: None
      show ?thesis
      proof (cases "detect_luadb img off")
        case (Some a)
        note l = detect_luadb_Some [OF Some]
        show ?thesis
        proof (rule step [of a "off + BLOCK"])
          show "phase1 img off segs = phase1 img (off + BLOCK) (segs @ [a])"
            using in_image r uimage Some by (subst phase1.simps) simp
          show "off + max 1 (anchor_used a) \<le> length img"
            using l in_image by (simp add: BLOCK_def)
        qed (use l "1.IH"(2) [OF in_image r uimage Some] in \<open>simp_all add: BLOCK_def\<close>)
      next
        case None
        show ?thesis
        proof (cases "fs_generation img off")
          case (Some g)
          then show ?thesis using in_image r uimage None by (subst phase1.simps) simp
        next
          case gen: None
          have mono: "anchored n (off + BLOCK) new \<Longrightarrow> anchored n off new" for n new
            by (erule anchored_mono) simp
          have "phase1 img off segs = phase1 img (off + BLOCK) segs"
            using in_image r uimage None gen by (subst phase1.simps) simp
          with "1.IH"(1) [OF in_image r uimage None] gen mono show ?thesis by auto
        qed
      qed
    qed
  qed
qed

lemma backhalf_blocks_eq:
  assumes "start \<le> n"
  shows "backhalf_blocks img start n =
    map (\<lambda>k. (start + k * BLOCK, fs_generation img (start + k * BLOCK))) [0..<(n - start) div BLOCK]"
proof -
  let ?M = "(n - start) div BLOCK" and ?N = "(n - start + BLOCK - 1) div BLOCK"
  have "?M \<le> ?N" by (rule div_le_mono) (simp add: BLOCK_def)
  then have "[0..<?N] = [0..<?M] @ [?M..<?N]"
    by (metis le_add_diff_inverse upt_add_eq_append zero_le)
  moreover have "start + k * BLOCK + BLOCK \<le> n \<longleftrightarrow> k < ?M" for k
  proof -
    have "k < ?M \<longleftrightarrow> Suc k * BLOCK \<le> n - start"
      using less_eq_div_iff_mult_less_eq [of BLOCK "Suc k" "n - start"] BLOCK_pos
      by (simp only: Suc_le_eq)
    with assms show ?thesis by auto
  qed
  ultimately show ?thesis
    by (simp add: backhalf_blocks_def step_offsets_def filter_map comp_def)
qed

lemma segment_backhalf_anchored:
  assumes "start \<le> n"
    and run: "0 < snd (longest_run (backhalf_blocks img start n) 0 0 0) \<Longrightarrow>
      fst (longest_run (backhalf_blocks img start n) 0 0 0) +
      snd (longest_run (backhalf_blocks img start n) 0 0 0) \<le> (n - start) div BLOCK"
  shows "\<exists>back. segment_backhalf img start n = Ok back \<and> anchored n start back \<and>
    (\<forall>a \<in> set back. anchor_kind a = ''filesystem'' \<and> anchor_conf a = Heuristic) \<and>
    (start < n \<longrightarrow> back \<noteq> [])"
proof -
  define blocks where "blocks = backhalf_blocks img start n"
  obtain i l where il: "longest_run blocks 0 0 0 = (i, l)" by fastforce
  show ?thesis
  proof (cases "n \<le> start \<or> l = 0")
    case True
    with assms(1) il show ?thesis
      by (auto simp: segment_backhalf_def fs_anchor_def blocks_def [symmetric])
  next
    case False
    with run il have in_range: "i + l \<le> (n - start) div BLOCK" by (simp add: blocks_def)
    then have "(i + l) * BLOCK \<le> n - start"
      by (meson div_times_less_eq_dividend le_trans mult_le_mono1)
    then have "i * BLOCK + l * BLOCK \<le> n - start" by (simp only: add_mult_distrib)
    with False have fits: "start + i * BLOCK + l * BLOCK \<le> n" by linarith
    have bl: "0 < l * BLOCK" using False by (simp add: BLOCK_def)
    define fs where "fs = start + i * BLOCK"
    have fs: "i < length blocks" "fst (blocks ! i) = fs"
      using in_range False assms(1) by (simp_all add: blocks_def backhalf_blocks_eq fs_def)
    have "start \<le> fs" "fs + l * BLOCK \<le> n" using fits by (simp_all add: fs_def)
    with False il fs bl show ?thesis
      by (auto simp: segment_backhalf_def blocks_def [symmetric] fs_anchor_def Let_def Suc_le_eq)
  qed
qed

section \<open>The longest single-generation run\<close>

text \<open>\<open>is_run blocks i l\<close>: \<open>l\<close> consecutive blocks from \<open>i\<close> carry one generation counter.\<close>

definition is_run :: "(nat \<times> u16 option) list \<Rightarrow> nat \<Rightarrow> nat \<Rightarrow> bool" where
  "is_run blocks i l \<longleftrightarrow>
     i + l \<le> length blocks \<and> (\<exists>g. \<forall>k < l. snd (blocks ! (i + k)) = Some g)"

lemma run_end_spec:
  "j \<le> length blocks \<Longrightarrow>
     run_end blocks g j \<le> length blocks \<and>
     (\<forall>k. j \<le> k \<and> k < run_end blocks g j \<longrightarrow> snd (blocks ! k) = Some g) \<and>
     (run_end blocks g j < length blocks \<longrightarrow> snd (blocks ! run_end blocks g j) \<noteq> Some g)"
proof (induction blocks g j rule: run_end.induct)
  case (1 blocks g j)
  show ?case
  proof (cases "j < length blocks \<and> snd (blocks ! j) = Some g")
    case True
    with 1 have IH: "run_end blocks g (j + 1) \<le> length blocks \<and>
        (\<forall>k. j + 1 \<le> k \<and> k < run_end blocks g (j + 1) \<longrightarrow> snd (blocks ! k) = Some g) \<and>
        (run_end blocks g (j + 1) < length blocks \<longrightarrow> snd (blocks ! run_end blocks g (j + 1)) \<noteq> Some g)"
      by simp
    have "run_end blocks g j = run_end blocks g (j + 1)"
      using True by (simp add: run_end.simps [of blocks g j])
    with IH True show ?thesis by (metis Suc_eq_plus1 Suc_leI le_neq_implies_less)
  next
    case False
    then have "run_end blocks g j = j" by (auto simp: run_end.simps [of blocks g j])
    with False 1 show ?thesis by auto
  qed
qed

text \<open>Invariant of the search at position \<open>i\<close>: the best run so far is a run, and no run that
  starts before \<open>i\<close> is longer.\<close>

definition best_run :: "(nat \<times> u16 option) list \<Rightarrow> nat \<Rightarrow> nat \<Rightarrow> nat \<Rightarrow> bool" where
  "best_run blocks i b l \<longleftrightarrow>
     (0 < l \<longrightarrow> is_run blocks b l) \<and> (\<forall>j m. j < i \<longrightarrow> is_run blocks j m \<longrightarrow> m \<le> l)"

lemma run_within:
  assumes run: "is_run blocks j m" and j: "i \<le> j" "j < e" and i: "i < length blocks" "snd (blocks ! i) = Some g"
    and e: "e = run_end blocks g (i + 1)"
  shows "m \<le> e - i"
proof (rule ccontr)
  assume "\<not> m \<le> e - i"
  with j have long: "e - j < m" by linarith
  note spec = run_end_spec [of "i + 1" blocks g, folded e]
  from run obtain g' where g': "\<forall>k < m. snd (blocks ! (j + k)) = Some g'" and jm: "j + m \<le> length blocks"
    by (auto simp: is_run_def)
  have "snd (blocks ! j) = Some g" using spec i j by (cases "j = i") auto
  moreover have "snd (blocks ! j) = Some g'" using g' long by (metis add.right_neutral gr_zeroI less_zeroE)
  moreover have "snd (blocks ! e) = Some g'" using g' long j by (metis le_add_diff_inverse less_imp_le)
  ultimately show False using spec i j long jm by auto
qed

lemma longest_run_best:
  "best_run blocks i b l \<Longrightarrow> longest_run blocks i b l = (b', l') \<Longrightarrow> best_run blocks (length blocks) b' l'"
proof (induction blocks i b l rule: longest_run.induct)
  case (1 blocks i b l)
  show ?case
  proof (cases "i < length blocks")
    case False
    then have "length blocks \<le> i" by simp
    with "1.prems"(1) have "best_run blocks (length blocks) b l"
      unfolding best_run_def by (meson order.strict_trans2)
    with False "1.prems"(2) show ?thesis by (simp add: longest_run.simps [of blocks i b l])
  next
    case i: True
    show ?thesis
    proof (cases "snd (blocks ! i)")
      case None
      have "m = 0" if "is_run blocks i m" for m
        using that None by (auto simp: is_run_def)
      with "1.prems"(1) have "best_run blocks (i + 1) b l"
        by (auto simp: best_run_def less_Suc_eq)
      moreover have "longest_run blocks (i + 1) b l = (b', l')"
        using "1.prems"(2) i None by (simp add: longest_run.simps [of blocks i b l])
      ultimately show ?thesis using "1.IH" i None by blast
    next
      case (Some g)
      define e where "e = run_end blocks g (i + 1)"
      note spec = run_end_spec [of "i + 1" blocks g, folded e_def]
      have e: "i < e" "e \<le> length blocks"
        using run_end_ge [of "i + 1" blocks g] spec i by (simp_all add: e_def)
      have run: "is_run blocks i (e - i)"
      proof -
        have "snd (blocks ! (i + k)) = Some g" if "k < e - i" for k
          using that spec i Some by (cases k) auto
        with e show ?thesis by (auto simp: is_run_def)
      qed
      have seen: "m \<le> max l (e - i)" if "is_run blocks j m" "j < e" for j m
        using that "1.prems"(1) run_within [OF that(1) _ that(2) i Some e_def]
        by (cases "j < i") (auto simp: best_run_def le_max_iff_disj)
      show ?thesis
      proof (cases "l < e - i")
        case True
        then have "best_run blocks e i (e - i)" using run seen by (fastforce simp: best_run_def)
        moreover have "longest_run blocks e i (e - i) = (b', l')"
          using "1.prems"(2) i Some True by (simp add: longest_run.simps [of blocks i b l] e_def Let_def)
        ultimately show ?thesis using "1.IH"(2) [OF i Some e_def True] by blast
      next
        case False
        then have "best_run blocks e b l" using "1.prems"(1) seen by (fastforce simp: best_run_def)
        moreover have "longest_run blocks e b l = (b', l')"
          using "1.prems"(2) i Some False by (simp add: longest_run.simps [of blocks i b l] e_def Let_def)
        ultimately show ?thesis using "1.IH"(3) [OF i Some e_def False] by blast
      qed
    qed
  qed
qed

lemma longest_run_correct:
  assumes "longest_run blocks 0 0 0 = (b, l)"
  shows "0 < l \<Longrightarrow> is_run blocks b l" and "is_run blocks j m \<Longrightarrow> m \<le> l"
proof -
  have "best_run blocks 0 0 0" by (simp add: best_run_def)
  then have best: "best_run blocks (length blocks) b l" using assms by (rule longest_run_best)
  then show "0 < l \<Longrightarrow> is_run blocks b l" by (simp add: best_run_def)
  show "is_run blocks j m \<Longrightarrow> m \<le> l"
    using best by (cases "j < length blocks") (auto simp: best_run_def is_run_def)
qed

section \<open>From anchors to regions\<close>

lemma used_scan_bounds: "start \<le> i \<Longrightarrow> start \<le> used_scan img start i \<and> used_scan img start i \<le> i"
proof (induction img start i rule: used_scan.induct)
  case (1 img start i)
  show ?case
  proof (cases "start < i \<and> img ! (i - 1) = 0xFF")
    case True
    then have "start \<le> i - 1" by linarith
    with 1 True have "start \<le> used_scan img start (i - 1) \<and> used_scan img start (i - 1) \<le> i - 1"
      by blast
    then have "start \<le> used_scan img start (i - 1) \<and> used_scan img start (i - 1) \<le> i" by linarith
    with True show ?thesis by (simp add: used_scan.simps [of img start i])
  next
    case False
    with 1 show ?thesis by (auto simp: used_scan.simps [of img start i])
  qed
qed

lemma used_len_ok:
  "start \<le> limit \<Longrightarrow> limit \<le> length img \<Longrightarrow> \<exists>u. used_len img start limit = Ok u \<and> u \<le> limit - start"
  using used_scan_bounds [of start limit img] by (auto simp: used_len_def min_def)

text \<open>The regions tile the flash from the first base to the top, none is empty, and none uses more
  than it reserves.\<close>

fun tiles :: "nat \<Rightarrow> region list \<Rightarrow> bool" where
  "tiles hi [] \<longleftrightarrow> True"
| "tiles hi (r # rs) \<longleftrightarrow>
     unat (phys_addr r) + unat (reserved_size r) =
       (case rs of [] \<Rightarrow> hi | s # _ \<Rightarrow> unat (phys_addr s)) \<and>
     0 < unat (reserved_size r) \<and> unat (used_size r) \<le> unat (reserved_size r) \<and> tiles hi rs"

definition region_of :: "u32 \<Rightarrow> anchor \<Rightarrow> region \<Rightarrow> bool" where
  "region_of base a r \<longleftrightarrow>
     unat (phys_addr r) = unat base + anchor_off a \<and> region_confidence r = anchor_conf a \<and>
     region_detail r = anchor_detail a \<and>
     (region_kind r = anchor_kind a \<or> anchor_kind a = ''filesystem'' \<and> region_kind r = ''nv'') \<and>
     (anchor_kind a = ''uimage'' \<longrightarrow> unat (used_size r) = anchor_used a)"

lemma anchored_next:
  assumes "anchored n lo (a # rest)"
  shows "anchor_off a < (case rest of [] \<Rightarrow> n | b # _ \<Rightarrow> anchor_off b)"
    and "anchor_off a + anchor_used a \<le> (case rest of [] \<Rightarrow> n | b # _ \<Rightarrow> anchor_off b)"
    and "(case rest of [] \<Rightarrow> n | b # _ \<Rightarrow> anchor_off b) \<le> n"
  using assms by (auto split: list.splits)

lemma phys_offset:
  assumes "unat (base :: u32) + n < 2 ^ 32"
  shows "add_u32 base (word_of_nat n) = Ok (base + word_of_nat n)"
    and "unat (base + word_of_nat n) = unat base + n"
proof -
  from assms have "unat (word_of_nat n :: u32) = n" by (intro unat_of_nat_u32) simp
  with assms show "add_u32 base (word_of_nat n) = Ok (base + word_of_nat n)"
    and "unat (base + word_of_nat n) = unat base + n"
    by (simp_all add: add_u32_ok unat_add_u32)
qed

lemma assign_regions_tiles:
  assumes "anchored (length img) lo segs" and small: "unat base + length img < 2 ^ 32"
  shows "\<exists>rs. assign_regions img base (length img) segs counts out = Ok (out @ rs) \<and>
    tiles (unat base + length img) rs \<and> list_all2 (region_of base) segs rs"
  using assms(1)
proof (induction segs arbitrary: lo counts out)
  case Nil
  show ?case by simp
next
  case (Cons a rest)
  define nx where "nx = (case rest of [] \<Rightarrow> length img | b # _ \<Rightarrow> anchor_off b)"
  note nx = anchored_next [OF Cons.prems, folded nx_def]
  define kind where "kind = (if anchor_kind a = ''filesystem'' \<and> rest = [] then ''nv'' else anchor_kind a)"
  define idx where "idx = (case counts kind of None \<Rightarrow> 0 | Some k \<Rightarrow> k)"
  obtain u where u: "(if anchor_kind a = ''uimage'' then Ok (anchor_used a)
      else used_len img (anchor_off a) nx) = Ok u" "u \<le> nx - anchor_off a"
    and code: "anchor_kind a = ''uimage'' \<Longrightarrow> u = anchor_used a"
    using used_len_ok [of "anchor_off a" nx img] nx
    by (cases "anchor_kind a = ''uimage''") auto
  define r where "r = \<lparr>region_id = str kind @ str ''_'' @ fmt_dec idx,
    phys_addr = base + word_of_nat (anchor_off a),
    reserved_size = word_of_nat (nx - anchor_off a), used_size = word_of_nat u,
    region_kind = kind, region_confidence = anchor_conf a, region_detail = anchor_detail a\<rparr>"
  have off: "unat base + anchor_off a < 2 ^ 32" using nx small by linarith
  have nx32: "unat base + nx < 2 ^ 32" using nx small by linarith
  from Cons.prems have "anchored (length img) (anchor_off a + max 1 (anchor_used a)) rest" by simp
  from Cons.IH [OF this, of "counts(kind \<mapsto> idx + 1)" "out @ [r]"] obtain rs where
    rs: "assign_regions img base (length img) rest (counts(kind \<mapsto> idx + 1)) (out @ [r]) = Ok (out @ r # rs)"
    "tiles (unat base + length img) rs" "list_all2 (region_of base) rest rs"
    by (auto simp del: fun_upd_apply)
  have step: "assign_regions img base (length img) (a # rest) counts out = Ok (out @ r # rs)"
    using nx u rs(1) [unfolded r_def]
    by (simp add: phys_offset [OF off] nx_def [symmetric] Let_def kind_def [symmetric] idx_def [symmetric] r_def)
  have fields: "unat (phys_addr r) = unat base + anchor_off a"
    "unat (reserved_size r) = nx - anchor_off a" "unat (used_size r) = u"
    using phys_offset [OF off] nx32 u(2) by (simp_all add: r_def unat_of_nat_u32)
  have succ: "unat base + nx = (case rs of [] \<Rightarrow> unat base + length img | s # _ \<Rightarrow> unat (phys_addr s))"
    using rs(3) by (cases rest; cases rs) (auto simp: nx_def region_of_def)
  have "region_of base a r"
    using fields code by (simp add: region_of_def) (simp add: r_def kind_def)
  with step rs fields succ nx u(2) show ?case
    by (intro exI [of _ "r # rs"]) auto
qed

text \<open>Every anchor of phase 1 is what a probe found at its own offset.\<close>

definition probed :: "u8 list \<Rightarrow> anchor \<Rightarrow> bool" where
  "probed img a \<longleftrightarrow>
     detect_uimage img (anchor_off a) = Ok (Some a) \<or> detect_luadb img (anchor_off a) = Some a"

lemma phase1_probed:
  "phase1 img off segs = Ok (off', segs') \<Longrightarrow> (\<forall>a \<in> set segs. probed img a) \<Longrightarrow>
     \<forall>a \<in> set segs'. probed img a"
proof (induction img off segs rule: phase1.induct)
  case (1 img off segs)
  have new: "detect_uimage img off = Ok (Some a) \<Longrightarrow> probed img a"
    "detect_luadb img off = Some a \<Longrightarrow> probed img a" for a
    using detect_uimage_Some [of img off a] detect_luadb_Some [of img off a]
    by (auto simp: probed_def)
  show ?case
  proof (cases "off + BLOCK \<le> length img")
    case False
    with "1.prems" show ?thesis by (simp add: phase1.simps [of img off segs])
  next
    case True
    with "1.IH" "1.prems" new show ?thesis
      by (auto simp: phase1.simps [of img off segs] split: result.splits option.splits if_splits)
  qed
qed

lemma layout_anchors_ok:
  "\<exists>segs. layout_anchors img = Ok segs \<and> anchored (length img) 0 segs \<and>
     (\<forall>a \<in> set segs. probed img a \<or> anchor_kind a = ''filesystem'' \<and> anchor_conf a = Heuristic)"
proof -
  obtain off' new where p1: "phase1 img 0 [] = Ok (off', new)" "anchored (length img) 0 new"
    "\<forall>a \<in> set new. anchor_off a + max 1 (anchor_used a) \<le> min off' (length img)"
    using phase1_anchored [of img 0 "[]"] by auto
  define start where "start = min off' (length img)"
  define blocks where "blocks = backhalf_blocks img start (length img)"
  have start: "start \<le> length img" by (simp add: start_def)
  have run: "fst (longest_run blocks 0 0 0) + snd (longest_run blocks 0 0 0) \<le> (length img - start) div BLOCK"
    if "0 < snd (longest_run blocks 0 0 0)"
  proof -
    have "is_run blocks (fst (longest_run blocks 0 0 0)) (snd (longest_run blocks 0 0 0))"
      using that longest_run_correct(1) by (metis prod.collapse)
    moreover have "length blocks = (length img - start) div BLOCK"
      using start by (simp add: blocks_def backhalf_blocks_eq)
    ultimately show ?thesis by (simp add: is_run_def)
  qed
  obtain bk where bk: "segment_backhalf img start (length img) = Ok bk"
    "anchored (length img) start bk"
    "\<forall>a \<in> set bk. anchor_kind a = ''filesystem'' \<and> anchor_conf a = Heuristic"
    using segment_backhalf_anchored [OF start run [unfolded blocks_def]] by blast
  have "anchored (length img) 0 (new @ bk)"
    using p1 bk by (intro anchored_append) (simp_all add: start_def)
  moreover have "\<forall>a \<in> set new. probed img a" using phase1_probed [OF p1(1)] by simp
  ultimately show ?thesis
    using p1(1) bk by (auto simp: layout_anchors_def start_def)
qed

lemma reconstruct_anchors:
  assumes "unat base + length img < 2 ^ 32"
  obtains segs rs where "layout_anchors img = Ok segs" and "reconstruct img base = Ok rs"
    and "tiles (unat base + length img) rs" and "list_all2 (region_of base) segs rs"
    and "anchored (length img) 0 segs"
    and "\<forall>a \<in> set segs. probed img a \<or> anchor_kind a = ''filesystem'' \<and> anchor_conf a = Heuristic"
proof -
  obtain segs where segs: "layout_anchors img = Ok segs" "anchored (length img) 0 segs"
    "\<forall>a \<in> set segs. probed img a \<or> anchor_kind a = ''filesystem'' \<and> anchor_conf a = Heuristic"
    using layout_anchors_ok [of img] by blast
  from assign_regions_tiles [OF segs(2) assms, of Map.empty "[]"] obtain rs where
    "assign_regions img base (length img) segs Map.empty [] = Ok rs"
    "tiles (unat base + length img) rs" "list_all2 (region_of base) segs rs" by auto
  with segs that show ?thesis by (simp add: reconstruct_def)
qed

section \<open>Region names\<close>

lemma digit_char_inj: "a < 16 \<Longrightarrow> b < 16 \<Longrightarrow> digit_char a = digit_char b \<Longrightarrow> a = b"
proof -
  assume ab: "a < 16" "b < 16" and eq: "digit_char a = digit_char b"
  have "unat (digit_char k) = (if k < 10 then 48 + k else 87 + k)" if "k < 16" for k
    unfolding digit_char_def using that by (subst unat_of_nat_u32) auto
  from this [OF ab(1)] this [OF ab(2)]
  have "(if a < 10 then 48 + a else 87 + a) = (if b < 10 then 48 + b else 87 + b)"
    unfolding eq by simp
  with ab show "a = b" by (simp split: if_splits)
qed

lemma fmt_digits_inj:
  assumes "2 \<le> base" "base \<le> 16"
  shows "fmt_digits base m = fmt_digits base n \<Longrightarrow> m = n"
proof (induction m arbitrary: n rule: less_induct)
  case (less m)
  have small: "fmt_digits base k = [digit_char k]" if "k < base" for k
    using that by (simp add: fmt_digits.simps [of base k])
  have big: "fmt_digits base k = fmt_digits base (k div base) @ [digit_char (k mod base)]"
    if "base \<le> k" for k
    using that assms by (simp add: fmt_digits.simps [of base k])
  have ne: "fmt_digits base k \<noteq> []" for k by (simp add: fmt_digits.simps [of base k])
  have mods: "m mod base < 16" "n mod base < 16"
    using assms mod_less_divisor [of base m] mod_less_divisor [of base n] by linarith+
  consider "m < base" "n < base" | "m < base" "base \<le> n" | "base \<le> m" "n < base" | "base \<le> m" "base \<le> n"
    by linarith
  then show ?case
  proof cases
    case 1
    with less.prems assms digit_char_inj [of m n] show ?thesis by (simp add: small)
  next
    case 4
    with less.prems have "fmt_digits base (m div base) = fmt_digits base (n div base)"
      and "digit_char (m mod base) = digit_char (n mod base)" by (simp_all add: big)
    moreover have "m div base < m" using 4 assms by simp
    ultimately have "m div base = n div base" "m mod base = n mod base"
      using less.IH digit_char_inj [OF mods] by simp_all
    then show ?thesis by (metis div_mult_mod_eq)
  qed (use less.prems ne ne [symmetric] in \<open>auto simp: small big\<close>)
qed

definition region_kinds :: "string set" where
  "region_kinds = {''uimage'', ''luadb'', ''filesystem'', ''nv''}"

lemma region_id_inj:
  assumes "k \<in> region_kinds" "k' \<in> region_kinds"
    and "str k @ str ''_'' @ fmt_dec i = str k' @ str ''_'' @ fmt_dec j"
  shows "k = k' \<and> i = j"
  using assms fmt_digits_inj [of 10 i j] by (auto simp: region_kinds_def fmt_dec_def)

text \<open>Names handed out so far use, for each kind, the numbers below that kind's counter.\<close>

definition names_below :: "(string \<rightharpoonup> nat) \<Rightarrow> region list \<Rightarrow> bool" where
  "names_below counts out \<longleftrightarrow>
     distinct (map region_id out) \<and>
     (\<forall>r \<in> set out. region_kind r \<in> region_kinds \<and>
        (\<exists>k i. k \<in> region_kinds \<and> region_id r = str k @ str ''_'' @ fmt_dec i \<and>
           i < (case counts k of None \<Rightarrow> 0 | Some c \<Rightarrow> c)))"

lemma assign_regions_names:
  assumes "assign_regions img base n segs counts out = Ok rs"
    and "\<forall>a \<in> set segs. anchor_kind a \<in> region_kinds" and "names_below counts out"
  shows "\<exists>counts'. names_below counts' rs"
  using assms
proof (induction segs arbitrary: counts out)
  case Nil
  then show ?case by auto
next
  case (Cons a rest)
  define kind where "kind = (if anchor_kind a = ''filesystem'' \<and> rest = [] then ''nv'' else anchor_kind a)"
  define idx where "idx = (case counts kind of None \<Rightarrow> 0 | Some k \<Rightarrow> k)"
  have kind: "kind \<in> region_kinds" using Cons.prems(2) by (simp add: kind_def region_kinds_def)
  from Cons.prems(1) obtain reserved used addr where
    "assign_regions img base n rest (counts(kind \<mapsto> idx + 1))
      (out @ [\<lparr>region_id = str kind @ str ''_'' @ fmt_dec idx, phys_addr = addr,
               reserved_size = word_of_nat reserved, used_size = word_of_nat used, region_kind = kind,
               region_confidence = anchor_conf a, region_detail = anchor_detail a\<rparr>]) = Ok rs"
    by (auto simp: Let_def rbind_eq_Ok kind_def [symmetric] idx_def [symmetric]
        simp del: fun_upd_apply)
  then obtain r where r: "region_id r = str kind @ str ''_'' @ fmt_dec idx" "region_kind r = kind"
    and rest: "assign_regions img base n rest (counts(kind \<mapsto> idx + 1)) (out @ [r]) = Ok rs"
    by (metis region.select_convs(1,5))
  have old: "\<exists>k i. k \<in> region_kinds \<and> region_id x = str k @ str ''_'' @ fmt_dec i \<and>
      i < (case counts k of None \<Rightarrow> 0 | Some c \<Rightarrow> c)" if "x \<in> set out" for x
    using Cons.prems(3) that by (simp add: names_below_def)
  have fresh: "region_id r \<notin> region_id ` set out"
  proof
    assume "region_id r \<in> region_id ` set out"
    then obtain x where "x \<in> set out" "region_id x = region_id r" by auto
    with old [of x] r(1) region_id_inj [OF kind] show False by (metis idx_def less_irrefl)
  qed
  have "\<exists>k i. k \<in> region_kinds \<and> region_id x = str k @ str ''_'' @ fmt_dec i \<and>
      i < (case (counts(kind \<mapsto> idx + 1)) k of None \<Rightarrow> 0 | Some c \<Rightarrow> c)" if "x \<in> set (out @ [r])" for x
  proof (cases "x \<in> set out")
    case True
    from old [OF this] obtain k i where ki: "k \<in> region_kinds"
      "region_id x = str k @ str ''_'' @ fmt_dec i" "i < (case counts k of None \<Rightarrow> 0 | Some c \<Rightarrow> c)"
      by blast
    then have "i < (case (counts(kind \<mapsto> idx + 1)) k of None \<Rightarrow> 0 | Some c \<Rightarrow> c)"
      by (cases "k = kind") (simp_all add: idx_def)
    with ki show ?thesis by blast
  next
    case False
    with that have "x = r" by simp
    with kind r(1) show ?thesis by (intro exI [of _ kind] exI [of _ idx]) simp
  qed
  with fresh Cons.prems(3) kind r(2) have "names_below (counts(kind \<mapsto> idx + 1)) (out @ [r])"
    by (auto simp: names_below_def simp del: fun_upd_apply)
  with Cons.IH [OF rest] Cons.prems(2) show ?case by (simp del: fun_upd_apply)
qed

text \<open>The anchors and the regions of a dump that fits the address space.\<close>

lemma reconstruct_names:
  assumes "unat base + length img < 2 ^ 32"
  shows "\<exists>rs counts. reconstruct img base = Ok rs \<and> tiles (unat base + length img) rs \<and> names_below counts rs"
proof -
  obtain segs rs where layout: "layout_anchors img = Ok segs" "reconstruct img base = Ok rs"
    and tiles: "tiles (unat base + length img) rs"
    and probed: "\<forall>a \<in> set segs. probed img a \<or> anchor_kind a = ''filesystem'' \<and> anchor_conf a = Heuristic"
    using reconstruct_anchors [OF assms] by metis
  have "anchor_kind a \<in> region_kinds" if "a \<in> set segs" for a
    using probed that detect_uimage_Some detect_luadb_Some
    by (fastforce simp: probed_def region_kinds_def)
  moreover have "names_below Map.empty []" by (simp add: names_below_def)
  ultimately show ?thesis
    using layout tiles assign_regions_names [of img base "length img" segs Map.empty "[]" rs]
    by (auto simp: reconstruct_def)
qed

section \<open>A verified code image\<close>

definition image_u32 :: "u8 list \<Rightarrow> nat \<Rightarrow> u32" where
  "image_u32 img off = from_be32 (img ! off) (img ! (off + 1)) (img ! (off + 2)) (img ! (off + 3))"

text \<open>What it takes for a code image of \<open>used\<close> bytes at \<open>off\<close> to be intact.\<close>

definition uimage_intact :: "u8 list \<Rightarrow> nat \<Rightarrow> nat \<Rightarrow> bool" where
  "uimage_intact img off used \<longleftrightarrow>
     off + used \<le> length img \<and> used = 64 + unat (image_u32 img (off + 12)) \<and>
     image_u32 img off = UIMAGE_MAGIC \<and>
     crc32 ((take 64 (drop off img))[4 := 0, 5 := 0, 6 := 0, 7 := 0]) = image_u32 img (off + 4) \<and>
     crc32 (take (used - 64) (drop (off + 64) img)) = image_u32 img (off + 24)"

lemma detect_uimage_verified:
  "detect_uimage img off = Ok (Some a) \<Longrightarrow>
     (anchor_conf a = Verified) = uimage_intact img off (anchor_used a)"
  by (auto simp: detect_uimage_def uimage_intact_def image_u32_def UIMAGE_HDR_def rbind_eq_Ok Let_def
      not_less split: if_splits)

lemma probed_verified:
  assumes "probed img a" "anchor_conf a = Verified"
  shows "detect_uimage img (anchor_off a) = Ok (Some a)"
  using assms detect_luadb_Some [of img "anchor_off a" a] by (auto simp: probed_def)

lemma uimage_tamper:
  assumes "uimage_intact img off used" and "img = p @ d @ s" and "length b = length d" and "length d \<le> 4"
    and "d \<noteq> b" and "off + 64 \<le> length p" and "length p + length d \<le> off + used"
  shows "\<not> uimage_intact (p @ b @ s) off used"
proof
  assume other: "uimage_intact (p @ b @ s) off used"
  define p' where "p' = drop (off + 64) p"
  define s' where "s' = take (off + used - length p - length d) s"
  have body: "take (used - 64) (drop (off + 64) (p @ x @ s)) = p' @ x @ s'" if "length x = length d" for x
    using assms(6,7) that by (simp add: p'_def s'_def) (simp add: take_Cons' add.commute)
  have "image_u32 (p @ b @ s) (off + 24) = image_u32 img (off + 24)"
    using assms(2,6) by (simp add: image_u32_def nth_append)
  moreover have "crc32 (take (used - 64) (drop (off + 64) img)) = image_u32 img (off + 24)"
    "crc32 (take (used - 64) (drop (off + 64) (p @ b @ s))) = image_u32 (p @ b @ s) (off + 24)"
    using assms(1) other unfolding uimage_intact_def by blast+
  ultimately have "crc32 (p' @ b @ s') = crc32 (p' @ d @ s')"
    unfolding assms(2) body [OF assms(3)] body [OF refl] by simp
  with crc32_detects [of b d p' s'] assms(3,4,5) show False by auto
qed

text \<open>A dump of one erase block that holds a code image with an empty body.\<close>

definition demo_padding :: "u8 list" where
  "demo_padding = replicate 65472 0xFF"

lemma length_demo_padding [simp]: "length demo_padding = 65472"
  unfolding demo_padding_def by (rule length_replicate)

definition demo_header :: "u32 \<Rightarrow> u8 list" where
  "demo_header hcrc = to_be32 UIMAGE_MAGIC @ to_be32 hcrc @ replicate 56 0"

definition demo_dump :: "u8 list" where
  "demo_dump = demo_header (crc32 (demo_header 0)) @ demo_padding"

lemma length_demo_header [simp]: "length (demo_header h) = 64"
  by (simp add: demo_header_def)

lemma length_demo_dump [simp]: "length demo_dump = 65536"
  by (simp add: demo_dump_def)

lemma demo_dump_intact: "uimage_intact demo_dump 0 64"
proof -
  have zero: "from_be32 0 0 0 0 = 0" by (simp add: from_be32_def)
  have "image_u32 (demo_header h @ demo_padding) 0 = UIMAGE_MAGIC"
    "image_u32 (demo_header h @ demo_padding) 4 = h" "image_u32 (demo_header h @ demo_padding) 12 = 0"
    "image_u32 (demo_header h @ demo_padding) 24 = 0" for h
    by (simp_all add: image_u32_def nth_append)
      (simp_all add: demo_header_def to_be32_def nth_append zero)
  then have "image_u32 demo_dump 0 = UIMAGE_MAGIC"
    "image_u32 demo_dump 4 = crc32 (demo_header 0)" "image_u32 demo_dump 12 = 0" "image_u32 demo_dump 24 = 0"
    by (simp_all add: demo_dump_def)
  moreover have "(take 64 (drop 0 demo_dump))[4 := 0, 5 := 0, 6 := 0, 7 := 0] = demo_header 0"
    by (simp add: demo_dump_def) (simp add: demo_header_def to_be32_def)
  moreover have "crc32 [] = 0" by (simp add: crc32_def)
  ultimately show ?thesis by (simp add: uimage_intact_def)
qed

lemma detect_uimage_intact:
  assumes "uimage_intact img off used"
  shows "\<exists>a. detect_uimage img off = Ok (Some a) \<and> anchor_off a = off \<and> anchor_used a = used \<and>
    anchor_kind a = ''uimage'' \<and> anchor_conf a = Verified"
  using assms by (auto simp: uimage_intact_def detect_uimage_def UIMAGE_HDR_def image_u32_def Let_def)

lemma demo_dump_detail:
  assumes "detect_uimage demo_dump 0 = Ok (Some a)" "anchor_conf a = Verified"
  shows "anchor_detail a = uimage_detail [] True True"
proof -
  have "slice demo_dump 32 64 = Ok (replicate 32 0)"
    by (simp add: slice_def get_range_def demo_dump_def) (simp add: demo_header_def to_be32_def)
  moreover have "uimage_name (replicate 32 0) = []" by (simp add: uimage_name_def numeral_eq_Suc)
  ultimately show ?thesis using assms
    by (auto simp: detect_uimage_def UIMAGE_HDR_def rbind_eq_Ok Let_def split: if_splits)
qed

lemma demo_dump_regions:
  "\<exists>r. reconstruct demo_dump NOR_BASE = Ok [r] \<and> region_confidence r = Verified \<and>
     unat (phys_addr r) = 0x60000000 \<and> region_detail r = uimage_detail [] True True"
proof -
  obtain a where a: "detect_uimage demo_dump 0 = Ok (Some a)" "anchor_off a = 0" "anchor_used a = 64"
    "anchor_kind a = ''uimage''" "anchor_conf a = Verified"
    using detect_uimage_intact [OF demo_dump_intact] by blast
  note detail = demo_dump_detail [OF a(1,5)]
  have "phase1 demo_dump 65536 [a] = Ok (65536, [a])"
    by (simp add: phase1.simps [of demo_dump 65536] BLOCK_def)
  then have "phase1 demo_dump 0 [] = Ok (65536, [a])"
    using a by (simp add: phase1.simps [of demo_dump 0] BLOCK_def round_up_def)
  then have "layout_anchors demo_dump = Ok [a]"
    by (simp add: layout_anchors_def segment_backhalf_def)
  then show ?thesis
    using a detail by (simp add: reconstruct_def Let_def add_u32_def NOR_BASE_def)
qed

section \<open>Properties\<close>

text \<open>C11: on every dump that fits the address space the reconstruction returns (no
  index, slice, subtraction or addition panics) and its regions tile the flash: each starts where
  the one before ends, the last ends at the top of the flash, none is empty, none uses more than
  it reserves, and no two share a name.\<close>

theorem reconstruct_tiles_flash:
  assumes "unat base + length img < 2 ^ 32"
  shows "\<exists>rs. reconstruct img base = Ok rs \<and> tiles (unat base + length img) rs \<and>
    distinct (map region_id rs)"
  using reconstruct_names [OF assms] by (auto simp: names_below_def)

theorem reconstruct_tiles_flash_witness:
  "\<exists>rs. reconstruct demo_dump NOR_BASE = Ok rs \<and> tiles 0x60010000 rs \<and> distinct (map region_id rs)"
  using reconstruct_tiles_flash [of NOR_BASE demo_dump] by (simp add: NOR_BASE_def)

text \<open>C35: a region is reported as verified only when it is a code image whose header
  and body lie in the dump and match both CRC-32s stored in the header, at exactly the size the
  header names; so a dump that differs in up to four adjacent bytes of the body is never verified
  at that size.\<close>

theorem verified_regions_are_intact:
  assumes "unat base + length img < 2 ^ 32" and "reconstruct img base = Ok rs"
    and "r \<in> set rs" and "region_confidence r = Verified"
  shows "region_kind r = ''uimage'' \<and>
    uimage_intact img (unat (phys_addr r) - unat base) (unat (used_size r)) \<and>
    (\<forall>p a b s. img = p @ a @ s \<longrightarrow> length b = length a \<longrightarrow> length a \<le> 4 \<longrightarrow> a \<noteq> b \<longrightarrow>
       unat (phys_addr r) - unat base + 64 \<le> length p \<longrightarrow>
       length p + length a \<le> unat (phys_addr r) - unat base + unat (used_size r) \<longrightarrow>
       \<not> uimage_intact (p @ b @ s) (unat (phys_addr r) - unat base) (unat (used_size r)))"
proof -
  obtain segs where all: "list_all2 (region_of base) segs rs"
    and probed: "\<forall>a \<in> set segs. probed img a \<or> anchor_kind a = ''filesystem'' \<and> anchor_conf a = Heuristic"
    using reconstruct_anchors [OF assms(1)] assms(2) by (metis result.inject(1))
  from all assms(3) obtain a where a: "a \<in> set segs" "region_of base a r"
    by (metis in_set_conv_nth list_all2_conv_all_nth)
  with assms(4) probed have "probed img a" "anchor_conf a = Verified"
    by (auto simp: region_of_def)
  then have found: "detect_uimage img (anchor_off a) = Ok (Some a)" by (rule probed_verified)
  note u = detect_uimage_Some [OF found]
  have off: "unat (phys_addr r) - unat base = anchor_off a" and used: "unat (used_size r) = anchor_used a"
    and kind: "region_kind r = ''uimage''"
    using a(2) u by (auto simp: region_of_def)
  have intact: "uimage_intact img (anchor_off a) (anchor_used a)"
    using detect_uimage_verified [OF found] \<open>anchor_conf a = Verified\<close> by simp
  have "\<not> uimage_intact (p @ b @ s) (anchor_off a) (anchor_used a)"
    if "img = p @ d @ s" "length b = length d" "length d \<le> 4" "d \<noteq> b"
      "anchor_off a + 64 \<le> length p" "length p + length d \<le> anchor_off a + anchor_used a" for p d b s
    by (rule uimage_tamper [OF intact that])
  with kind intact show ?thesis unfolding off used by blast
qed

theorem verified_regions_are_intact_witness:
  "\<exists>rs r. reconstruct demo_dump NOR_BASE = Ok rs \<and> r \<in> set rs \<and> region_kind r = ''uimage'' \<and>
     unat (phys_addr r) = 0x60000000 \<and> uimage_intact demo_dump 0 (unat (used_size r))"
proof -
  obtain r where r: "reconstruct demo_dump NOR_BASE = Ok [r]" "region_confidence r = Verified"
    "unat (phys_addr r) = 0x60000000"
    using demo_dump_regions by blast
  have base: "unat NOR_BASE = 0x60000000" by (simp add: NOR_BASE_def)
  from verified_regions_are_intact [of NOR_BASE demo_dump "[r]" r] r
  have "region_kind r = ''uimage'' \<and> uimage_intact demo_dump 0 (unat (used_size r))"
    by (simp add: base)
  with r show ?thesis by (intro exI [of _ "[r]"] exI [of _ r]) simp
qed

text \<open>The block run taken for the live file system is a longest one; an example of the choice.\<close>

lemma live_filesystem_example:
  "longest_run [(0, Some 7), (65536, Some 9), (131072, Some 9), (196608, None)] 0 0 0 = (1, 2)"
  by (simp add: longest_run.simps run_end.simps numeral_2_eq_2)

end
