(* ===== verification/Cli.thy ===== *)
theory Cli
  imports Line Reconstruct
begin

text \<open>
  The commands of \<open>crates/sprdflash-cli/src/main.rs\<close> behind the argument parser: port resolution,
  flashing with the one automatic retry, dumps, the command probe, the layout report and the set-up of
  a line, on the bytes of the files they read (the files themselves are in \<open>Program\<close>). What the
  commands print is in \<open>Console\<close>. Errors are constructors that carry the error they wrap, a context line is a constructor.
\<close>

section \<open>Errors\<close>

datatype cli_error =
    CliPac core_error
  | CliChecksum
  | CliPlan string
  | CliNoPartitions
  | CliOpen transport_error
  | CliFlash flash_error
  | CliNoAtPort
  | CliEnterDownload rust_string
  | CliNoBeacon
  | CliNoDownloadPort
  | CliRegion rust_string
  | CliNumber rust_string rust_string
  | CliShortRead rust_string nat u32
  | CliReparse core_error
  | CliGoldenCrc
  | CliNoContent
  | CliNoStation
  | CliReadFile rust_string
  | CliCreateDir rust_string
  | CliWriteFile rust_string
  | CliEnumerate

section \<open>Numbers and regions\<close>

definition digit_value :: "nat \<Rightarrow> u32 \<Rightarrow> nat option" where
  "digit_value base c =
     (let v = unat c;
          d = (if 48 \<le> v \<and> v \<le> 57 then v - 48
               else if 97 \<le> v \<and> v \<le> 122 then v - 87
               else if 65 \<le> v \<and> v \<le> 90 then v - 55 else base)
      in if d < base then Some d else None)"

fun number_value :: "nat \<Rightarrow> nat \<Rightarrow> rust_string \<Rightarrow> nat option" where
  "number_value base acc [] = Some acc"
| "number_value base acc (c # cs) =
     (case digit_value base c of
        None \<Rightarrow> None
      | Some d \<Rightarrow> (if acc * base + d < 2 ^ 32 then number_value base (acc * base + d) cs else None))"

text \<open>\<open>u32::from_str_radix\<close>: an optional \<open>+\<close>, then at least one digit, checked.\<close>

definition parse_u32 :: "nat \<Rightarrow> rust_string \<Rightarrow> u32 option" where
  "parse_u32 base s =
     (let digits = (if s \<noteq> [] \<and> hd s = 43 then tl s else s)
      in if digits = [] then None else map_option word_of_nat (number_value base 0 digits))"

definition strip_prefix :: "rust_string \<Rightarrow> rust_string \<Rightarrow> rust_string option" where
  "strip_prefix p s = (if starts_with s p then Some (drop (length p) s) else None)"

definition split_once :: "u32 \<Rightarrow> rust_string \<Rightarrow> (rust_string \<times> rust_string) option" where
  "split_once c s = map_option (\<lambda>i. (take i s, drop (i + 1) s)) (position (\<lambda>x. x = c) s)"

definition region_number :: "rust_string \<Rightarrow> rust_string \<Rightarrow> (u32, cli_error) result" where
  "region_number s x0 =
     (let x = trim x0
      in ok_or (case strip_prefix (str ''0x'') x of
                  Some hex \<Rightarrow> parse_u32 16 hex
                | None \<Rightarrow>
                    (case strip_prefix (str ''0X'') x of
                       Some hex \<Rightarrow> parse_u32 16 hex
                     | None \<Rightarrow> parse_u32 10 x))
               (CliNumber x s))"

definition parse_region :: "rust_string \<Rightarrow> (u32 \<times> u32, cli_error) result" where
  "parse_region s =
     rbind (ok_or (split_once 58 s) (CliRegion s)) (\<lambda>(a, b).
     rbind (region_number s a) (\<lambda>addr.
     rbind (region_number s b) (\<lambda>sz.
       Ok (addr, sz))))"

definition read_flash_req :: "u32 \<Rightarrow> u32 \<Rightarrow> u8 list" where
  "read_flash_req addr sz = to_be32 addr @ to_be32 sz @ to_be32 0"

section \<open>Ports\<close>

definition resolve_download_port ::
    "'w bench \<Rightarrow> rust_string option \<Rightarrow> bool \<Rightarrow> (rust_string, cli_error, 'w) io"
where
  "resolve_download_port B explicit enter =
     (case explicit of
        Some p \<Rightarrow> io_return p
      | None \<Rightarrow>
          io_bind (io_query (find_download_port B)) (\<lambda>d.
            case d of
              Some p \<Rightarrow> io_return (info_name p)
            | None \<Rightarrow>
                if enter
                then io_bind (io_query (find_module_ports B)) (\<lambda>mods.
                     io_bind (io_lift (ok_or
                       (case find at_product mods of
                          Some p \<Rightarrow> Some p
                        | None \<Rightarrow> (case mods of [] \<Rightarrow> None | p # _ \<Rightarrow> Some p)) CliNoAtPort)) (\<lambda>at_port.
                     io_bind (io_map_err CliEnterDownload (enter_download_mode B (info_name at_port))) (\<lambda>_.
                     io_bind (wait_for_download_port B 30000) (\<lambda>p.
                       io_lift (ok_or (map_option info_name p) CliNoBeacon)))))
                else io_fail CliNoDownloadPort))"

text \<open>\<open>let _ = serial.write_all(...)\<close>: the outcome of the write is dropped.\<close>

definition send_normal_reset :: "'w bench \<Rightarrow> rust_string \<Rightarrow> (unit, 'e, 'w) io" where
  "send_normal_reset B port =
     io_bind (io_lift (build_message CMD_NORMAL_RESET [] Sprd)) (\<lambda>msg.
     io_bind (io_ignore (write_all (serial B port) msg)) (\<lambda>_.
       io_modify (reset_teardown (serial B port) 1000)))"

section \<open>Flashing with one retry\<close>

text \<open>The polls after a reset, \<open>n\<close> of them left: whether the module booted to normal mode.\<close>

fun await_reboot :: "'w bench \<Rightarrow> nat \<Rightarrow> 'w \<Rightarrow> bool \<times> 'w" where
  "await_reboot B 0 w = (False, w)"
| "await_reboot B (Suc n) w =
     (case find_download_port B w of
        (Some p, w1) \<Rightarrow> (False, w1)
      | (None, w1) \<Rightarrow>
          (case find_module_ports B w1 of
             (m, w2) \<Rightarrow> if m \<noteq> [] then (True, w2) else await_reboot B n (os_sleep B 500 w2)))"

definition reset_and_wait :: "'w bench \<Rightarrow> rust_string \<Rightarrow> (unit, cli_error, 'w) io" where
  "reset_and_wait B port =
     io_bind (owning B port (send_normal_reset B port)) (\<lambda>_.
     io_bind (io_query (await_reboot B 40)) (\<lambda>booted.
       if booted then io_modify (os_sleep B 10000) else io_return ()))"

text \<open>The \<open>for\<close> loop over the two attempts; the number left comes second.\<close>

fun flash_attempts ::
    "'w bench \<Rightarrow> nat \<Rightarrow> nat \<Rightarrow> flash_options \<Rightarrow> rust_string option \<Rightarrow> bool \<Rightarrow> pac_info \<Rightarrow> u8 list \<Rightarrow>
       (flash_outcome, cli_error, 'w) io"
where
  "flash_attempts B attempt 0 opts explicit enter info pac w = Some (Panic, w)"
| "flash_attempts B attempt (Suc n) opts explicit enter info pac w =
     io_bind (resolve_download_port B explicit enter) (\<lambda>port.
     io_bind (io_map_err CliOpen (serial_open B port 115200)) (\<lambda>_ w1.
       case run (serial B port) opts info pac w1 of
         None \<Rightarrow> None
       | Some (Ok out, w2) \<Rightarrow> Some (Ok out, os_close B port w2)
       | Some (Panic, w2) \<Rightarrow> Some (Panic, os_close B port w2)
       | Some (Err e, w2) \<Rightarrow>
           (case e of
              FlashPdl x \<Rightarrow>
                (if attempt = 0
                 then io_bind (reset_and_wait B port)
                        (\<lambda>_. flash_attempts B (attempt + 1) n opts explicit enter info pac) w2
                 else Some (Err (CliFlash e), os_close B port w2))
            | _ \<Rightarrow> Some (Err (CliFlash e), os_close B port w2)))) w"

definition flash_with_recovery ::
    "'w bench \<Rightarrow> flash_options \<Rightarrow> rust_string option \<Rightarrow> bool \<Rightarrow> pac_info \<Rightarrow> u8 list \<Rightarrow>
       (flash_outcome, cli_error, 'w) io"
where
  "flash_with_recovery B = flash_attempts B 0 2"

text \<open>\<open>cmd_flash\<close> on the bytes of the PAC, with the options from its arguments; the ports seen when the boot is awaited.\<close>

record flash_args =
  fa_port :: "rust_string option"
  fa_enter_download :: bool
  fa_format :: bool
  fa_chunk :: nat
  fa_baud :: "u32 option"
  fa_timeout :: nat
  fa_verify_readback :: bool
  fa_no_reset :: bool
  fa_verify :: bool

definition flash_args_options :: "flash_args \<Rightarrow> flash_options" where
  "flash_args_options a =
     default_options\<lparr>opt_format := fa_format a, opt_chunk := fa_chunk a, opt_baud := fa_baud a,
       opt_verify_readback := fa_verify_readback a, opt_reset := \<not> fa_no_reset a,
       opt_timeout := max (fa_timeout a) 100\<rparr>"

text \<open>The check every command makes that writes to a device.\<close>

definition checked_pac :: "u8 list \<Rightarrow> bool \<Rightarrow> (pac_info, cli_error) result" where
  "checked_pac pac verify =
     rbind (map_err CliPac (parse pac verify)) (\<lambda>info. if crc_ok info then Ok info else Err CliChecksum)"

definition flash_pac ::
    "'w bench \<Rightarrow> flash_args \<Rightarrow> u8 list \<Rightarrow> (flash_outcome \<times> port_info list option, cli_error, 'w) io"
where
  "flash_pac B a pac =
     io_bind (io_lift (checked_pac pac (fa_verify a))) (\<lambda>info.
     io_bind (flash_with_recovery B (flash_args_options a) (fa_port a) (fa_enter_download a) info pac) (\<lambda>out.
       if fa_verify a \<and> \<not> fa_no_reset a
       then io_bind (wait_for_module B 60000) (\<lambda>m. io_return (out, Some m))
       else io_return (out, None)))"

definition cmd_reset :: "'w bench \<Rightarrow> rust_string option \<Rightarrow> (rust_string, cli_error, 'w) io" where
  "cmd_reset B port =
     io_bind (case port of
                Some p \<Rightarrow> io_return p
              | None \<Rightarrow> io_bind (io_query (find_download_port B)) (\<lambda>d.
                          io_lift (ok_or (map_option info_name d) CliNoDownloadPort))) (\<lambda>name.
     io_bind (io_map_err CliOpen (serial_open B name 115200)) (\<lambda>_.
     io_bind (owning B name (send_normal_reset B name)) (\<lambda>_.
       io_return name)))"

section \<open>Dumps\<close>

text \<open>What is read: the regions given, or the partitions of the PAC, with the names of their files.\<close>

fun region_targets :: "rust_string list \<Rightarrow> ((rust_string \<times> u32 \<times> u32) list, cli_error) result" where
  "region_targets [] = Ok []"
| "region_targets (s # ss) =
     rbind (parse_region s) (\<lambda>(addr, sz).
       rmap ((#) (str ''region_'' @ fmt_hex8 (unat addr), addr, sz)) (region_targets ss))"

definition dump_targets :: "pac_info \<Rightarrow> rust_string list \<Rightarrow> ((rust_string \<times> u32 \<times> u32) list, cli_error) result" where
  "dump_targets info specs =
     (if specs = []
      then rbind (map_err CliPlan (build info)) (\<lambda>plan.
             if partitions plan = [] then Err CliNoPartitions
             else Ok (map (\<lambda>e. (file_id e, entry_address e, entry_size e)) (partitions plan)))
      else region_targets specs)"

text \<open>\<open>prepare\<close> creates the output directory, between the parse and the search for the port, and
  \<open>store\<close> writes the files, while the port is still held.\<close>

definition dump_pac ::
    "'w bench \<Rightarrow> (unit, cli_error, 'w) io \<Rightarrow> ((rust_string \<times> u8 list) list \<Rightarrow> (unit, cli_error, 'w) io) \<Rightarrow>
       u8 list \<Rightarrow> rust_string list \<Rightarrow> bool \<Rightarrow> rust_string option \<Rightarrow> bool \<Rightarrow> (unit, cli_error, 'w) io"
where
  "dump_pac B prepare store pac specs full port enter =
     io_bind (io_lift (map_err CliPac (parse pac False))) (\<lambda>info.
     io_bind prepare (\<lambda>_.
     io_bind (resolve_download_port B port enter) (\<lambda>dl.
     io_bind (io_map_err CliOpen (serial_open B dl 115200)) (\<lambda>_.
       owning B dl
         (if full
          then io_bind (io_map_err CliFlash (dump_full (serial B dl) default_options info pac 0x60000000)) (\<lambda>(image, sz).
                 store [(str ''flash.bin'', image)])
          else io_bind (io_lift (dump_targets info specs)) (\<lambda>targets.
               io_bind (io_map_err CliFlash
                 (dump (serial B dl) default_options info pac (map (\<lambda>(_, a, s). (a, s)) targets))) (\<lambda>dumps.
                 store (map (\<lambda>((name, _, _), data). (name @ str ''.bin'', data)) (zip targets dumps)))))))))"

section \<open>The command probe\<close>

text \<open>The info commands, then a read at rising addresses, the megabytes computed with checks.\<close>

definition info_commands :: "u16 list" where
  "info_commands = [CMD_READ_CHIP_TYPE, CMD_READ_CHIP_UID, 0x0C, 0x0D, 0x29, CMD_READ_PARTITION]"

definition extent_megabytes :: "u32 list" where
  "extent_megabytes = [4, 8, 12, 16, 24, 32, 48, 64]"

definition parts_commands :: "(u16 \<times> u8 list) list" where
  "parts_commands =
     map (\<lambda>c. (c, [])) info_commands @
     map (\<lambda>mb. (CMD_READ_FLASH, read_flash_req (0x60000000 + mb * 1024 * 1024) 16)) extent_megabytes"

definition parts_pac ::
    "'w bench \<Rightarrow> u8 list \<Rightarrow> rust_string option \<Rightarrow> bool \<Rightarrow> ((u16 \<times> u8 list) list, cli_error, 'w) io"
where
  "parts_pac B pac port enter =
     io_bind (io_lift (map_err CliPac (parse pac False))) (\<lambda>info.
     io_bind (resolve_download_port B port enter) (\<lambda>dl.
     io_bind (io_map_err CliOpen (serial_open B dl 115200)) (\<lambda>_.
       owning B dl (io_map_err CliFlash (probe_commands (serial B dl) default_options info pac parts_commands)))))"

section \<open>Offline commands\<close>

definition layout_image :: "u8 list \<Rightarrow> (region list \<times> rust_string, cli_error) result" where
  "layout_image img =
     (case reconstruct img NOR_BASE of
        Ok regions \<Rightarrow> if regions = [] then Err CliNoContent else Ok (regions, to_bmaconfig_xml regions)
      | _ \<Rightarrow> Panic)"

definition port_tag :: "os_port \<Rightarrow> string" where
  "port_tag p =
     (case os_port_type p of
        UsbPort vid pid _ \<Rightarrow>
          (if vid = DOWNLOAD_VID \<and> pid = DOWNLOAD_PID then ''  <- BootROM download port''
           else if vid = MODULE_VID then ''  <- module (normal mode)'' else [])
      | _ \<Rightarrow> [])"

section \<open>Setting up a line\<close>

text \<open>\<open>splitn(n, c)\<close> for \<open>n > 0\<close>.\<close>

fun splitn :: "nat \<Rightarrow> u32 \<Rightarrow> rust_string \<Rightarrow> rust_string list" where
  "splitn (Suc (Suc n)) c s =
     (case split_once c s of None \<Rightarrow> [s] | Some (a, b) \<Rightarrow> a # splitn (Suc n) c b)"
| "splitn (Suc 0) c s = [s]"
| "splitn 0 c s = []"

definition nonempty_part :: "rust_string list \<Rightarrow> nat \<Rightarrow> rust_string option" where
  "nonempty_part ps i = (if i < length ps \<and> ps ! i \<noteq> [] then Some (ps ! i) else None)"

definition station_spec :: "rust_string \<Rightarrow> station_config" where
  "station_spec s =
     (let ps = splitn 3 58 s
      in \<lparr>st_label = (case ps of [] \<Rightarrow> str ''station'' | l # _ \<Rightarrow> l),
          st_at_port = nonempty_part ps 1, st_download_port = nonempty_part ps 2\<rparr>)"

definition build_stations :: "'w bench \<Rightarrow> rust_string list \<Rightarrow> (station_config list, cli_error, 'w) io" where
  "build_stations B specs =
     (if specs = []
      then io_bind (io_query (find_module_ports B)) (\<lambda>mods.
           io_bind (io_query (find_download_port B)) (\<lambda>d.
             let at_port = map_option info_name (find at_product mods); dl = map_option info_name d
             in if at_port = None \<and> dl = None then io_fail CliNoStation
                else io_return [\<lparr>st_label = str ''station-1'', st_at_port = at_port, st_download_port = dl\<rparr>]))
      else io_return (map station_spec specs))"

record line_args =
  la_stations :: "rust_string list"
  la_format :: bool
  la_chunk :: nat
  la_retries :: u32
  la_verify :: bool
  la_work_order :: "rust_string option"
  la_operator :: "rust_string option"
  la_records :: "rust_string option"
  la_metrics_addr :: "rust_string option"
  la_continuous :: bool

text \<open>\<open>cmd_line\<close> up to the run of the line: its configuration and the PAC all units share. The
  process then fails if a unit failed.\<close>

definition line_setup :: "'w bench \<Rightarrow> line_args \<Rightarrow> u8 list \<Rightarrow> (pac_info \<times> line_config, cli_error, 'w) io" where
  "line_setup B a pac =
     io_bind (io_lift (checked_pac pac True)) (\<lambda>info.
     io_bind (build_stations B (la_stations a)) (\<lambda>stations.
       io_return (info,
         \<lparr>ln_stations = stations, ln_format = la_format a, ln_chunk = la_chunk a, ln_verify = la_verify a,
          ln_retries = la_retries a, ln_work_order = la_work_order a, ln_operator = la_operator a,
          ln_records_path = la_records a, ln_metrics_addr = la_metrics_addr a, ln_continuous = la_continuous a\<rparr>)))"

definition line_exit_code :: "line_summary \<Rightarrow> nat" where
  "line_exit_code sm = (if 0 < sum_failed sm then 1 else 0)"

section \<open>Every command returns\<close>

context live_bench
begin

lemma total_resolve: "io_total live (resolve_download_port B explicit enter)"
  unfolding resolve_download_port_def
  by (auto intro!: io_total_bind total_query enumeration_moves io_total_map_err total_enter_download_mode
      total_wait_for_download_port simp del: io_basic_simps split: option.splits)

lemma total_ignore: "io_total live act \<Longrightarrow> io_total live (io_ignore act)"
  unfolding io_total_def io_ignore_def by (fastforce split: result.splits)

lemma await_reboot_moves: "live w \<Longrightarrow> moves_on B live w (snd (await_reboot B n w))"
proof (induction n arbitrary: w)
  case (Suc n)
  obtain d w1 where d: "find_download_port B w = (d, w1)" by fastforce
  obtain m w2 where m: "find_module_ports B w1 = (m, w2)" by fastforce
  have w1: "moves_on B live w w1" using enumeration_moves(2) [OF Suc.prems] d by simp
  then have w2: "moves_on B live w w2" using enumeration_moves(3) [of w1] m by (auto simp: moves_on_def)
  then have "moves_on B live w (os_sleep B 500 w2)"
    using sleep_live [of w2 500] sleep_takes_time [of w2 500] by (auto simp: moves_on_def)
  then have "moves_on B live w (snd (await_reboot B n (os_sleep B 500 w2)))"
    using Suc.IH [of "os_sleep B 500 w2"] by (auto simp: moves_on_def)
  with w1 w2 d m show ?case by (auto split: option.splits)
qed (simp add: moves_on_def)

lemma total_send_normal_reset: "io_total live (send_normal_reset B port)"
proof -
  have "io_total live (write_all (serial B port) msg)" for msg
    using wire.write_returns unfolding io_total_def by blast
  moreover have "io_total live (io_modify (reset_teardown (serial B port) 1000))"
    using wire.teardown_live by (simp add: io_total_def)
  ultimately show ?thesis
    unfolding send_normal_reset_def by (intro io_total_bind total_ignore io_total_basic) auto
qed

lemma total_reset_and_wait: "io_total live (reset_and_wait B port)"
  unfolding reset_and_wait_def
  by (auto intro!: io_total_bind total_owning total_send_normal_reset total_query await_reboot_moves total_sleep
      simp del: io_basic_simps)

lemma total_flash_attempts: "io_total live (flash_attempts B attempt n opts explicit enter info pac)"
proof (induction n arbitrary: attempt)
  case (Suc n)
  have "io_total live (\<lambda>w1. case run (serial B port) opts info pac w1 of
         None \<Rightarrow> None
       | Some (Ok out, w2) \<Rightarrow> Some (Ok out, os_close B port w2)
       | Some (Panic, w2) \<Rightarrow> Some (Panic, os_close B port w2)
       | Some (Err e, w2) \<Rightarrow>
           (case e of
              FlashPdl x \<Rightarrow>
                (if attempt = 0
                 then io_bind (reset_and_wait B port)
                        (\<lambda>_. flash_attempts B (attempt + 1) n opts explicit enter info pac) w2
                 else Some (Err (CliFlash e), os_close B port w2))
            | _ \<Rightarrow> Some (Err (CliFlash e), os_close B port w2)))" for port
    unfolding io_total_def
  proof (intro allI impI)
    fix w1
    assume "live w1"
    from io_totalD [OF wire.total_run this, of port opts info pac] obtain r w2 where
      r: "run (serial B port) opts info pac w1 = Some (r, w2)" "live w2" by blast
    have again: "io_total live (io_bind (reset_and_wait B port)
        (\<lambda>_. flash_attempts B (attempt + 1) n opts explicit enter info pac))"
      by (intro io_total_bind total_reset_and_wait Suc.IH)
    from close_moves [OF r(2)] r(1) io_totalD [OF again r(2)]
    show "\<exists>r w'. (case run (serial B port) opts info pac w1 of
         None \<Rightarrow> None
       | Some (Ok out, w2) \<Rightarrow> Some (Ok out, os_close B port w2)
       | Some (Panic, w2) \<Rightarrow> Some (Panic, os_close B port w2)
       | Some (Err e, w2) \<Rightarrow>
           (case e of
              FlashPdl x \<Rightarrow>
                (if attempt = 0
                 then io_bind (reset_and_wait B port)
                        (\<lambda>_. flash_attempts B (attempt + 1) n opts explicit enter info pac) w2
                 else Some (Err (CliFlash e), os_close B port w2))
            | _ \<Rightarrow> Some (Err (CliFlash e), os_close B port w2))) = Some (r, w') \<and> live w'"
      by (cases r) (auto simp: moves_on_def split: flash_error.splits)
  qed
  then show ?case
    unfolding flash_attempts.simps
    by (intro io_total_bind total_resolve io_total_map_err total_serial_open)
qed (simp add: io_total_def)

end

end
