(* ===== verification/Device.thy ===== *)
theory Device
  imports Flasher "HOL-Library.Sublist"
begin

text \<open>
  What the driver relies on, as contracts. \<open>bsl_device\<close>: a device in its command loop that answers
  each BSL message by one step on its state, or stays silent. \<open>flash_device\<close>: its staged writes
  and reads act on a memory, whatever replies get lost. The lemmas run the driver of
  \<open>Bsl_Io\<close> and \<open>Flasher\<close> against the contracts; the mock device provides them.
\<close>

section \<open>Message exchange\<close>

definition MAX_MESSAGE :: nat where
  "MAX_MESSAGE = 65535"

definition MAX_REPLY :: nat where
  "MAX_REPLY = 1024"

type_synonym 'd device_step = "u16 \<Rightarrow> u8 list \<Rightarrow> 'd \<Rightarrow> (u16 \<times> u8 list) option \<times> 'd"

locale bsl_device =
  fixes T :: "'w transport" and ready :: "'w \<Rightarrow> bool" and dev :: "'w \<Rightarrow> 'd"
    and step :: "'d device_step"
  assumes exchange_reply:
    "ready w \<Longrightarrow> io_checksum io = Sprd \<Longrightarrow> length data \<le> MAX_MESSAGE \<Longrightarrow> 0 < timeout \<Longrightarrow>
     step cmd data (dev w) = (Some (t, d), s') \<Longrightarrow> length d \<le> MAX_REPLY \<Longrightarrow>
     \<exists>w1 w2. bsl_send T io cmd data w = Some (Ok (), w1) \<and> recv T timeout w1 = Some (Ok (t, d), w2) \<and>
       ready w2 \<and> dev w2 = s'"
    and exchange_silent:
    "ready w \<Longrightarrow> io_checksum io = Sprd \<Longrightarrow> length data \<le> MAX_MESSAGE \<Longrightarrow>
     step cmd data (dev w) = (None, s') \<Longrightarrow>
     \<exists>w1 w2 e. bsl_send T io cmd data w = Some (Ok (), w1) \<and> ready w1 \<and> dev w1 = s' \<and>
       recv T timeout w1 = Some (Err (BslTransport (TransportTimeout e)), w2) \<and> ready w2 \<and> dev w2 = s'"
    and purge_ready: "ready w \<Longrightarrow> ready (purge_input T w) \<and> dev (purge_input T w) = dev w"
    and teardown_ready: "ready w \<Longrightarrow> ready (reset_teardown T hold w) \<and> dev (reset_teardown T hold w) = dev w"
    and baud_ready: "ready w \<Longrightarrow> \<exists>w'. set_baud T baud w = Some (Ok (), w') \<and> ready w' \<and> dev w' = dev w"
begin

text \<open>The outcome of a command, by the device's answer.\<close>

lemma command_reply:
  assumes "ready w" "io_checksum io = Sprd" "length data \<le> MAX_MESSAGE" "0 < timeout"
    and "step cmd data (dev w) = (Some (t, d), s')" "length d \<le> MAX_REPLY"
  shows "\<exists>w'. command T io cmd data expect timeout what w =
      Some (if t = expect then Ok d else Err (BslUnexpected what (rep_name expect) (rep_name t)), w') \<and>
    ready w' \<and> dev w' = s'"
  using exchange_reply [OF assms] by (auto simp: command_def)

lemma command_silent:
  assumes "ready w" "io_checksum io = Sprd" "length data \<le> MAX_MESSAGE"
    and "step cmd data (dev w) = (None, s')"
  shows "\<exists>w' e. command T io cmd data expect timeout what w =
      Some (Err (BslTransport (TransportTimeout e)), w') \<and> ready w' \<and> dev w' = s'"
proof -
  from exchange_silent [OF assms, of timeout] obtain w1 w2 e where
    "bsl_send T io cmd data w = Some (Ok (), w1)"
    "recv T timeout w1 = Some (Err (BslTransport (TransportTimeout e)), w2)" "ready w2" "dev w2 = s'"
    by blast
  then show ?thesis by (intro exI [of _ w2] exI [of _ e]) (simp add: command_def)
qed

text \<open>A command that succeeded was answered with the expected type.\<close>

lemma command_Ok_dest:
  assumes "ready w" "io_checksum io = Sprd" "length data \<le> MAX_MESSAGE" "0 < timeout"
    and small: "\<And>t d s'. step cmd data (dev w) = (Some (t, d), s') \<Longrightarrow> length d \<le> MAX_REPLY"
    and "command T io cmd data expect timeout what w = Some (r, w')"
  shows "ready w' \<and> dev w' = snd (step cmd data (dev w)) \<and> r \<noteq> Panic \<and>
    (\<forall>d. r = Ok d \<longrightarrow> fst (step cmd data (dev w)) = Some (expect, d))"
proof (cases "step cmd data (dev w)")
  case (Pair reply s')
  show ?thesis
  proof (cases reply)
    case None
    with command_silent [OF assms(1,2,3), of cmd s' expect timeout what] Pair assms(6)
    show ?thesis by auto
  next
    case (Some td)
    obtain t d where td: "td = (t, d)" by fastforce
    with Pair Some have step: "step cmd data (dev w) = (Some (t, d), s')" by simp
    from command_reply [OF assms(1-4) step small [OF step], of expect what] assms(6) step
    show ?thesis by (auto split: if_splits)
  qed
qed

end

text \<open>A session over the device: the Spreadtrum sum and a timeout of its own.\<close>

definition session :: "bsl_io \<Rightarrow> bool" where
  "session io \<longleftrightarrow> io_checksum io = Sprd \<and> 0 < io_timeout io"

text \<open>Outcomes of an action that only acknowledged commands make up.\<close>

definition acked :: "('a, bsl_error) result \<Rightarrow> 'a \<Rightarrow> bool" where
  "acked res x \<longleftrightarrow> res = Ok x \<or> (\<exists>e. res = Err e \<and> is_timeout e)"

text \<open>The memory after writing the payloads of \<open>es\<close> (each as \<open>f\<close> prepares it) in order, and how many
  bytes that is.\<close>

definition store_all ::
    "(pac_entry \<Rightarrow> u8 list) \<Rightarrow> pac_entry list \<Rightarrow> (u32 \<rightharpoonup> u8 list) \<Rightarrow> u32 \<rightharpoonup> u8 list" where
  "store_all f es m = foldl (\<lambda>m e. m(entry_address e \<mapsto> f e)) m es"

definition payload_of :: "u8 list \<Rightarrow> pac_entry \<Rightarrow> u8 list" where
  "payload_of pac e = the (payload e pac)"

definition marker_image :: "u8 list \<Rightarrow> pac_entry \<Rightarrow> u8 list" where
  "marker_image pac e =
     (if is_nv (file_id e) then nv_fix_crc (payload_of pac e) else payload_of pac e)"

definition payload_bytes :: "u8 list \<Rightarrow> pac_entry list \<Rightarrow> nat" where
  "payload_bytes pac es = (\<Sum>e\<leftarrow>es. length (payload_of pac e))"

lemma store_all_simps [simp]:
  "store_all f [] m = m"
  "store_all f (e # es) m = store_all f es (m(entry_address e \<mapsto> f e))"
  by (simp_all add: store_all_def)

lemma payload_bytes_simps [simp]:
  "payload_bytes pac [] = 0"
  "payload_bytes pac (e # es) = length (payload_of pac e) + payload_bytes pac es"
  by (simp_all add: payload_bytes_def)

section \<open>A flash memory behind the link\<close>

text \<open>The blocks of a memory do not overlap or wrap; and where it holds a run of bytes.\<close>

definition disjoint_mem :: "(u32 \<rightharpoonup> u8 list) \<Rightarrow> bool" where
  "disjoint_mem m \<longleftrightarrow>
     (\<forall>a x. m a = Some x \<longrightarrow> unat a + length x \<le> 4294967296) \<and>
     (\<forall>a b x y. m a = Some x \<longrightarrow> m b = Some y \<longrightarrow> unat a < unat b \<longrightarrow> unat a + length x \<le> unat b)"

definition holds_at :: "(u32 \<rightharpoonup> u8 list) \<Rightarrow> u32 \<Rightarrow> u8 list \<Rightarrow> bool" where
  "holds_at m addr data \<longleftrightarrow>
     (\<exists>base block off. m base = Some block \<and> addr = base + word_of_nat off \<and>
        off + length data \<le> length block \<and> data = take (length data) (drop off block))"

lemma holds_at_block: "m addr = Some data \<Longrightarrow> holds_at m addr data"
  unfolding holds_at_def by (intro exI [of _ addr] exI [of _ data] exI [of _ 0]) simp

text \<open>Writing the payloads one by one never makes two blocks overlap.\<close>

definition disjoint_throughout :: "u8 list \<Rightarrow> pac_entry list \<Rightarrow> (u32 \<rightharpoonup> u8 list) \<Rightarrow> bool" where
  "disjoint_throughout pac es m \<longleftrightarrow>
     (\<forall>k. k < length es \<longrightarrow> disjoint_mem (store_all (payload_of pac) (take (Suc k) es) m))"

lemma disjoint_throughout_Cons:
  "disjoint_throughout pac (e # es) m \<longleftrightarrow>
     disjoint_mem (m(entry_address e \<mapsto> payload_of pac e)) \<and>
     disjoint_throughout pac es (m(entry_address e \<mapsto> payload_of pac e))"
  by (auto simp: disjoint_throughout_def All_less_Suc2)

locale flash_device = bsl_device T ready dev step
  for T :: "'w transport" and ready :: "'w \<Rightarrow> bool" and dev :: "'w \<Rightarrow> 'd" and step :: "'d device_step" +
  fixes cur :: "'d \<Rightarrow> (u32 \<times> u8 list) option" and mem :: "'d \<Rightarrow> u32 \<rightharpoonup> u8 list"
    and view :: "'d \<Rightarrow> u32 \<Rightarrow> nat \<Rightarrow> u8 list option" and losses :: "'d \<Rightarrow> nat"
    and intact :: "'d \<Rightarrow> bool"
  assumes start_step:
    "step CMD_START_DATA (to_be32 addr @ rest) s = (r, s') \<Longrightarrow>
       r \<in> {None, Some (REP_ACK, [])} \<and> cur s' = Some (addr, []) \<and> mem s' = mem s"
    and midst_step:
    "step CMD_MIDST_DATA data s = (r, s') \<Longrightarrow>
       r \<in> {None, Some (REP_ACK, [])} \<and> mem s' = mem s \<and>
       cur s' = map_option (\<lambda>(a, buf). (a, buf @ data)) (cur s)"
    and end_step:
    "step CMD_END_DATA [] s = (r, s') \<Longrightarrow>
       r \<in> {None, Some (REP_ACK, [])} \<and> cur s' = None \<and>
       mem s' = (case cur s of None \<Rightarrow> mem s | Some (a, buf) \<Rightarrow> (mem s)(a \<mapsto> buf))"
    and control_step:
    "cmd \<in> {CMD_CONNECT, CMD_EXEC_DATA, CMD_CHANGE_BAUD, CMD_ERASE_FLASH} \<Longrightarrow>
     step cmd data s = (r, s') \<Longrightarrow>
       r \<in> {None, Some (REP_ACK, [])} \<and> cur s' = cur s \<and> mem s' = mem s"
    and reset_step:
    "step CMD_NORMAL_RESET [] s = (r, s') \<Longrightarrow> r = None \<and> cur s' = cur s \<and> mem s' = mem s"
    and read_step:
    "step CMD_READ_FLASH (to_be32 addr @ to_be32 (word_of_nat n) @ to_be32 0) s = (r, s') \<Longrightarrow>
     n \<le> MAX_REPLY \<Longrightarrow>
       r \<in> {None, Some (case view s addr n of None \<Rightarrow> (REP_INVALID_CMD, []) | Some bs \<Rightarrow> (REP_READ_FLASH, bs))} \<and>
       cur s' = cur s \<and> mem s' = mem s \<and> view s' = view s"
    and view_length: "view s addr n = Some bs \<Longrightarrow> length bs \<le> n"
    and losses_step: "losses (snd (step cmd data s)) \<le> losses s"
    and losses_silent: "cmd \<noteq> CMD_NORMAL_RESET \<Longrightarrow> fst (step cmd data s) = None \<Longrightarrow>
      losses (snd (step cmd data s)) < losses s"
    and intact_step: "intact s \<Longrightarrow> intact (snd (step cmd data s))"
    and intact_view: "intact s \<Longrightarrow> disjoint_mem (mem s) \<Longrightarrow> mem s base = Some block \<Longrightarrow>
      off < length block \<Longrightarrow> n \<le> MAX_REPLY \<Longrightarrow>
      view s (base + word_of_nat off) n = Some (take n (drop off block))"
    and intact_absent: "intact s \<Longrightarrow>
      (\<And>a x. mem s a = Some x \<Longrightarrow> \<not> (unat a \<le> unat addr \<and> unat addr < unat a + length x)) \<Longrightarrow>
      view s addr n = None"
begin

text \<open>\<open>losses\<close> bounds the replies still to be lost, and an action that did not succeed has used one
  up; an \<open>intact\<close> device reads back what it holds. A healthy device is intact and loses nothing.\<close>

definition healthy :: "'d \<Rightarrow> bool" where
  "healthy s \<longleftrightarrow> losses s = 0 \<and> intact s"

definition paid :: "bool \<Rightarrow> 'd \<Rightarrow> 'd \<Rightarrow> bool" where
  "paid ok s s' \<longleftrightarrow>
     losses s' \<le> losses s \<and> (\<not> ok \<longrightarrow> losses s' < losses s) \<and> (intact s \<longrightarrow> intact s')"

lemma paid_refl [simp]: "paid True s s"
  by (simp add: paid_def)

lemma paid_trans: "paid True s s' \<Longrightarrow> paid ok s' s'' \<Longrightarrow> paid ok s s''"
  by (auto simp: paid_def)

lemma paid_weaken: "paid ok s s' \<Longrightarrow> paid True s s'"
  by (simp add: paid_def)

lemma paid_healthy: "paid ok s s' \<Longrightarrow> healthy s \<Longrightarrow> ok \<and> healthy s'"
  by (auto simp: paid_def healthy_def)

lemma paid_intact: "paid ok s s' \<Longrightarrow> intact s \<Longrightarrow> intact s'"
  by (simp add: paid_def)

lemma healthy_answers: "cmd \<noteq> CMD_NORMAL_RESET \<Longrightarrow> healthy s \<Longrightarrow> fst (step cmd data s) \<noteq> None"
  using losses_silent [of cmd data s] unfolding healthy_def by fastforce

lemma healthy_kept: "healthy s \<Longrightarrow> healthy (snd (step cmd data s))"
  using losses_step [of cmd data s] intact_step [of s cmd data] by (simp add: healthy_def)

lemma ack_command:
  assumes "ready w" "io_checksum io = Sprd" "length data \<le> MAX_MESSAGE" "0 < timeout"
    and "step cmd data (dev w) = (r, s')" "r \<in> {None, Some (REP_ACK, [])}" "cmd \<noteq> CMD_NORMAL_RESET"
  obtains res w' where "command T io cmd data REP_ACK timeout what w = Some (res, w')"
    and "ready w'" and "dev w' = s'" and "res = Ok [] \<or> (\<exists>e. res = Err e \<and> is_timeout e)"
    and "paid (res = Ok []) (dev w) s'"
proof (cases r)
  case None
  with assms(5) have step: "step cmd data (dev w) = (None, s')" by simp
  obtain w' e where "command T io cmd data REP_ACK timeout what w = Some (Err (BslTransport (TransportTimeout e)), w')"
    "ready w'" "dev w' = s'"
    using command_silent [OF assms(1-3) step] by blast
  moreover have "paid False (dev w) s'"
    using losses_silent [OF assms(7), of data "dev w"] intact_step [of "dev w" cmd data] step by (simp add: paid_def)
  ultimately show ?thesis using that by (simp add: is_timeout_def)
next
  case (Some td)
  with assms(5,6) have step: "step cmd data (dev w) = (Some (REP_ACK, []), s')" by simp
  obtain w' where "command T io cmd data REP_ACK timeout what w = Some (Ok [], w')" "ready w'" "dev w' = s'"
    using command_reply [OF assms(1-4) step, of REP_ACK what] by (auto simp: MAX_REPLY_def)
  moreover have "paid True (dev w) s'" using losses_step [of cmd data "dev w"] intact_step [of "dev w" cmd data] step
    by (simp add: paid_def)
  ultimately show ?thesis using that by simp
qed

lemma control_command:
  assumes "ready w" "io_checksum io = Sprd" "length data \<le> MAX_MESSAGE" "0 < timeout"
    and "cmd \<in> {CMD_CONNECT, CMD_EXEC_DATA, CMD_CHANGE_BAUD, CMD_ERASE_FLASH}"
  obtains res w' where "command T io cmd data REP_ACK timeout what w = Some (res, w')"
    and "ready w'" and "acked res []" and "cur (dev w') = cur (dev w)" and "mem (dev w') = mem (dev w)"
    and "paid (res = Ok []) (dev w) (dev w')"
proof -
  obtain r s' where step: "step cmd data (dev w) = (r, s')" by fastforce
  note c = control_step [OF assms(5) step]
  have "cmd \<noteq> CMD_NORMAL_RESET" using assms(5) by (auto simp: opcode_defs)
  from ack_command [OF assms(1-4) step conjunct1 [OF c] this, of what] obtain res w' where
    "command T io cmd data REP_ACK timeout what w = Some (res, w')" "ready w'" "dev w' = s'"
    "res = Ok [] \<or> (\<exists>e. res = Err e \<and> is_timeout e)"
    "paid (res = Ok []) (dev w) s'" by metis
  with c that show ?thesis by (simp add: acked_def)
qed

lemma connect_outcome:
  assumes "ready w" "session io"
  obtains res w' where "bsl_connect T io w = Some (res, w')" and "ready w'" and "acked res ()"
    and "cur (dev w') = cur (dev w)" and "mem (dev w') = mem (dev w)"
    and "paid (res = Ok ()) (dev w) (dev w')"
proof -
  have io: "io_checksum io = Sprd" "0 < io_timeout io" using assms(2) by (simp_all add: session_def)
  from control_command [OF assms(1) io(1) _ io(2), of "[]" CMD_CONNECT "''CONNECT''"]
  obtain res w' where c: "command T io CMD_CONNECT [] REP_ACK (io_timeout io) ''CONNECT'' w = Some (res, w')"
    and w': "ready w'" "acked res []" "cur (dev w') = cur (dev w)" "mem (dev w') = mem (dev w)"
      "paid (res = Ok []) (dev w) (dev w')"
    by (metis MAX_MESSAGE_def insertI1 list.size(3) zero_le)
  show ?thesis
  proof (cases res)
    case (Ok x)
    with c have "bsl_connect T io w = Some (Ok (), w')" by (simp add: bsl_connect_def)
    with w' Ok that show ?thesis by (auto simp: acked_def)
  next
    case (Err e)
    with c have "bsl_connect T io w = Some (Err e, w')" by (simp add: bsl_connect_def)
    with w' Err that show ?thesis by (auto simp: acked_def)
  qed (use w' in \<open>simp add: acked_def\<close>)
qed

lemma pieces_outcome:
  assumes "ready w" "io_checksum io = Sprd" "0 < timeout" "\<forall>p \<in> set ps. length p \<le> MAX_MESSAGE"
    and "cur (dev w) = Some (a, buf)"
  shows "\<exists>res w'. send_pieces T io timeout what ps w = Some (res, w') \<and> ready w' \<and> acked res () \<and>
    mem (dev w') = mem (dev w) \<and> (res = Ok () \<longrightarrow> cur (dev w') = Some (a, buf @ concat ps)) \<and>
    paid (res = Ok ()) (dev w) (dev w')"
  using assms
proof (induction ps arbitrary: w buf)
  case Nil
  then show ?case by (simp add: acked_def)
next
  case (Cons p ps)
  obtain r s' where step: "step CMD_MIDST_DATA p (dev w) = (r, s')" by fastforce
  note m = midst_step [OF step]
  have len: "length p \<le> MAX_MESSAGE" and ne: "CMD_MIDST_DATA \<noteq> CMD_NORMAL_RESET"
    using Cons.prems(4) by (simp_all add: opcode_defs)
  from ack_command [OF Cons.prems(1,2) len Cons.prems(3) step conjunct1 [OF m] ne, of what]
  obtain res w1 where c: "command T io CMD_MIDST_DATA p REP_ACK timeout what w = Some (res, w1)"
    and w1: "ready w1" "dev w1 = s'" "res = Ok [] \<or> (\<exists>e. res = Err e \<and> is_timeout e)"
      "paid (res = Ok []) (dev w) s'" by metis
  show ?case
  proof (cases "res = Ok []")
    case True
    have "cur (dev w1) = Some (a, buf @ p)" using m w1(2) Cons.prems(5) by simp
    from Cons.IH [OF w1(1) Cons.prems(2,3) _ this] Cons.prems(4) obtain res2 w2 where
      "send_pieces T io timeout what ps w1 = Some (res2, w2)" "ready w2" "acked res2 ()"
      "mem (dev w2) = mem (dev w1)" "res2 = Ok () \<longrightarrow> cur (dev w2) = Some (a, (buf @ p) @ concat ps)"
      "paid (res2 = Ok ()) (dev w1) (dev w2)" by auto
    with c True w1 m show ?thesis by (intro exI [of _ res2] exI [of _ w2]) (auto intro: paid_trans)
  next
    case False
    with w1(3) obtain e where e: "res = Err e" "is_timeout e" by auto
    have "send_pieces T io timeout what (p # ps) w = Some (Err e, w1)" using c e by simp
    then show ?thesis using w1 m e False by (auto simp: acked_def)
  qed
qed

text \<open>From \<open>w\<close> to \<open>w'\<close> the device was written at \<open>addr\<close>, for certain if \<open>ok\<close>; a healthy device
  always gets there.\<close>

definition writes_to :: "u32 \<Rightarrow> u8 list \<Rightarrow> 'w \<Rightarrow> bool \<Rightarrow> 'w \<Rightarrow> bool" where
  "writes_to addr data w ok w' \<longleftrightarrow>
     ready w' \<and> mem (dev w') \<in> {mem (dev w), (mem (dev w))(addr \<mapsto> data)} \<and>
     (ok \<longrightarrow> mem (dev w') = (mem (dev w))(addr \<mapsto> data)) \<and>
     paid ok (dev w) (dev w')"

text \<open>The one shape both staged writes have: \<open>START\<close>, the pieces, \<open>END\<close>.\<close>

lemma staged_outcome:
  assumes "ready w" "io_checksum io = Sprd" "0 < timeout" "\<forall>p \<in> set ps. length p \<le> MAX_MESSAGE"
    and "length rest \<le> 8"
    and act: "act = io_bind (command T io CMD_START_DATA (to_be32 addr @ rest) REP_ACK timeout what1) (\<lambda>_.
      io_bind (send_pieces T io timeout what2 ps) (\<lambda>_.
      io_bind (command T io CMD_END_DATA [] REP_ACK timeout what3) (\<lambda>_. io_return x)))"
  shows "\<exists>res w'. act w = Some (res, w') \<and> acked res x \<and> writes_to addr (concat ps) w (res = Ok x) w'"
proof -
  have ne: "CMD_START_DATA \<noteq> CMD_NORMAL_RESET" "CMD_END_DATA \<noteq> CMD_NORMAL_RESET"
    by (simp_all add: opcode_defs)
  obtain r1 s1 where step1: "step CMD_START_DATA (to_be32 addr @ rest) (dev w) = (r1, s1)" by fastforce
  note st = start_step [OF step1]
  have len: "length (to_be32 addr @ rest) \<le> MAX_MESSAGE" using assms(5) by (simp add: MAX_MESSAGE_def)
  from ack_command [OF assms(1,2) len assms(3) step1 conjunct1 [OF st] ne(1), of what1]
  obtain res1 w1 where c1: "command T io CMD_START_DATA (to_be32 addr @ rest) REP_ACK timeout what1 w = Some (res1, w1)"
    and w1: "ready w1" "dev w1 = s1" "res1 = Ok [] \<or> (\<exists>e. res1 = Err e \<and> is_timeout e)"
      "paid (res1 = Ok []) (dev w) s1" by metis
  show ?thesis
  proof (cases "res1 = Ok []")
    case False
    with w1(3) obtain e where "res1 = Err e" "is_timeout e" by auto
    with c1 w1 st False show ?thesis by (auto simp: act acked_def writes_to_def)
  next
    case ok1: True
    have cur1: "cur (dev w1) = Some (addr, [])" and mem1: "mem (dev w1) = mem (dev w)"
      using st w1(2) by simp_all
    from pieces_outcome [OF w1(1) assms(2,3,4) cur1, of what2] obtain res2 w2 where
      c2: "send_pieces T io timeout what2 ps w1 = Some (res2, w2)" "ready w2" "acked res2 ()"
        "mem (dev w2) = mem (dev w1)" "res2 = Ok () \<longrightarrow> cur (dev w2) = Some (addr, concat ps)"
        "paid (res2 = Ok ()) (dev w1) (dev w2)" by auto
    have h1: "paid True (dev w) (dev w1)" using w1 ok1 by simp
    show ?thesis
    proof (cases "res2 = Ok ()")
      case False
      with c2(3) obtain e where "res2 = Err e" "is_timeout e" by (auto simp: acked_def)
      with c1 ok1 c2 h1 mem1 False show ?thesis by (auto simp: act acked_def writes_to_def intro: paid_trans)
    next
      case ok2: True
      obtain r3 s3 where step3: "step CMD_END_DATA [] (dev w2) = (r3, s3)" by fastforce
      note en = end_step [OF step3]
      from ack_command [OF c2(2) assms(2) _ assms(3) step3 conjunct1 [OF en] ne(2), of what3]
      obtain res3 w3 where c3: "command T io CMD_END_DATA [] REP_ACK timeout what3 w2 = Some (res3, w3)"
        and w3: "ready w3" "dev w3 = s3" "res3 = Ok [] \<or> (\<exists>e. res3 = Err e \<and> is_timeout e)"
          "paid (res3 = Ok []) (dev w2) s3" by (metis list.size(3) zero_le)
      have "mem (dev w3) = (mem (dev w))(addr \<mapsto> concat ps)"
        using en c2 ok2 mem1 w3(2) by simp
      with c1 ok1 c2 ok2 c3 w3 h1 show ?thesis
        by (cases "res3 = Ok []") (auto simp: act acked_def writes_to_def intro: paid_trans paid_trans [OF paid_trans])
    qed
  qed
qed

lemma concat_pieces: "concat (chunks (max c 1) data) = data"
  by simp

lemma pieces_fit: "c \<le> MAX_MESSAGE \<Longrightarrow> \<forall>p \<in> set (chunks (max c 1) data). length p \<le> MAX_MESSAGE"
  using chunks_bounds [of _ "max c 1" data] by (fastforce simp: MAX_MESSAGE_def)

lemma stage_outcome:
  assumes "ready w" "session io" "chunk \<le> MAX_MESSAGE"
  shows "\<exists>res w'. send_stage T io addr data chunk w = Some (res, w') \<and> acked res () \<and>
    writes_to addr data w (res = Ok ()) w'"
  using assms staged_outcome [OF assms(1) _ _ pieces_fit [OF assms(3)], where rest = "to_be32 (word_of_nat (length data))",
      OF _ _ _ send_stage_def]
  by (simp add: session_def)

lemma nv_once_outcome:
  assumes "ready w" "session io" "chunk \<le> MAX_MESSAGE" "0 < opt_timeout opts"
  shows "\<exists>res w'. write_nv_once T opts io addr data chunk w = Some (res, w') \<and>
    acked res (length data) \<and> writes_to addr data w (res = Ok (length data)) w'"
  using assms staged_outcome [OF assms(1) _ assms(4) pieces_fit [OF assms(3)],
      where rest = "to_be32 (word_of_nat (length data)) @ to_be32 (sum32 data)",
      OF _ _ write_nv_once_def [unfolded nv_start_payload_def]]
  by (simp add: session_def)

lemma writes_to_retry:
  assumes "writes_to addr data w False w1" "mem (dev w2) = mem (dev w1)" "paid b (dev w1) (dev w2)"
    and "writes_to addr data w2 ok w3"
  shows "writes_to addr data w ok w3"
  using assms by (auto simp: writes_to_def paid_def)

lemma adaptive_outcome:
  assumes io: "session io"
    and attempt: "\<And>c v. c \<le> MAX_MESSAGE \<Longrightarrow> ready v \<Longrightarrow>
      \<exists>res v'. attempt c v = Some (res, v') \<and> acked res x \<and> writes_to addr data v (res = Ok x) v'"
    and w: "ready w" "chunk \<le> MAX_MESSAGE"
  shows "\<exists>res w'. adaptive_loop T io attempt chunk w = Some (res, w') \<and>
    (res = Ok x \<or> (\<exists>e. res = Err (FlashBsl e) \<and> is_timeout e)) \<and> writes_to addr data w (res = Ok x) w' \<and>
    (losses (dev w) \<le> 1 \<longrightarrow> MIN_ADAPTIVE_CHUNK < chunk \<longrightarrow> res = Ok x)"
  using w
proof (induction chunk arbitrary: w rule: less_induct)
  case (less chunk)
  obtain res w1 where a: "attempt chunk w = Some (res, w1)" "acked res x"
    and w1: "writes_to addr data w (res = Ok x) w1"
    using attempt [OF less.prems(2,1)] by blast
  show ?case
  proof (cases "res = Ok x")
    case True
    with a w1 show ?thesis by (simp add: adaptive_loop.simps [of T io attempt chunk w])
  next
    case False
    with a(2) obtain e where e: "res = Err e" "is_timeout e" by (auto simp: acked_def)
    have r1: "ready w1" and lost: "writes_to addr data w False w1"
      using w1 False by (simp_all add: writes_to_def)
    show ?thesis
    proof (cases "MIN_ADAPTIVE_CHUNK < chunk")
      case floor: False
      with a e lost False show ?thesis
        by (simp add: adaptive_loop.simps [of T io attempt chunk w])
    next
      case retry: True
      define c where "c = max (chunk div 2) MIN_ADAPTIVE_CHUNK"
      have c: "c < chunk" "c \<le> MAX_MESSAGE"
        using retry less.prems(2) by (auto simp: c_def MIN_ADAPTIVE_CHUNK_def)
      obtain cres w2 where con: "bsl_connect T io (purge_input T w1) = Some (cres, w2)" "ready w2"
        "acked cres ()" "mem (dev w2) = mem (dev w1)" "paid (cres = Ok ()) (dev w1) (dev w2)"
        using connect_outcome [of "purge_input T w1" io] purge_ready [OF r1] io by metis
      show ?thesis
      proof (cases "cres = Ok ()")
        case True
        from less.IH [OF c(1) con(2) c(2)] obtain res3 w3 where
          l: "adaptive_loop T io attempt c w2 = Some (res3, w3)"
          "res3 = Ok x \<or> (\<exists>e. res3 = Err (FlashBsl e) \<and> is_timeout e)"
          and wr: "writes_to addr data w2 (res3 = Ok x) w3" by blast
        have "res3 = Ok x" if "losses (dev w) \<le> 1"
          using that lost con(5) wr by (auto simp: writes_to_def paid_def)
        with l a e retry con True writes_to_retry [OF lost con(4,5) wr] show ?thesis
          by (simp add: adaptive_loop.simps [of T io attempt chunk w] c_def)
      next
        case broken: False
        with con(3) obtain ce where "cres = Err ce" "is_timeout ce" by (auto simp: acked_def)
        moreover from this have "writes_to addr data w False w2"
          using lost con(2,4,5) by (auto simp: writes_to_def paid_def)
        moreover from this have "\<not> losses (dev w) \<le> 1"
          using lost con(5) broken by (auto simp: writes_to_def paid_def)
        ultimately show ?thesis using a e retry con
          by (simp add: adaptive_loop.simps [of T io attempt chunk w])
      qed
    qed
  qed
qed

lemma stage_adaptive_outcome:
  assumes "ready w" "session io" "opt_chunk opts \<le> MAX_MESSAGE"
  shows "\<exists>res w'. send_stage_adaptive T opts io addr data w = Some (res, w') \<and>
    (res = Ok () \<or> (\<exists>e. res = Err (FlashBsl e) \<and> is_timeout e)) \<and> writes_to addr data w (res = Ok ()) w' \<and>
    (losses (dev w) \<le> 1 \<longrightarrow> MIN_ADAPTIVE_CHUNK < opt_chunk opts \<longrightarrow> res = Ok ())"
proof -
  have "max (opt_chunk opts) 1 \<le> MAX_MESSAGE" using assms(3) by (simp add: MAX_MESSAGE_def)
  moreover have "MIN_ADAPTIVE_CHUNK < opt_chunk opts \<longleftrightarrow> MIN_ADAPTIVE_CHUNK < max (opt_chunk opts) 1"
    by (auto simp: MIN_ADAPTIVE_CHUNK_def)
  ultimately show ?thesis
    using adaptive_outcome [OF assms(2) stage_outcome [OF _ assms(2)] assms(1)]
    unfolding send_stage_adaptive_def by simp
qed

lemma nv_outcome:
  assumes "ready w" "session io" "opt_chunk opts \<le> MAX_MESSAGE" "0 < opt_timeout opts"
  shows "\<exists>res w'. write_nv T opts io addr data w = Some (res, w') \<and>
    (res = Ok (length data) \<or> (\<exists>e. res = Err (FlashBsl e) \<and> is_timeout e)) \<and>
    writes_to addr (nv_fix_crc data) w (res = Ok (length data)) w'"
proof -
  have c: "max (opt_chunk opts) 1 \<le> MAX_MESSAGE" using assms(3) by (simp add: MAX_MESSAGE_def)
  have once: "\<exists>res v'. write_nv_once T opts io addr (nv_fix_crc data) c v = Some (res, v') \<and>
      acked res (length data) \<and> writes_to addr (nv_fix_crc data) v (res = Ok (length data)) v'"
    if "c \<le> MAX_MESSAGE" "ready v" for c v
    using nv_once_outcome [OF that(2) assms(2) that(1) assms(4), of addr "nv_fix_crc data"] by simp
  show ?thesis
    using adaptive_outcome [where attempt = "write_nv_once T opts io addr (nv_fix_crc data)",
        OF assms(2) once assms(1) c]
    unfolding write_nv_def Let_def by blast
qed

subsection \<open>Reading back\<close>

definition undisturbed :: "'w \<Rightarrow> 'w \<Rightarrow> bool" where
  "undisturbed w w' \<longleftrightarrow>
     ready w' \<and> mem (dev w') = mem (dev w) \<and> view (dev w') = view (dev w) \<and>
     (intact (dev w) \<longrightarrow> intact (dev w')) \<and> (healthy (dev w) \<longrightarrow> healthy (dev w'))"

text \<open>The device serves \<open>data\<close> from \<open>addr\<close> on.\<close>

definition serves :: "'d \<Rightarrow> u32 \<Rightarrow> u8 list \<Rightarrow> bool" where
  "serves s addr data \<longleftrightarrow>
     (\<forall>off n. off + n \<le> length data \<longrightarrow> 0 < n \<longrightarrow> n \<le> MAX_REPLY \<longrightarrow>
        view s (addr + word_of_nat off) n = Some (take n (drop off data)))"

lemma held_is_served:
  assumes "intact s" "disjoint_mem (mem s)" "holds_at (mem s) addr data"
  shows "serves s addr data"
proof -
  obtain base block i where b: "mem s base = Some block" "addr = base + word_of_nat i"
    "i + length data \<le> length block" "data = take (length data) (drop i block)"
    using assms(3) unfolding holds_at_def by blast
  have "view s (addr + word_of_nat off) n = Some (take n (drop off data))"
    if "off + n \<le> length data" "0 < n" "n \<le> MAX_REPLY" for off n
  proof -
    have "view s (base + word_of_nat (i + off)) n = Some (take n (drop (i + off) block))"
      using assms(1,2) b(1,3) that by (intro intact_view) simp_all
    moreover have "take n (drop off data) = take n (drop (i + off) block)"
      using that(1) by (subst b(4)) (simp add: drop_take min_def add.commute)
    ultimately show ?thesis by (simp add: b(2) add.assoc)
  qed
  then show ?thesis by (simp add: serves_def)
qed

lemma undisturbed_trans: "undisturbed w w1 \<Longrightarrow> undisturbed w1 w2 \<Longrightarrow> undisturbed w w2"
  by (auto simp: undisturbed_def)

lemma read_command_outcome:
  assumes "ready w" "session io" "n \<le> MAX_REPLY"
  obtains res w' where
    "command T io CMD_READ_FLASH (read_request addr off n) REP_READ_FLASH (io_timeout io) what w = Some (res, w')"
    and "undisturbed w w'" and "res \<noteq> Panic"
    and "\<And>d. res = Ok d \<Longrightarrow> view (dev w) (addr + word_of_nat off) n = Some d"
    and "\<And>d. view (dev w) (addr + word_of_nat off) n = Some d \<Longrightarrow>
      (res = Ok d \<or> (\<exists>e. res = Err e \<and> is_timeout e)) \<and> (healthy (dev w) \<longrightarrow> res = Ok d)"
proof -
  have io: "io_checksum io = Sprd" "0 < io_timeout io" using assms(2) by (simp_all add: session_def)
  have len: "length (read_request addr off n) \<le> MAX_MESSAGE"
    by (simp add: read_request_def MAX_MESSAGE_def)
  obtain r s' where step: "step CMD_READ_FLASH (read_request addr off n) (dev w) = (r, s')" by fastforce
  note rd = read_step [OF step [unfolded read_request_def] assms(3)]
  have ne: "CMD_READ_FLASH \<noteq> CMD_NORMAL_RESET" by (simp add: opcode_defs)
  have i: "intact (dev w) \<Longrightarrow> intact s'" using intact_step [of "dev w" CMD_READ_FLASH] step by (metis snd_conv)
  have h: "healthy (dev w) \<Longrightarrow> healthy s' \<and> r \<noteq> None"
    using healthy_kept [of "dev w" CMD_READ_FLASH] healthy_answers [OF ne, of "dev w"] step
    by (metis fst_conv snd_conv)
  show ?thesis
  proof (cases r)
    case None
    with command_silent [OF assms(1) io(1) len] step obtain w' e where
      c: "command T io CMD_READ_FLASH (read_request addr off n) REP_READ_FLASH (io_timeout io) what w
        = Some (Err (BslTransport (TransportTimeout e)), w')" and w': "ready w'" "dev w' = s'" by metis
    have "undisturbed w w'" using rd h i w' by (simp add: undisturbed_def)
    moreover have "\<not> healthy (dev w)" using h None by blast
    ultimately have "undisturbed w w'" "\<not> healthy (dev w)" .
    then show ?thesis by (intro that [OF c]) (simp_all add: is_timeout_def)
  next
    case (Some td)
    obtain t d where td: "td = (t, d)" by fastforce
    have small: "length d \<le> MAX_REPLY"
      using rd Some td assms(3) view_length [of "dev w" "addr + word_of_nat off" n]
      by (auto split: option.splits)
    from command_reply [OF assms(1) io(1) len io(2) _ small] step Some td obtain w' where
      "command T io CMD_READ_FLASH (read_request addr off n) REP_READ_FLASH (io_timeout io) what w
        = Some (if t = REP_READ_FLASH then Ok d else Err (BslUnexpected what (rep_name REP_READ_FLASH) (rep_name t)), w')"
      "ready w'" "dev w' = s'" by metis
    then have c: "command T io CMD_READ_FLASH (read_request addr off n) REP_READ_FLASH (io_timeout io) what w
        = Some (if t = REP_READ_FLASH then Ok d else Err (BslUnexpected what (rep_name REP_READ_FLASH) (rep_name t)), w')"
      and w': "ready w'" "dev w' = s'" by simp_all
    have calm: "undisturbed w w'" using rd h i w' by (simp add: undisturbed_def)
    show ?thesis
    proof (cases "view (dev w) (addr + word_of_nat off) n")
      case None
      then have "t \<noteq> REP_READ_FLASH" using rd Some td by (simp add: opcode_defs)
      then show ?thesis using that [OF c calm] None by simp
    next
      case (Some bs)
      then have "t = REP_READ_FLASH" "d = bs" using rd \<open>r = Some td\<close> td by simp_all
      then show ?thesis using that [OF c calm] Some by simp
    qed
  qed
qed

text \<open>The outcome of the read loop: what it returns starts with what it had and the next reply, and
  it is the served image if every reply gets through.\<close>

definition read_result :: "'d \<Rightarrow> u32 \<Rightarrow> nat \<Rightarrow> nat \<Rightarrow> u8 list \<Rightarrow> (u8 list, bsl_error) result \<Rightarrow> bool" where
  "read_result s addr want chunk out res \<longleftrightarrow>
     res \<noteq> Panic \<and>
     (\<forall>got. res = Ok got \<longrightarrow> prefix out got \<and> (length out < want \<longrightarrow>
       (\<exists>bs. view s (addr + word_of_nat (length out)) (min (want - length out) (max chunk 1)) = Some bs \<and>
          prefix (out @ bs) got))) \<and>
     (\<forall>data. length data = want \<longrightarrow> serves s addr data \<longrightarrow> prefix out data \<longrightarrow>
       (res = Ok data \<or> (\<exists>e. res = Err e \<and> is_timeout e)) \<and> (healthy s \<longrightarrow> res = Ok data))"

lemma read_result_step:
  assumes v: "view s (addr + word_of_nat (length out)) (min (want - length out) (max chunk 1)) = Some d"
    and chunk: "chunk \<le> MAX_REPLY" and short: "length out < want"
    and res: "read_result s' addr want chunk (out @ d) res" "view s' = view s" "healthy s \<Longrightarrow> healthy s'"
  shows "read_result s addr want chunk out res"
proof -
  define n where "n = min (want - length out) (max chunk 1)"
  have n: "n \<le> MAX_REPLY" using chunk by (simp add: n_def MAX_REPLY_def)
  have "prefix (out @ d) data" if "length data = want" "serves s addr data" "prefix out data" for data
  proof -
    have "d = take n (drop (length out) data)"
      using that(1,2) short n v by (simp add: serves_def n_def)
    moreover have "out = take (length out) data" using that(3) by (auto simp: prefix_def)
    ultimately have "out @ d = take (length out + n) data" by (simp add: take_add)
    then show ?thesis by (simp add: take_is_prefix)
  qed
  moreover have "serves s' addr data = serves s addr data" for data
    using res(2) by (simp add: serves_def)
  moreover have "prefix out got" if "prefix (out @ d) got" for got
    using that by (metis append_prefixD)
  ultimately show ?thesis using res(1,3) v unfolding read_result_def by blast
qed

lemma read_loop_outcome:
  assumes "ready w" "session io" "chunk \<le> MAX_REPLY"
  shows "\<exists>res w'. read_flash_loop T io addr want chunk out w = Some (res, w') \<and> undisturbed w w' \<and>
    read_result (dev w) addr want chunk out res"
  using assms(1)
proof (induction "want - length out" arbitrary: out w rule: less_induct)
  case less
  show ?case
  proof (cases "length out < want")
    case False
    then have "read_result (dev w) addr want chunk out (Ok out)"
      by (auto simp: read_result_def prefix_def)
    with less.prems False show ?thesis
      by (auto simp: read_flash_loop.simps [of T io addr want chunk out w] undisturbed_def)
  next
    case True
    define n where "n = min (want - length out) (max chunk 1)"
    have n: "n \<le> MAX_REPLY" "0 < n" "length out + n \<le> want"
      using True assms(3) by (auto simp: n_def MAX_REPLY_def)
    obtain res w1 where c: "command T io CMD_READ_FLASH (read_request addr (length out) n) REP_READ_FLASH
        (io_timeout io) ''READ_FLASH'' w = Some (res, w1)"
      and w1: "undisturbed w w1" and ok: "res \<noteq> Panic"
        "\<And>d. res = Ok d \<Longrightarrow> view (dev w) (addr + word_of_nat (length out)) n = Some d"
      and served: "\<And>d. view (dev w) (addr + word_of_nat (length out)) n = Some d \<Longrightarrow>
        (res = Ok d \<or> (\<exists>e. res = Err e \<and> is_timeout e)) \<and> (healthy (dev w) \<longrightarrow> res = Ok d)"
      by (rule read_command_outcome [OF less.prems assms(2) n(1)]) blast
    have reply: "view (dev w) (addr + word_of_nat (length out)) n = Some (take n (drop (length out) data))
        \<and> take n (drop (length out) data) \<noteq> []"
      if "length data = want" "serves (dev w) addr data" for data
      using that True n by (simp add: serves_def)
    show ?thesis
    proof (cases res)
      case (Err e)
      have "read_flash_loop T io addr want chunk out w = Some (Err e, w1)"
        using True c Err by (simp add: read_flash_loop.simps [of T io addr want chunk out w] n_def Let_def)
      moreover have "read_result (dev w) addr want chunk out (Err e)"
        using reply served Err unfolding read_result_def by blast
      ultimately show ?thesis using w1 by blast
    next
      case (Ok d)
      note v = ok(2) [OF Ok]
      have step: "read_flash_loop T io addr want chunk out w =
          (if d = [] then Some (Ok out, w1) else read_flash_loop T io addr want chunk (out @ d) w1)"
        using True c Ok by (simp add: read_flash_loop.simps [of T io addr want chunk out w] n_def Let_def)
      show ?thesis
      proof (cases "d = []")
        case empty: True
        then have "\<not> (length data = want \<and> serves (dev w) addr data)" for data
          using reply v by (metis option.inject)
        then have "read_result (dev w) addr want chunk out (Ok out)"
          using v empty unfolding read_result_def n_def by auto
        with step w1 empty show ?thesis by auto
      next
        case False
        have "want - length (out @ d) < want - length out" using True False by (cases d) auto
        moreover have "ready w1" using w1 by (simp add: undisturbed_def)
        ultimately obtain res2 w2 where
          l: "read_flash_loop T io addr want chunk (out @ d) w1 = Some (res2, w2)" "undisturbed w1 w2"
            "read_result (dev w1) addr want chunk (out @ d) res2"
          using less.hyps by blast
        have "read_result (dev w) addr want chunk out res2"
          using w1 by (intro read_result_step [OF v [unfolded n_def] assms(3) True l(3)])
            (simp_all add: undisturbed_def)
        with step False l undisturbed_trans [OF w1 l(2)] show ?thesis by auto
      qed
    qed (use ok in simp)
  qed
qed

lemma read_flash_outcome:
  assumes "ready w" "session io" "chunk \<le> MAX_REPLY"
  obtains res w' where "read_flash T io addr want chunk w = Some (res, w')" and "undisturbed w w'" and "res \<noteq> Panic"
    and "\<And>got. res = Ok got \<Longrightarrow> 0 < want \<Longrightarrow>
      \<exists>bs. view (dev w) addr (min want (max chunk 1)) = Some bs \<and> prefix bs got"
    and "\<And>data. length data = want \<Longrightarrow> serves (dev w) addr data \<Longrightarrow>
      (res = Ok data \<or> (\<exists>e. res = Err e \<and> is_timeout e)) \<and> (healthy (dev w) \<longrightarrow> res = Ok data)"
proof -
  from read_loop_outcome [OF assms, of addr want "[]"] obtain res w' where
    l: "read_flash T io addr want chunk w = Some (res, w')" "undisturbed w w'"
    and r: "read_result (dev w) addr want chunk [] res"
    unfolding read_flash_def by blast
  show ?thesis by (rule that [OF l]) (use r in \<open>auto simp: read_result_def\<close>)
qed

subsection \<open>The phases of a run\<close>

lemma verify_outcome:
  assumes "ready w" "session io"
  obtains res w' where "verify_partition T io e data w = Some (res, w')" and "undisturbed w w'" and "res \<noteq> Panic"
    and "\<And>bs. 0 < length data \<Longrightarrow> view (dev w) (entry_address e) (min (length data) READBACK_CHUNK) = Some bs \<Longrightarrow>
      \<not> prefix bs data \<Longrightarrow> res \<noteq> Ok ()"
    and "serves (dev w) (entry_address e) data \<Longrightarrow> healthy (dev w) \<Longrightarrow> res = Ok ()"
proof -
  have chunk: "READBACK_CHUNK \<le> MAX_REPLY" "max READBACK_CHUNK 1 = READBACK_CHUNK"
    by (simp_all add: READBACK_CHUNK_def MAX_REPLY_def)
  obtain res w' where r: "read_flash T io (entry_address e) (length data) READBACK_CHUNK w = Some (res, w')"
    "undisturbed w w'" "res \<noteq> Panic"
    and got: "\<And>got. res = Ok got \<Longrightarrow> 0 < length data \<Longrightarrow>
      \<exists>bs. view (dev w) (entry_address e) (min (length data) (max READBACK_CHUNK 1)) = Some bs \<and> prefix bs got"
    and served: "\<And>d. length d = length data \<Longrightarrow> serves (dev w) (entry_address e) d \<Longrightarrow>
      (res = Ok d \<or> (\<exists>e. res = Err e \<and> is_timeout e)) \<and> (healthy (dev w) \<longrightarrow> res = Ok d)"
    by (rule read_flash_outcome [OF assms chunk(1)]) blast
  show ?thesis
  proof (cases res)
    case (Ok got')
    then have v: "verify_partition T io e data w =
        Some (if got' \<noteq> data then Err (FlashVerifyMismatch (file_id e)) else Ok (), w')"
      using r(1) by (simp add: verify_partition_def)
    show ?thesis
      by (rule that [OF v r(2)]) (use got [OF Ok] served Ok chunk in auto)
  next
    case (Err x)
    then have v: "verify_partition T io e data w = Some (Err (FlashBsl x), w')"
      using r(1) by (simp add: verify_partition_def)
    show ?thesis by (rule that [OF v r(2)]) (use served [of data] Err in auto)
  qed (use r in simp)
qed

text \<open>An action on the session: it returns, keeps the device in its command loop, establishes \<open>Q\<close> of
  its result and the memory if it succeeds, and succeeds on a healthy device if \<open>can\<close>.\<close>

definition effect ::
    "(('x, flash_error) result \<times> 'w) option \<Rightarrow> 'w \<Rightarrow> ('x \<Rightarrow> (u32 \<rightharpoonup> u8 list) \<Rightarrow> bool) \<Rightarrow> bool \<Rightarrow> bool"
where
  "effect outcome w Q can \<longleftrightarrow>
     (\<exists>res w'. outcome = Some (res, w') \<and> ready w' \<and> res \<noteq> Panic \<and>
        (\<forall>x. res = Ok x \<longrightarrow> Q x (mem (dev w'))) \<and>
        (intact (dev w) \<longrightarrow> intact (dev w')) \<and>
        (healthy (dev w) \<longrightarrow> can \<longrightarrow> (\<exists>x. res = Ok x) \<and> healthy (dev w')))"

lemma effectI:
  assumes "outcome = Some (res, w')" "ready w'" "res \<noteq> Panic"
    and "\<And>x. res = Ok x \<Longrightarrow> Q x (mem (dev w'))"
    and "intact (dev w) \<Longrightarrow> intact (dev w')"
    and "healthy (dev w) \<Longrightarrow> can \<Longrightarrow> (\<exists>x. res = Ok x) \<and> healthy (dev w')"
  shows "effect outcome w Q can"
  using assms unfolding effect_def by blast

text \<open>Sequencing, as the code does with \<open>?\<close>.\<close>

lemma effect_bind:
  assumes "effect (act w) w Q1 can"
    and "\<And>x w1. ready w1 \<Longrightarrow> Q1 x (mem (dev w1)) \<Longrightarrow> (intact (dev w) \<Longrightarrow> intact (dev w1)) \<Longrightarrow>
      effect (f x w1) w1 Q2 can"
  shows "effect (io_bind act f w) w Q2 can"
proof -
  obtain res w1 where a: "act w = Some (res, w1)" "ready w1" "res \<noteq> Panic"
    "\<And>x. res = Ok x \<Longrightarrow> Q1 x (mem (dev w1))" "intact (dev w) \<Longrightarrow> intact (dev w1)"
    "healthy (dev w) \<Longrightarrow> can \<Longrightarrow> (\<exists>x. res = Ok x) \<and> healthy (dev w1)"
    using assms(1) unfolding effect_def by blast
  show ?thesis
  proof (cases res)
    case (Ok x)
    with a have "effect (f x w1) w1 Q2 can" by (intro assms(2)) auto
    then obtain res2 w2 where f: "f x w1 = Some (res2, w2)" "ready w2" "res2 \<noteq> Panic"
      "\<And>y. res2 = Ok y \<Longrightarrow> Q2 y (mem (dev w2))" "intact (dev w1) \<Longrightarrow> intact (dev w2)"
      "healthy (dev w1) \<Longrightarrow> can \<Longrightarrow> (\<exists>y. res2 = Ok y) \<and> healthy (dev w2)"
      unfolding effect_def by blast
    have "io_bind act f w = Some (res2, w2)" using a(1) Ok f(1) by simp
    then show ?thesis by (rule effectI) (use f a(5,6) in blast)+
  next
    case (Err e)
    then have "io_bind act f w = Some (Err e, w1)" using a(1) by simp
    then show ?thesis by (rule effectI) (use a Err in auto)
  qed (use a in simp)
qed

lemma effect_weaken:
  "effect outcome w Q can \<Longrightarrow> (\<And>x m. Q x m \<Longrightarrow> Q' x m) \<Longrightarrow> (can' \<Longrightarrow> can) \<Longrightarrow>
     effect outcome w Q' can'"
  unfolding effect_def by blast

lemma effect_return:
  "ready w \<Longrightarrow> Q x (mem (dev w)) \<Longrightarrow> effect (Some (Ok x, w)) w Q can"
  "ready w \<Longrightarrow> Q x (mem (dev w)) \<Longrightarrow> effect (io_return x w) w Q can"
  by (simp_all add: effect_def)

lemma effect_now: "ready w \<Longrightarrow> effect (io_now T w) w (\<lambda>_ m. m = mem (dev w)) can"
  by (simp add: effect_def io_now_def)

lemma effect_ok_or:
  "ready w \<Longrightarrow> (can \<Longrightarrow> v \<noteq> None) \<Longrightarrow>
     effect (io_lift (ok_or v e) w) w (\<lambda>x m. v = Some x \<and> m = mem (dev w)) can"
  by (cases v) (auto simp: effect_def)

lemma effect_writes:
  assumes "act w = Some (res, w')" "writes_to addr data w (res = Ok x) w'"
    and "res = Ok x \<or> (\<exists>e. res = Err (FlashBsl e) \<and> is_timeout e)"
  shows "effect (act w) w (\<lambda>y m. y = x \<and> m = (mem (dev w))(addr \<mapsto> data)) can"
  by (rule effectI [OF assms(1)]) (use assms(2,3) in \<open>auto simp: writes_to_def dest: paid_healthy paid_intact\<close>)

lemma effect_control:
  assumes "ready w" "io_checksum io = Sprd" "length data \<le> MAX_MESSAGE" "0 < timeout"
    and "cmd \<in> {CMD_CONNECT, CMD_EXEC_DATA, CMD_CHANGE_BAUD, CMD_ERASE_FLASH}"
  shows "effect (io_map_err FlashBsl (command T io cmd data REP_ACK timeout what) w) w (\<lambda>_ m. m = mem (dev w)) can"
proof -
  obtain res w' where c: "command T io cmd data REP_ACK timeout what w = Some (res, w')"
    and w': "ready w'" "acked res []" "mem (dev w') = mem (dev w)"
      "healthy (dev w) \<Longrightarrow> res = Ok [] \<and> healthy (dev w')" "intact (dev w) \<Longrightarrow> intact (dev w')"
    by (rule control_command [OF assms]) (use paid_healthy paid_intact in blast)
  have "io_map_err FlashBsl (command T io cmd data REP_ACK timeout what) w = Some (map_err FlashBsl res, w')"
    using c by simp
  then show ?thesis by (rule effectI) (use w' in \<open>auto simp: acked_def map_err_def split: result.splits\<close>)
qed

lemma effect_connect:
  assumes "ready w" "session io"
  shows "effect (io_map_err FlashBsl (bsl_connect T io) w) w (\<lambda>_ m. m = mem (dev w)) can"
proof -
  obtain res w' where c: "bsl_connect T io w = Some (res, w')"
    and w': "ready w'" "acked res ()" "mem (dev w') = mem (dev w)"
      "healthy (dev w) \<Longrightarrow> res = Ok () \<and> healthy (dev w')" "intact (dev w) \<Longrightarrow> intact (dev w')"
    by (rule connect_outcome [OF assms]) (use paid_healthy paid_intact in blast)
  have "io_map_err FlashBsl (bsl_connect T io) w = Some (map_err FlashBsl res, w')" using c by simp
  then show ?thesis by (rule effectI) (use w' in \<open>auto simp: acked_def map_err_def split: result.splits\<close>)
qed

lemma effect_stage:
  assumes "ready w" "session io" "chunk \<le> MAX_MESSAGE"
  shows "effect (io_map_err FlashBsl (send_stage T io addr data chunk) w) w
    (\<lambda>_ m. m = (mem (dev w))(addr \<mapsto> data)) can"
proof -
  obtain res w' where c: "send_stage T io addr data chunk w = Some (res, w')" "acked res ()"
    "writes_to addr data w (res = Ok ()) w'"
    using stage_outcome [OF assms] by blast
  have "io_map_err FlashBsl (send_stage T io addr data chunk) w = Some (map_err FlashBsl res, w')"
    using c by simp
  then show ?thesis
    by (rule effectI) (use c in \<open>auto simp: acked_def map_err_def writes_to_def dest: paid_healthy paid_intact split: result.splits\<close>)
qed

lemma effect_stage_adaptive:
  assumes "ready w" "session io" "opt_chunk opts \<le> MAX_MESSAGE"
  shows "effect (send_stage_adaptive T opts io addr data w) w
    (\<lambda>_ m. m = (mem (dev w))(addr \<mapsto> data)) can"
proof -
  from stage_adaptive_outcome [OF assms, of addr data] obtain res w' where
    c: "send_stage_adaptive T opts io addr data w = Some (res, w')"
      "writes_to addr data w (res = Ok ()) w'" "res = Ok () \<or> (\<exists>e. res = Err (FlashBsl e) \<and> is_timeout e)" by blast
  from effect_writes [where act = "send_stage_adaptive T opts io addr data", OF c]
  show ?thesis by (rule effect_weaken) simp_all
qed

lemma effect_nv:
  assumes "ready w" "session io" "opt_chunk opts \<le> MAX_MESSAGE" "0 < opt_timeout opts"
  shows "effect (write_nv T opts io addr data w) w
    (\<lambda>n m. n = length data \<and> m = (mem (dev w))(addr \<mapsto> nv_fix_crc data)) can"
proof -
  from nv_outcome [OF assms, of addr data] obtain res w' where
    c: "write_nv T opts io addr data w = Some (res, w')"
      "writes_to addr (nv_fix_crc data) w (res = Ok (length data)) w'"
      "res = Ok (length data) \<or> (\<exists>e. res = Err (FlashBsl e) \<and> is_timeout e)" by blast
  show ?thesis by (rule effect_writes [where act = "write_nv T opts io addr data", OF c])
qed

lemma effect_verify:
  assumes "ready w" "session io" "can \<Longrightarrow> healthy (dev w) \<Longrightarrow> serves (dev w) (entry_address e) data"
  shows "effect (verify_partition T io e data w) w (\<lambda>_ m. m = mem (dev w)) can"
proof -
  obtain res w' where v: "verify_partition T io e data w = Some (res, w')"
    and w': "undisturbed w w'" "res \<noteq> Panic"
      "serves (dev w) (entry_address e) data \<Longrightarrow> healthy (dev w) \<Longrightarrow> res = Ok ()"
    by (rule verify_outcome [OF assms(1,2)]) blast
  show ?thesis by (rule effectI [OF v]) (use w' assms(3) in \<open>auto simp: undisturbed_def\<close>)
qed

lemma effect_optional_verify:
  assumes "ready w" "session io"
    and "can \<Longrightarrow> opt_verify_readback opts \<Longrightarrow> disjoint_mem (mem (dev w)) \<and> mem (dev w) (entry_address e) = Some data"
  shows "effect ((if opt_verify_readback opts then verify_partition T io e data else io_return ()) w) w
    (\<lambda>_ m. m = mem (dev w)) can"
proof (cases "opt_verify_readback opts")
  case True
  with assms(3) have "can \<Longrightarrow> healthy (dev w) \<Longrightarrow> serves (dev w) (entry_address e) data"
    by (intro held_is_served holds_at_block) (simp_all add: healthy_def)
  with True effect_verify [OF assms(1,2)] show ?thesis by simp
qed (use assms(1) in \<open>simp add: effect_return\<close>)

lemma effect_partitions:
  assumes "session io" "opt_chunk opts \<le> MAX_MESSAGE"
    and "ready w" "can \<Longrightarrow> \<forall>e \<in> set es. payload e pac \<noteq> None"
    and "can \<Longrightarrow> opt_verify_readback opts \<Longrightarrow> disjoint_throughout pac es (mem (dev w))"
  shows "effect (write_partitions T opts io pac es written w) w
    (\<lambda>n m. n = written + payload_bytes pac es \<and> m = store_all (payload_of pac) es (mem (dev w))) can"
  using assms(3-5)
proof (induction es arbitrary: w written)
  case Nil
  then show ?case by (simp add: effect_return)
next
  case (Cons e es)
  show ?case
    unfolding write_partitions.simps
    apply (rule effect_bind, rule effect_ok_or [OF Cons.prems(1)])
    subgoal using Cons.prems(2) by simp
    apply (rule effect_bind, rule effect_stage_adaptive [OF _ assms(1,2)], assumption)
    apply (rule effect_bind, rule effect_optional_verify [OF _ assms(1)], assumption)
    subgoal using Cons.prems(3) by (auto simp: disjoint_throughout_Cons payload_of_def)
    apply (rule effect_weaken [OF Cons.IH], assumption)
    using Cons.prems(2,3) by (auto simp: payload_of_def disjoint_throughout_Cons simp del: fun_upd_apply)
qed

text \<open>A read on an intact device returns what the device holds, or fails.\<close>

lemma effect_read:
  assumes "ready w" "session io" "chunk \<le> MAX_REPLY" "intact (dev w)"
    and "disjoint_mem (mem (dev w))" "holds_at (mem (dev w)) addr data"
  shows "effect (io_map_err FlashBsl (read_flash T io addr (length data) chunk) w) w
    (\<lambda>d m. d = data \<and> m = mem (dev w)) can"
proof -
  have served: "serves (dev w) addr data"
    using assms(4-6) by (intro held_is_served)
  obtain res w' where r: "read_flash T io addr (length data) chunk w = Some (res, w')" "undisturbed w w'"
    and all: "\<And>d. length d = length data \<Longrightarrow> serves (dev w) addr d \<Longrightarrow>
      (res = Ok d \<or> (\<exists>e. res = Err e \<and> is_timeout e)) \<and> (healthy (dev w) \<longrightarrow> res = Ok d)"
    by (rule read_flash_outcome [OF assms(1-3), where want = "length data"]) (assumption | blast)+
  have d: "(res = Ok data \<or> (\<exists>e. res = Err e \<and> is_timeout e)) \<and> (healthy (dev w) \<longrightarrow> res = Ok data)"
    by (rule all [OF refl served])
  from r(1) have "io_map_err FlashBsl (read_flash T io addr (length data) chunk) w = Some (map_err FlashBsl res, w')"
    by simp
  then show ?thesis
    by (rule effectI) (use r d in \<open>auto simp: undisturbed_def map_err_def split: result.splits\<close>)
qed

lemma effect_dump_regions:
  assumes "session io" "ready w" "intact (dev w)" "disjoint_mem (mem (dev w))"
    and "list_all2 (\<lambda>(addr, len) d. length d = unat len \<and> holds_at (mem (dev w)) addr d) regions images"
  shows "effect (dump_regions T io regions out w) w (\<lambda>ds m. ds = out @ images \<and> m = mem (dev w)) can"
  using assms(2-5)
proof (induction regions arbitrary: w out images)
  case Nil
  then show ?case by (simp add: effect_return)
next
  case (Cons region regions)
  obtain addr len where region: "region = (addr, len)" by fastforce
  with Cons.prems(4) obtain d images' where images: "images = d # images'" "length d = unat len"
    "holds_at (mem (dev w)) addr d"
    "list_all2 (\<lambda>(addr, len) d. length d = unat len \<and> holds_at (mem (dev w)) addr d) regions images'"
    by (auto simp: list_all2_Cons1)
  have chunk: "READBACK_CHUNK \<le> MAX_REPLY" by (simp add: READBACK_CHUNK_def MAX_REPLY_def)
  show ?case
    unfolding region dump_regions.simps images(2) [symmetric]
    apply (rule effect_bind, rule effect_read [OF Cons.prems(1) assms(1) chunk Cons.prems(2,3) images(3)])
    apply (rule effect_weaken [OF Cons.IH], assumption)
    using Cons.prems(2,3) images by auto
qed

lemma effect_erases:
  assumes "session io" "0 < opt_timeout opts" "ready w" "\<forall>op \<in> set ops. length (erase_parameter op) = 4"
  shows "effect (send_erases T opts io ops w) w (\<lambda>_ m. m = mem (dev w)) can"
  using assms(3,4)
proof (induction ops arbitrary: w)
  case Nil
  then show ?case by (simp add: effect_return)
next
  case (Cons op ops)
  have len: "length (to_be32 (erase_address op) @ erase_parameter op) \<le> MAX_MESSAGE"
    using Cons.prems(2) by (simp add: MAX_MESSAGE_def)
  have io: "io_checksum io = Sprd" using assms(1) by (simp add: session_def)
  show ?case
    unfolding send_erases.simps
    apply (rule effect_bind, rule effect_control [OF Cons.prems(1) io len assms(2)], simp)
    apply (rule effect_weaken [OF Cons.IH])
    using Cons.prems(2) by auto
qed

lemma effect_markers:
  assumes "session io" "opt_chunk opts \<le> MAX_MESSAGE" "0 < opt_timeout opts"
    and "ready w" "can \<Longrightarrow> \<forall>e \<in> set es. payload e pac \<noteq> None"
  shows "effect (write_markers T opts io pac es written w) w
    (\<lambda>n m. n = written + payload_bytes pac es \<and> m = store_all (marker_image pac) es (mem (dev w))) can"
  using assms(4,5)
proof (induction es arbitrary: w written)
  case Nil
  then show ?case by (simp add: effect_return)
next
  case (Cons e es)
  have put: "effect ((if is_nv (file_id e) then write_nv T opts io (entry_address e) data
      else io_bind (send_stage_adaptive T opts io (entry_address e) data) (\<lambda>_. io_return (length data))) v) v
    (\<lambda>n m. n = length data \<and>
       m = (mem (dev v))(entry_address e \<mapsto> (if is_nv (file_id e) then nv_fix_crc data else data))) can"
    if "ready v" for data v
  proof (cases "is_nv (file_id e)")
    case True
    then show ?thesis using effect_nv [OF that assms(1,2,3)] by simp
  next
    case False
    then show ?thesis
      by (simp del: io_basic_simps)
        (rule effect_bind, rule effect_stage_adaptive [OF that assms(1,2)], simp add: effect_return)
  qed
  show ?case
    unfolding write_markers.simps
    apply (rule effect_bind, rule effect_ok_or [OF Cons.prems(1)])
    subgoal using Cons.prems(2) by simp
    apply (rule effect_bind, rule put, assumption)
    apply (rule effect_weaken [OF Cons.IH], assumption)
    using Cons.prems(2) by (auto simp: payload_of_def marker_image_def simp del: fun_upd_apply)
qed

lemma effect_baud:
  assumes "ready w" "session io" "0 < opt_timeout opts"
  shows "effect (change_baud T opts io baud w) w (\<lambda>_ m. m = mem (dev w)) can"
proof -
  have io: "io_checksum io = Sprd" using assms(2) by (simp add: session_def)
  have len: "length (to_be32 baud) \<le> MAX_MESSAGE" by (simp add: MAX_MESSAGE_def)
  have set: "effect (io_map_err (FlashBsl \<circ> BslTransport) (set_baud T baud) v) v (\<lambda>_ m. m = mem (dev v)) can"
    if "ready v" for v
    using baud_ready [OF that, of baud] by (auto simp: effect_def io_map_err_def)
  show ?thesis
    unfolding change_baud_def
    apply (rule effect_bind, rule effect_control [OF assms(1) io len assms(3)], simp)
    apply (rule effect_bind, rule set, assumption)
    apply (rule effect_weaken [OF effect_connect [OF _ assms(2)]])
    by simp_all
qed

lemma effect_fdl2:
  assumes "ready w" "session io" "0 < opt_exec_timeout opts" "can \<Longrightarrow> payload e pac \<noteq> None"
  shows "effect (load_fdl2 T opts io pac e w) w
    (\<lambda>_ m. m = (mem (dev w))(entry_address e \<mapsto> payload_of pac e)) can"
proof -
  have io: "io_checksum io = Sprd" using assms(2) by (simp add: session_def)
  have chunk: "FDL_LOAD_CHUNK \<le> MAX_MESSAGE" by (simp add: FDL_LOAD_CHUNK_def MAX_MESSAGE_def)
  show ?thesis
    unfolding load_fdl2_def
    apply (rule effect_bind, rule effect_ok_or [OF assms(1)], rule assms(4), assumption)
    apply (rule effect_bind, rule effect_stage [OF _ assms(2) chunk], assumption)
    apply (rule effect_bind, rule effect_control [OF _ io _ assms(3)], assumption)
    by (simp_all add: payload_of_def effect_weaken [OF effect_connect [OF _ assms(2)]] del: fun_upd_apply)
qed

lemma effect_reset:
  assumes "ready w" "session io"
  shows "effect (send_reset T opts io w) w (\<lambda>_ m. m = mem (dev w)) can"
proof -
  have io: "io_checksum io = Sprd" using assms(2) by (simp add: session_def)
  obtain r s' where step: "step CMD_NORMAL_RESET [] (dev w) = (r, s')" by fastforce
  note rs = reset_step [OF step]
  with step have silent: "step CMD_NORMAL_RESET [] (dev w) = (None, s')" by simp
  obtain w1 where s: "bsl_send T io CMD_NORMAL_RESET [] w = Some (Ok (), w1)" "ready w1" "dev w1 = s'"
    using exchange_silent [OF assms(1) io _ silent] by (auto simp: MAX_MESSAGE_def)
  have "healthy (dev w) \<Longrightarrow> healthy s'" using healthy_kept [of "dev w" CMD_NORMAL_RESET "[]"] step by simp
  moreover have "intact (dev w) \<Longrightarrow> intact s'" using intact_step [of "dev w" CMD_NORMAL_RESET "[]"] step by simp
  ultimately show ?thesis using s rs assms(1) teardown_ready [OF s(2)]
    by (auto simp: send_reset_def effect_def)
qed

end

section \<open>A device from power-up\<close>

text \<open>The memory once FDL2 is loaded, the memory after the whole run, and the bytes it reports.\<close>

definition with_fdl2 :: "u8 list \<Rightarrow> flash_plan \<Rightarrow> (u32 \<rightharpoonup> u8 list) \<Rightarrow> u32 \<rightharpoonup> u8 list" where
  "with_fdl2 pac plan m =
     (case fdl2 plan of None \<Rightarrow> m | Some e \<Rightarrow> m(entry_address e \<mapsto> payload_of pac e))"

definition run_memory ::
    "flash_options \<Rightarrow> u8 list \<Rightarrow> flash_plan \<Rightarrow> (u32 \<rightharpoonup> u8 list) \<Rightarrow> u32 \<rightharpoonup> u8 list" where
  "run_memory opts pac plan m =
     (if opt_format opts then store_all (marker_image pac) (plan_markers plan) else id)
       (store_all (payload_of pac) (partitions plan) (with_fdl2 pac plan m))"

definition run_bytes :: "flash_options \<Rightarrow> u8 list \<Rightarrow> flash_plan \<Rightarrow> nat" where
  "run_bytes opts pac plan =
     payload_bytes pac (partitions plan) +
     (if opt_format opts then payload_bytes pac (plan_markers plan) else 0)"

text \<open>Every entry with data has its bytes in the file, as the parser ensures.\<close>

definition payloads_present :: "pac_info \<Rightarrow> u8 list \<Rightarrow> bool" where
  "payloads_present info pac \<longleftrightarrow> (\<forall>e \<in> set (entries info). entry_size e \<noteq> 0 \<longrightarrow> payload e pac \<noteq> None)"

text \<open>\<open>fresh\<close>: in the boot ROM, where it loads any first stage and greets with \<open>banner\<close>.\<close>

locale boot_device = flash_device T ready dev step cur mem view losses intact
  for T :: "'w transport" and ready :: "'w \<Rightarrow> bool" and dev :: "'w \<Rightarrow> 'd" and step :: "'d device_step"
    and cur :: "'d \<Rightarrow> (u32 \<times> u8 list) option" and mem :: "'d \<Rightarrow> u32 \<rightharpoonup> u8 list"
    and view :: "'d \<Rightarrow> u32 \<Rightarrow> nat \<Rightarrow> u8 list option" and losses :: "'d \<Rightarrow> nat"
    and intact :: "'d \<Rightarrow> bool" +
  fixes fresh :: "'w \<Rightarrow> bool" and banner :: rust_string
  assumes boot: "fresh w \<Longrightarrow> 0 < opt_timeout opts \<Longrightarrow> 0 < opt_exec_timeout opts \<Longrightarrow>
    \<exists>w'. load_fdl1 T opts addr img w = Some (Ok banner, w') \<and> ready w' \<and> mem (dev w') = mem (dev w) \<and>
      losses (dev w') = losses (dev w) \<and> (intact (dev w) \<longrightarrow> intact (dev w'))"
begin

lemma io_now_bind: "io_bind (io_now T) f w = f (now T w) w"
  by (simp add: io_bind_def io_now_def)

lemma plan_payloads:
  assumes "build info = Ok plan" "payloads_present info pac"
  shows "payload (fdl1 plan) pac \<noteq> None"
    and "\<forall>e. fdl2 plan = Some e \<longrightarrow> payload e pac \<noteq> None"
    and "\<forall>e \<in> set (partitions plan). payload e pac \<noteq> None"
    and "\<forall>e \<in> set (plan_markers plan). payload e pac \<noteq> None"
proof -
  note b = build_Ok [OF assms(1)]
  have role: "entry_size e \<noteq> 0" if "classify e \<noteq> Marker" for e using that classify_not_marker by blast
  have found: "e \<in> set (entries info) \<and> P e" if "find P (entries info) = Some e" for P e
    using that by (auto simp: find_Some_iff)
  show "payload (fdl1 plan) pac \<noteq> None"
    using b found [of "\<lambda>e. classify e = Fdl1"] role assms(2) unfolding payloads_present_def by fastforce
  show "\<forall>e. fdl2 plan = Some e \<longrightarrow> payload e pac \<noteq> None"
    using b found [of "\<lambda>e. classify e = Fdl2"] role assms(2) unfolding payloads_present_def by fastforce
  show "\<forall>e \<in> set (partitions plan). payload e pac \<noteq> None"
    using b role assms(2) unfolding payloads_present_def by auto
  show "\<forall>e \<in> set (plan_markers plan). payload e pac \<noteq> None"
    using b assms(2) unfolding payloads_present_def data_markers_def by auto
qed

lemma effect_bring_up:
  assumes "fresh w" "0 < opt_timeout opts" "0 < opt_exec_timeout opts"
    and "build info = Ok plan" "payloads_present info pac"
  shows "effect (bring_up T opts pac plan w) w
    (\<lambda>(io, version, t1, t2) m. io = bsl_io_new (opt_timeout opts) \<and> version = banner \<and>
       m = with_fdl2 pac plan (mem (dev w))) can"
proof -
  note present = plan_payloads [OF assms(4,5)]
  obtain img where img: "payload (fdl1 plan) pac = Some img" using present(1) by blast
  define io where "io = bsl_io_new (opt_timeout opts)"
  have io: "session io" using assms(2) by (simp add: io_def session_def bsl_io_new_def)
  obtain w1 where boot1: "load_fdl1 T opts (entry_address (fdl1 plan)) img w = Some (Ok banner, w1)"
    "ready w1" "mem (dev w1) = mem (dev w)" "healthy (dev w) \<Longrightarrow> healthy (dev w1)"
    "intact (dev w) \<Longrightarrow> intact (dev w1)"
    using boot [OF assms(1-3)] unfolding healthy_def by metis
  define second where "second t0 t1 = io_bind (io_map_err FlashBsl (bsl_connect T io)) (\<lambda>_.
     io_bind (case fdl2 plan of None \<Rightarrow> io_return () | Some e \<Rightarrow> load_fdl2 T opts io pac e) (\<lambda>_.
     io_bind (case opt_baud opts of None \<Rightarrow> io_return () | Some b \<Rightarrow> change_baud T opts io b) (\<lambda>_.
     io_bind (io_now T) (\<lambda>t2. io_return (io, banner, t1 - t0, t2 - t1)))))" for t0 t1
  have "bring_up T opts pac plan w = second (now T w) (now T w1) w1"
    unfolding bring_up_def second_def io_def by (simp add: img io_now_bind boot1(1) Let_def)
  moreover have "effect (second t0 t1 w1) w1
    (\<lambda>(io', version, _, _) m. io' = io \<and> version = banner \<and> m = with_fdl2 pac plan (mem (dev w1))) can" for t0 t1
  proof -
    have f2: "effect ((case fdl2 plan of None \<Rightarrow> io_return () | Some e \<Rightarrow> load_fdl2 T opts io pac e) v) v
        (\<lambda>_ m. m = with_fdl2 pac plan (mem (dev v))) can" if "ready v" for v
      using that present(2) effect_fdl2 [OF that io assms(3)]
      by (cases "fdl2 plan") (simp_all add: with_fdl2_def effect_return)
    have bd: "effect ((case opt_baud opts of None \<Rightarrow> io_return () | Some b \<Rightarrow> change_baud T opts io b) v) v
        (\<lambda>_ m. m = mem (dev v)) can" if "ready v" for v
      using that effect_baud [OF that io assms(2)] by (cases "opt_baud opts") (simp_all add: effect_return)
    show ?thesis
      unfolding second_def
      apply (rule effect_bind, rule effect_connect [OF boot1(2) io])
      apply (rule effect_bind, rule f2, assumption)
      apply (rule effect_bind, rule bd, assumption)
      by (simp add: io_now_bind effect_return)
  qed
  ultimately have "effect (bring_up T opts pac plan w) w1
    (\<lambda>(io', version, _, _) m. io' = io \<and> version = banner \<and> m = with_fdl2 pac plan (mem (dev w1))) can"
    by simp
  then show ?thesis using boot1(3-5) by (fastforce simp: effect_def io_def)
qed

lemma effect_run:
  assumes "fresh w" "0 < opt_timeout opts" "0 < opt_exec_timeout opts" "opt_chunk opts \<le> MAX_MESSAGE"
    and "build info = Ok plan" "payloads_present info pac" "can \<Longrightarrow> opt_verify_readback opts \<Longrightarrow>
      disjoint_throughout pac (partitions plan) (with_fdl2 pac plan (mem (dev w)))"
  shows "effect (run T opts info pac w) w
    (\<lambda>out m. out_version out = banner \<and> out_bytes_written out = run_bytes opts pac plan \<and>
       m = run_memory opts pac plan (mem (dev w))) can"
proof -
  note present = plan_payloads [OF assms(5,6)]
  define io where "io = bsl_io_new (opt_timeout opts)"
  have io: "session io" using assms(2) by (simp add: io_def session_def bsl_io_new_def)
  have erases: "\<forall>op \<in> set (erases plan). length (erase_parameter op) = 4"
    using build_Ok [OF assms(5)] erase_ops_parameter by simp
  have format: "effect ((if opt_format opts
        then io_bind (send_erases T opts io (erases plan)) (\<lambda>_. write_markers T opts io pac (plan_markers plan) n)
        else io_return n) v) v
      (\<lambda>k m. k = n + (if opt_format opts then payload_bytes pac (plan_markers plan) else 0) \<and>
         m = (if opt_format opts then store_all (marker_image pac) (plan_markers plan) else id) (mem (dev v))) can"
    if "ready v" for v n
  proof (cases "opt_format opts")
    case True
    have "effect (io_bind (send_erases T opts io (erases plan))
        (\<lambda>_. write_markers T opts io pac (plan_markers plan) n) v) v
      (\<lambda>k m. k = n + payload_bytes pac (plan_markers plan) \<and>
         m = store_all (marker_image pac) (plan_markers plan) (mem (dev v))) can"
      apply (rule effect_bind, rule effect_erases [OF io assms(2) that erases])
      apply (rule effect_weaken [OF effect_markers [OF io assms(4,2)]], assumption)
      using present(4) by auto
    with True show ?thesis by simp
  qed (use that in \<open>simp add: effect_return\<close>)
  show ?thesis
    unfolding run_def io_now_bind
    apply (simp only: assms(5) map_err_simps io_lift_bind)
    apply (rule effect_bind, rule effect_bring_up [OF assms(1-3,5,6)])
    apply (clarsimp simp only: prod.case io_now_bind)
    apply (rule effect_bind, rule effect_partitions [OF io [unfolded io_def] assms(4)], assumption)
    using present(3) apply blast
    using assms(7) apply simp
    apply (clarsimp simp only: io_now_bind)
    apply (rule effect_bind, rule format [unfolded io_def], assumption)
    apply (clarsimp simp only: io_now_bind)
    apply (rule effect_bind, rule effect_reset [OF _ io [unfolded io_def]], assumption)
    by (simp add: io_now_bind effect_return run_bytes_def run_memory_def)
qed

lemma effect_dump:
  assumes "fresh w" "0 < opt_timeout opts" "0 < opt_exec_timeout opts"
    and "build info = Ok plan" "payloads_present info pac"
    and "intact (dev w)" "disjoint_mem (with_fdl2 pac plan (mem (dev w)))"
    and "list_all2 (\<lambda>(addr, len) d. length d = unat len \<and> holds_at (with_fdl2 pac plan (mem (dev w))) addr d)
      regions images"
  shows "effect (dump T opts info pac regions w) w
    (\<lambda>ds m. ds = images \<and> m = with_fdl2 pac plan (mem (dev w))) can"
proof -
  define io where "io = bsl_io_new (opt_timeout opts)"
  have io: "session io" using assms(2) by (simp add: io_def session_def bsl_io_new_def)
  show ?thesis
    unfolding dump_def
    apply (simp only: assms(4) map_err_simps io_lift_bind)
    apply (rule effect_bind, rule effect_bring_up [OF assms(1-5)])
    apply (clarsimp simp only: prod.case)
    apply (rule effect_bind, rule effect_dump_regions [OF io [unfolded io_def], where images = images], assumption)
    using assms(6-8) apply simp_all
    apply (rule effect_bind, rule effect_reset [OF _ io [unfolded io_def]], assumption)
    by (simp add: effect_return)
qed

end

end
