(* ===== verification/Flash_Size.thy ===== *)
theory Flash_Size
  imports Device Sessions
begin

text \<open>
  What the size search and the full read of \<open>dump_full\<close> find on a device that holds a flash image:
  the search ends at the image's size rounded up to 64 KiB, or at its cap of 128 MiB, and the full
  read returns the image as far as that bound.
\<close>

section \<open>A memory with one flash image\<close>

text \<open>\<open>block\<close> is at \<open>base\<close>, and nothing else lies in the 128 MiB that the search looks at.\<close>

definition nor_image :: "(u32 \<rightharpoonup> u8 list) \<Rightarrow> u32 \<Rightarrow> u8 list \<Rightarrow> bool" where
  "nor_image m base block \<longleftrightarrow>
     disjoint_mem m \<and> m base = Some block \<and> unat base + 134217728 \<le> 4294967296 \<and>
     (\<forall>a x. m a = Some x \<longrightarrow> a \<noteq> base \<longrightarrow>
        unat a + length x \<le> unat base \<or> unat base + 134217728 \<le> unat a)"

text \<open>The size the search reports.\<close>

definition found_size :: "nat \<Rightarrow> nat" where
  "found_size n = min ((n + 65535) div 65536 * 65536) 134217728"

text \<open>The size is still between the bounds, the upper one possibly the cap.\<close>

definition located :: "nat \<Rightarrow> u32 \<Rightarrow> u32 \<Rightarrow> bool" where
  "located n lo hi \<longleftrightarrow> bracket lo hi \<and> unat lo < n \<and> (n \<le> unat hi \<or> unat hi = 134217728)"

lemma located_found:
  assumes "located n lo hi" "unat hi = unat lo + 65536"
  shows "unat hi = found_size n"
proof -
  obtain a where a: "unat lo = 65536 * a" using assms(1) by (auto simp: located_def bracket_def dvd_def)
  have bounds: "65536 * a < n" "n \<le> 65536 * a + 65536 \<or> 65536 * a + 65536 = 134217728"
      "65536 * a + 65536 \<le> 134217728"
    using assms by (simp_all add: located_def bracket_def a)
  show ?thesis
  proof (cases "n \<le> 65536 * a + 65536")
    case True
    with bounds have "(n + 65535) div 65536 = a + 1"
      by (intro div_nat_eqI) simp_all
    then show ?thesis using bounds assms(2) by (simp add: found_size_def a)
  next
    case False
    with bounds have full: "65536 * a + 65536 = 134217728" by simp
    have "a + 1 \<le> (n + 65535) div 65536" using bounds(1) by (simp add: less_eq_div_iff_mult_less_eq)
    then have "134217728 \<le> (n + 65535) div 65536 * 65536" using full by linarith
    then show ?thesis using full assms(2) by (simp add: found_size_def a)
  qed
qed

context flash_device
begin

section \<open>One probe\<close>

lemma image_view:
  assumes "intact s" "nor_image (mem s) base block" "off < 134217728"
  shows "view s (base + word_of_nat off) 16 \<noteq> None \<longleftrightarrow> off < length block"
proof -
  have off: "unat (word_of_nat off :: u32) = off" using assms(3) by (intro unat_of_nat_u32) simp
  have addr: "unat (base + word_of_nat off) = unat base + off"
    using assms(2,3) by (subst unat_add_u32) (simp_all add: off nor_image_def)
  show ?thesis
  proof (cases "off < length block")
    case True
    with assms(1,2) have "view s (base + word_of_nat off) 16 = Some (take 16 (drop off block))"
      by (intro intact_view) (simp_all add: nor_image_def MAX_REPLY_def)
    with True show ?thesis by simp
  next
    case False
    have "view s (base + word_of_nat off) 16 = None"
    proof (rule intact_absent [OF assms(1)])
      fix a x assume m: "mem s a = Some x"
      show "\<not> (unat a \<le> unat (base + word_of_nat off) \<and> unat (base + word_of_nat off) < unat a + length x)"
      proof (cases "a = base")
        case True
        then show ?thesis using False assms(2) m addr by (simp add: nor_image_def)
      next
        case other: False
        have "unat a + length x \<le> unat base \<or> unat base + 134217728 \<le> unat a"
          using assms(2) m other unfolding nor_image_def by blast
        then show ?thesis using addr assms(3) by auto
      qed
    qed
    with False show ?thesis by simp
  qed
qed

lemma effect_probe:
  assumes "ready w" "session io" "0 < timeout" "intact (dev w)"
    and "nor_image (mem (dev w)) base block" "off < 134217728"
  shows "effect (probe T io (base + word_of_nat off) timeout w) w
    (\<lambda>b m. b = (off < length block) \<and> m = mem (dev w)) can"
proof -
  define addr where "addr = base + word_of_nat off"
  have io: "io_checksum io = Sprd" using assms(2) by (simp add: session_def)
  have len: "length (to_be32 addr @ to_be32 16 @ to_be32 0) \<le> MAX_MESSAGE" by (simp add: MAX_MESSAGE_def)
  obtain r s' where step: "step CMD_READ_FLASH (to_be32 addr @ to_be32 16 @ to_be32 0) (dev w) = (r, s')" by fastforce
  have small: "16 \<le> MAX_REPLY" by (simp add: MAX_REPLY_def)
  note rd = read_step [of addr 16, simplified, OF step small]
  have kept: "intact s'" "healthy (dev w) \<Longrightarrow> healthy s' \<and> r \<noteq> None"
    using intact_step [OF assms(4)] healthy_kept healthy_answers [of CMD_READ_FLASH "dev w"] step
    by (metis snd_conv, simp add: opcode_defs) (metis fst_conv snd_conv)
  show ?thesis
  proof (cases r)
    case None
    with exchange_silent [OF assms(1) io len, of CMD_READ_FLASH s' timeout] step obtain w1 w2 e where
      "bsl_send T io CMD_READ_FLASH (to_be32 addr @ to_be32 16 @ to_be32 0) w = Some (Ok (), w1)"
      "recv T timeout w1 = Some (Err (BslTransport (TransportTimeout e)), w2)" "ready w2" "dev w2 = s'" by auto
    with kept None show ?thesis
      by (intro effectI [of _ "Err (FlashBsl (BslTransport (TransportTimeout e)))" w2])
        (simp_all add: probe_def addr_def)
  next
    case (Some td)
    obtain t d where td: "td = (t, d)" by fastforce
    have reply: "(t, d) = (case view (dev w) addr 16 of None \<Rightarrow> (REP_INVALID_CMD, []) | Some bs \<Rightarrow> (REP_READ_FLASH, bs))"
      using rd Some td by auto
    then have "length d \<le> MAX_REPLY"
      using view_length [of "dev w" addr 16] small by (auto split: option.splits)
    with exchange_reply [OF assms(1) io len assms(3)] step Some td obtain w1 w2 where
      "bsl_send T io CMD_READ_FLASH (to_be32 addr @ to_be32 16 @ to_be32 0) w = Some (Ok (), w1)"
      "recv T timeout w1 = Some (Ok (t, d), w2)" "ready w2" "dev w2 = s'" by metis
    moreover have "t = REP_READ_FLASH \<longleftrightarrow> off < length block"
      using reply image_view [OF assms(4-6)] by (auto simp: addr_def opcode_defs split: option.splits)
    ultimately show ?thesis using kept rd
      by (intro effectI [of _ "Ok (t = REP_READ_FLASH)" w2]) (simp_all add: probe_def addr_def)
  qed
qed

section \<open>The search\<close>

lemma word_offset: "base + s = base + word_of_nat (unat (s :: u32))"
  by simp

lemma grow_loop_step:
  "grow_loop T io base timeout lo s w =
     (if CAP \<le> s then Some (Ok (lo, CAP), w)
      else io_bind (probe T io (base + s) timeout)
        (\<lambda>b w'. if b then grow_loop T io base timeout s (push_bit 1 s) w' else Some (Ok (lo, s), w')) w)"
  by (subst grow_loop.simps) (auto simp: io_bind_def Option.bind_def split: option.splits result.splits)

lemma effect_grow:
  assumes "ready w" "session io" "0 < timeout" "intact (dev w)" "nor_image (mem (dev w)) base block"
    and "unat s = 2 ^ k" "20 \<le> k" "k \<le> 27" "65536 dvd unat lo" "unat lo < unat s" "unat lo < length block"
  shows "effect (grow_loop T io base timeout lo s w) w
    (\<lambda>(lo', hi) m. located (length block) lo' hi \<and> m = mem (dev w)) can"
  using assms
proof (induction "27 - k" arbitrary: k lo s w)
  case 0
  then have "CAP \<le> s" "k = 27" by (simp_all add: word_le_nat_alt)
  with 0 show ?case
    unfolding grow_loop_step [of io base timeout lo s w]
    by (simp add: effect_return located_def bracket_def)
next
  case (Suc n)
  then have k: "k < 27" by simp
  then have lim: "(2::nat) ^ k \<le> 2 ^ 26" by (intro power_increasing) simp_all
  then have low: "\<not> CAP \<le> s" "unat s < 134217728" using Suc.prems(6) by (simp_all add: word_le_nat_alt)
  have dv: "65536 dvd unat s"
    unfolding Suc.prems(6) using le_imp_power_dvd [of 16 k "2 :: nat"] Suc.prems(7) by simp
  have dbl: "unat (push_bit 1 s) = 2 ^ Suc k" using push_bit_power [OF Suc.prems(6)] k by simp
  note pr = effect_probe [OF Suc.prems(1-5) low(2), folded word_offset]
  show ?case
    unfolding grow_loop_step [of io base timeout lo s w] if_not_P [OF low(1)]
  proof (rule effect_bind, rule pr)
    fix b w1
    assume w1: "ready w1" "b = (unat s < length block) \<and> mem (dev w1) = mem (dev w)" "intact (dev w) \<Longrightarrow> intact (dev w1)"
    show "effect (if b then grow_loop T io base timeout s (push_bit 1 s) w1 else Some (Ok (lo, s), w1)) w1
        (\<lambda>(lo', hi) m. located (length block) lo' hi \<and> m = mem (dev w)) can"
    proof (cases b)
      case True
      from Suc.hyps(1) [of "Suc k" w1 "push_bit 1 s" s] Suc.hyps(2) Suc.prems w1 True k dv dbl
      show ?thesis by (simp del: push_bit_Suc)
    next
      case False
      with w1 Suc.prems dv low(2) show ?thesis by (simp add: effect_return located_def bracket_def)
    qed
  qed
qed

lemma effect_shrink:
  assumes "ready w" "session io" "0 < timeout" "intact (dev w)" "nor_image (mem (dev w)) base block"
    and "located (length block) lo hi"
  shows "effect (shrink_loop T io base timeout lo hi w) w
    (\<lambda>sz m. unat sz = found_size (length block) \<and> m = mem (dev w)) can"
  using assms
proof (induction "unat hi - unat lo" arbitrary: lo hi w rule: less_induct)
  case less
  have br: "bracket lo hi" using less.prems(6) by (simp add: located_def)
  then have le: "\<not> hi < lo" and lt: "unat lo < unat hi" "unat hi \<le> 134217728"
    by (simp_all add: bracket_def word_less_nat_alt)
  show ?case
  proof (cases "GRAN < hi - lo")
    case True
    define mid where "mid = lo + half_step (hi - lo)"
    note m = bracket_mid [OF br True, folded mid_def]
    have low: "unat mid < 134217728" using m(4) lt by simp
    have step: "shrink_loop T io base timeout lo hi w = io_bind (probe T io (base + mid) timeout)
        (\<lambda>b w'. if b then shrink_loop T io base timeout mid hi w' else shrink_loop T io base timeout lo mid w') w"
      using le True m(3) by (simp add: shrink_loop.simps [of T io base timeout lo hi w] mid_def [symmetric] Let_def)
    show ?thesis
      unfolding step
    proof (rule effect_bind, rule effect_probe [OF less.prems(1-5) low, folded word_offset])
      fix b w1
      assume w1: "ready w1" "b = (unat mid < length block) \<and> mem (dev w1) = mem (dev w)"
        "intact (dev w) \<Longrightarrow> intact (dev w1)"
      have "located (length block) (if b then mid else lo) (if b then hi else mid)"
        using w1(2) m less.prems(6) by (auto simp: located_def)
      with less.hyps [of hi mid w1] less.hyps [of mid lo w1] less.prems w1 m lt
      show "effect (if b then shrink_loop T io base timeout mid hi w1 else shrink_loop T io base timeout lo mid w1) w1
          (\<lambda>sz m. unat sz = found_size (length block) \<and> m = mem (dev w)) can"
        by (auto simp: bracket_def split: if_splits)
    qed
  next
    case False
    obtain a b where ab: "unat lo = 65536 * a" "unat hi = 65536 * b" "a < b"
      using br by (auto simp: bracket_def dvd_def)
    have "unat hi - unat lo \<le> 65536"
      using False le by (simp add: word_less_nat_alt unat_sub not_less)
    then have "unat hi = unat lo + 65536" using ab by simp
    with located_found [OF less.prems(6)] le False less.prems(1) show ?thesis
      by (simp add: shrink_loop.simps [of T io base timeout lo hi w] effect_return)
  qed
qed

lemma effect_discover:
  assumes "ready w" "session io" "0 < timeout" "intact (dev w)" "nor_image (mem (dev w)) base block" "block \<noteq> []"
  shows "effect (discover_flash_size T io base timeout w) w
    (\<lambda>sz m. unat sz = found_size (length block) \<and> m = mem (dev w)) can"
proof -
  have start: "unat (push_bit 20 1 :: u32) = 2 ^ 20" by simp
  note first = effect_probe [OF assms(1-5), of 0, simplified]
  show ?thesis
    unfolding discover_flash_size_def
  proof (rule effect_bind, rule first)
    fix b w1
    assume w1: "ready w1" "b = (block \<noteq> []) \<and> mem (dev w1) = mem (dev w)" "intact (dev w) \<Longrightarrow> intact (dev w1)"
    have img: "intact (dev w1)" "nor_image (mem (dev w1)) base block" using w1 assms(4,5) by simp_all
    have "effect (io_bind (grow_loop T io base timeout 0 (push_bit 20 1)) (\<lambda>(lo, hi). shrink_loop T io base timeout lo hi) w1) w1
        (\<lambda>sz m. unat sz = found_size (length block) \<and> m = mem (dev w1)) can"
      apply (rule effect_bind, rule effect_grow [OF w1(1) assms(2,3) img start])
      using assms(6) apply simp_all
      apply (clarsimp split: prod.splits)
      apply (rule effect_weaken [OF effect_shrink])
      using assms(2,3) img by auto
    with w1(2) assms(6) show "effect ((if \<not> b then io_fail FlashSize
         else io_bind (grow_loop T io base timeout 0 (push_bit 20 1)) (\<lambda>(lo, hi). shrink_loop T io base timeout lo hi)) w1) w1
        (\<lambda>sz m. unat sz = found_size (length block) \<and> m = mem (dev w)) can"
      by simp
  qed
qed

section \<open>The full read\<close>

lemma holds_at_part:
  assumes "holds_at m addr data" "off + k \<le> length data"
  shows "holds_at m (addr + word_of_nat off) (take k (drop off data))"
proof -
  obtain base block i where b: "m base = Some block" "addr = base + word_of_nat i"
    "i + length data \<le> length block" "data = take (length data) (drop i block)"
    using assms(1) unfolding holds_at_def by blast
  have "take k (drop off data) = take k (drop (i + off) block)"
    using assms(2) by (subst b(4)) (simp add: drop_take min_def add.commute)
  with b assms(2) show ?thesis
    unfolding holds_at_def by (intro exI [of _ base] exI [of _ block] exI [of _ "i + off"]) (simp add: min_def)
qed

lemma read_all_loop_step:
  "read_all_loop T io base size32 out w =
     (if word_of_nat (length out) < size32
      then io_bind (io_map_err FlashBsl (read_flash T io (base + word_of_nat (length out))
             (unat (min (size32 - word_of_nat (length out)) (word_of_nat READBACK_CHUNK))) READBACK_CHUNK))
           (\<lambda>chunk w'. if chunk = [] then Some (Ok out, w') else read_all_loop T io base size32 (out @ chunk) w') w
      else Some (Ok out, w))"
  by (subst read_all_loop.simps)
    (auto simp: io_bind_def io_map_err_def map_err_def Option.bind_def split: option.splits result.splits)

lemma effect_read_all:
  assumes "ready w" "session io" "intact (dev w)" "disjoint_mem (mem (dev w))" "holds_at (mem (dev w)) base data"
    and "unat size32 = length data" "length data \<le> 134217728" "prefix out data"
  shows "effect (read_all_loop T io base size32 out w) w (\<lambda>d m. d = data \<and> m = mem (dev w)) can"
  using assms
proof (induction "length data - length out" arbitrary: out w rule: less_induct)
  case less
  have out: "out = take (length out) data" "length out \<le> length data"
    using less.prems(8) by (auto simp: prefix_def)
  have len: "unat (word_of_nat (length out) :: u32) = length out"
    using out(2) less.prems(7) by (intro unat_of_nat_u32) simp
  show ?case
  proof (cases "length out < length data")
    case False
    with out less.prems(1,6) len show ?thesis
      unfolding read_all_loop_step [of io base size32 out w]
      by (simp add: word_less_nat_alt effect_return)
  next
    case True
    define k where "k = min (length data - length out) 1024"
    define piece where "piece = take k (drop (length out) data)"
    have k: "length out + k \<le> length data" "length piece = k" "piece \<noteq> []"
      using True by (auto simp: k_def piece_def)
    have want: "unat (min (size32 - word_of_nat (length out)) (word_of_nat READBACK_CHUNK)) = k"
    proof -
      have "unat (size32 - word_of_nat (length out)) = length data - length out"
        using True less.prems(6) len by (subst unat_sub) (simp_all add: word_le_nat_alt)
      then show ?thesis by (simp add: min_def word_le_nat_alt k_def READBACK_CHUNK_def)
    qed
    have held: "holds_at (mem (dev w)) (base + word_of_nat (length out)) piece"
      unfolding piece_def using less.prems(5) k(1) by (rule holds_at_part)
    have chunk: "READBACK_CHUNK \<le> MAX_REPLY" by (simp add: READBACK_CHUNK_def MAX_REPLY_def)
    have more: "word_of_nat (length out) < size32"
      using True less.prems(6) len by (simp add: word_less_nat_alt)
    have grown: "prefix (out @ piece) data"
      by (subst out(1)) (simp add: piece_def take_add [symmetric] take_is_prefix)
    show ?thesis
      unfolding read_all_loop_step [of io base size32 out w] if_P [OF more] want
    proof (rule effect_bind, rule effect_read [OF less.prems(1,2) chunk less.prems(3,4) held, unfolded k(2)])
      fix d w1
      assume w1: "ready w1" "d = piece \<and> mem (dev w1) = mem (dev w)" "intact (dev w) \<Longrightarrow> intact (dev w1)"
      have "length data - length (out @ piece) < length data - length out"
        using True k(3) by (cases piece) simp_all
      from less.hyps [OF this w1(1) less.prems(2)] w1 less.prems(3-7) grown k(3)
      show "effect (if d = [] then Some (Ok out, w1) else read_all_loop T io base size32 (out @ d) w1) w1
          (\<lambda>d m. d = data \<and> m = mem (dev w)) can"
        by simp
    qed
  qed
qed

end

context boot_device
begin

lemma effect_dump_full:
  assumes "fresh w" "0 < opt_timeout opts" "0 < opt_exec_timeout opts"
    and "build info = Ok plan" "payloads_present info pac" "intact (dev w)"
    and "nor_image (with_fdl2 pac plan (mem (dev w))) base block" "block \<noteq> []" "65536 dvd length block"
  shows "effect (dump_full T opts info pac base w) w
    (\<lambda>(img, sz) m. img = take 134217728 block \<and> unat sz = min (length block) 134217728 \<and>
       m = with_fdl2 pac plan (mem (dev w))) can"
proof -
  define io where "io = bsl_io_new (opt_timeout opts)"
  have io: "session io" using assms(2) by (simp add: io_def session_def bsl_io_new_def)
  define data where "data = take 134217728 block"
  have data: "length data = min (length block) 134217728" "length data \<le> 134217728"
    by (simp_all add: data_def min.commute)
  have found: "found_size (length block) = length data"
    using assms(9) by (auto simp: found_size_def data dvd_def)
  have "data = take (length data) (drop 0 block)" by (simp add: data_def min_def)
  then have held: "holds_at (with_fdl2 pac plan (mem (dev w))) base data" "disjoint_mem (with_fdl2 pac plan (mem (dev w)))"
    using assms(7) data(1) holds_at_part [OF holds_at_block, of "with_fdl2 pac plan (mem (dev w))" base block 0 "length data"]
    by (simp_all add: nor_image_def)
  have rest: "effect (io_bind (discover_flash_size T io base (opt_timeout opts)) (\<lambda>size32.
      io_bind (read_all_loop T io base size32 []) (\<lambda>out. io_bind (send_reset T opts io) (\<lambda>_. io_return (out, size32)))) v) v
    (\<lambda>(img, sz) m. img = data \<and> unat sz = length data \<and> m = with_fdl2 pac plan (mem (dev w))) can"
    if v: "ready v" "mem (dev v) = with_fdl2 pac plan (mem (dev w))" "intact (dev w) \<Longrightarrow> intact (dev v)" for v
  proof (rule effect_bind, rule effect_discover [OF v(1) io assms(2) v(3) [OF assms(6)] _ assms(8)])
    show "nor_image (mem (dev v)) base block" using assms(7) v(2) by simp
    fix sz :: u32 and v1
    assume v1: "ready v1" "unat sz = found_size (length block) \<and> mem (dev v1) = mem (dev v)"
      "intact (dev v) \<Longrightarrow> intact (dev v1)"
    have at: "intact (dev v1)" "disjoint_mem (mem (dev v1))" "holds_at (mem (dev v1)) base data" "unat sz = length data"
      using v v1 assms(6) held found by simp_all
    show "effect (io_bind (read_all_loop T io base sz []) (\<lambda>out. io_bind (send_reset T opts io) (\<lambda>_. io_return (out, sz))) v1) v1
      (\<lambda>(img, sz) m. img = data \<and> unat sz = length data \<and> m = with_fdl2 pac plan (mem (dev w))) can"
      apply (rule effect_bind, rule effect_read_all [OF v1(1) io at data(2)], simp)
      apply (rule effect_bind, rule effect_reset [OF _ io], assumption)
      using v v1 at by (simp add: effect_return)
  qed
  have "effect (dump_full T opts info pac base w) w
    (\<lambda>(img, sz) m. img = data \<and> unat sz = length data \<and> m = with_fdl2 pac plan (mem (dev w))) can"
    unfolding dump_full_def
    apply (simp only: assms(4) map_err_simps io_lift_bind)
    apply (rule effect_bind, rule effect_bring_up [OF assms(1-5)])
    apply (clarsimp simp only: prod.case)
    by (rule rest [unfolded io_def])
  then show ?thesis by (simp only: data data_def [symmetric])
qed

end

end
