(* ===== verification/Mock.thy ===== *)
theory Mock
  imports Flash_Size "HOL-Library.AList"
begin

text \<open>
  The protocol-simulating device of \<open>crates/sprdflash-flash/src/mock.rs\<close>: its state, one
  definition per branch of \<open>process\<close>, and its \<open>Transport\<close> methods. The \<open>HashMap\<close> of written
  regions is an association list; where the code takes the first match of an iteration, the model
  takes the first match of the list. The world of the mock transport adds the clock, which a read
  moves by one millisecond.
\<close>

section \<open>State\<close>

definition VER_BANNER :: "u8 list" where
  "VER_BANNER =
     map (\<lambda>c. word_of_nat (of_char c)) ''Spreadtrum Boot Block version 1.2'' @ [0]"

datatype mode = PdlMode | BslMode

record mock =
  mock_mode :: mode
  exec_seen :: bool
  in_buf :: "u8 list"
  out_buf :: "u8 list"
  bsl_frames :: nat
  drop_acks :: "nat list"
  flash :: "(u32 \<times> u8 list) list"
  mock_cur :: "(u32 \<times> u8 list) option"
  corrupt_readback :: bool

definition mock_default :: mock where
  "mock_default =
     \<lparr>mock_mode = PdlMode, exec_seen = False, in_buf = [], out_buf = [], bsl_frames = 0, drop_acks = [],
      flash = [], mock_cur = None, corrupt_readback = False\<rparr>"

definition dropping_bsl_acks :: "nat list \<Rightarrow> mock" where
  "dropping_bsl_acks indices = mock_default\<lparr>drop_acks := indices\<rparr>"

definition corrupting_readback :: mock where
  "corrupting_readback = mock_default\<lparr>corrupt_readback := True\<rparr>"

definition seeded :: "(u32 \<times> u8 list) list \<Rightarrow> mock" where
  "seeded regions =
     foldl (\<lambda>m (addr, bytes). m\<lparr>flash := AList.update addr bytes (flash m)\<rparr>) mock_default regions"

section \<open>One BSL message\<close>

text \<open>Type, size and data of an unescaped body.\<close>

definition body_type :: "u8 list \<Rightarrow> u16" where
  "body_type body = (if 4 \<le> length body then from_be16 (body ! 0) (body ! 1) else 0)"

definition body_data :: "u8 list \<Rightarrow> u8 list" where
  "body_data body =
     (let sz = (if 4 \<le> length body then unat (from_be16 (body ! 2) (body ! 3)) else 0)
      in case get_range body 4 (4 + sz) of Some d \<Rightarrow> d | None \<Rightarrow> [])"

definition data_u32 :: "u8 list \<Rightarrow> nat \<Rightarrow> u32" where
  "data_u32 d i = from_be32 (d ! i) (d ! (i + 1)) (d ! (i + 2)) (d ! (i + 3))"

text \<open>The writes the mock tracks.\<close>

definition track :: "u16 \<Rightarrow> u8 list \<Rightarrow> mock \<Rightarrow> mock" where
  "track ty data m =
     (if ty = CMD_START_DATA \<and> 4 \<le> length data then m\<lparr>mock_cur := Some (data_u32 data 0, [])\<rparr>
      else if ty = CMD_MIDST_DATA then
        m\<lparr>mock_cur := map_option (\<lambda>(a, buf). (a, buf @ data)) (mock_cur m)\<rparr>
      else if ty = CMD_END_DATA then
        (case mock_cur m of
           None \<Rightarrow> m
         | Some (addr, buf) \<Rightarrow> m\<lparr>mock_cur := None, flash := AList.update addr buf (flash m)\<rparr>)
      else m)"

text \<open>The first written region that contains an address.\<close>

definition region_at :: "(u32 \<times> u8 list) list \<Rightarrow> u32 \<Rightarrow> (u32 \<times> u8 list) option" where
  "region_at fl addr = find (\<lambda>(base, buf). base \<le> addr \<and> unat (addr - base) < length buf) fl"

definition read_back :: "mock \<Rightarrow> u32 \<Rightarrow> nat \<Rightarrow> nat \<Rightarrow> u8 list option" where
  "read_back m addr sz off =
     (case region_at (flash m) addr of
        None \<Rightarrow> None
      | Some (base, buf) \<Rightarrow>
          (let start = unat (addr - base) + off;
               bytes = (case get_range buf start (min (start + sz) (length buf)) of
                          Some d \<Rightarrow> d | None \<Rightarrow> [])
           in Some (if corrupt_readback m \<and> bytes \<noteq> [] then bytes[0 := bytes ! 0 XOR 0xFF] else bytes)))"

definition answer :: "u16 \<Rightarrow> u8 list \<Rightarrow> mock \<Rightarrow> u16 \<times> u8 list" where
  "answer ty data m =
     (if ty = CMD_READ_FLASH \<and> 12 \<le> length data
      then (case read_back m (data_u32 data 0) (unat (data_u32 data 4)) (unat (data_u32 data 8)) of
              Some bytes \<Rightarrow> (REP_READ_FLASH, bytes)
            | None \<Rightarrow> (REP_INVALID_CMD, []))
      else (REP_ACK, []))"

text \<open>Count the frame, track it, and answer unless its answer is withheld.\<close>

definition mock_step :: "mock device_step" where
  "mock_step ty data m0 =
     (let m1 = m0\<lparr>bsl_frames := bsl_frames m0 + 1\<rparr>;
          dropped = bsl_frames m1 \<in> set (drop_acks m1);
          m2 = track ty data m1
      in (if dropped \<or> ty = CMD_NORMAL_RESET then None else Some (answer ty data m2), m2))"

section \<open>The receive loop\<close>

declare rbind_cong [fundef_cong]

function process :: "mock \<Rightarrow> (mock, 'e) result" where
  "process m =
     (case mock_mode m of
        PdlMode \<Rightarrow>
          (if \<not> exec_seen m
           then
             (if length (in_buf m) < PDL_HEADER_LEN \<or> in_buf m ! 0 \<noteq> PDL_MAGIC then Ok m
              else
                (let len = unat (from_le16 (in_buf m ! 1) (in_buf m ! 2)); all = PDL_HEADER_LEN + len
                 in if length (in_buf m) < all \<or> len < 4 then Ok m
                    else
                      (let cmd = from_le32 (in_buf m ! 8) (in_buf m ! 9) (in_buf m ! 10) (in_buf m ! 11);
                           m1 = m\<lparr>in_buf := drop all (in_buf m)\<rparr>
                       in if cmd = pdl_code PdlExec then process (m1\<lparr>exec_seen := True\<rparr>)
                          else process (m1\<lparr>out_buf := out_buf m1 @ pdl_header 4 @ [0, 0, 0, 0]\<rparr>))))
           else
             (if FLAG \<in> set (in_buf m)
              then rbind (build_message REP_VER VER_BANNER Sprd) (\<lambda>msg.
                     process (m\<lparr>in_buf := [], out_buf := out_buf m @ msg, mock_mode := BslMode\<rparr>))
              else Ok m))
      | BslMode \<Rightarrow>
          (case position (\<lambda>b. b = FLAG) (in_buf m) of
             None \<Rightarrow> Ok m
           | Some i0 \<Rightarrow>
               (case position (\<lambda>b. b = FLAG) (drop (i0 + 1) (in_buf m)) of
                  None \<Rightarrow> Ok m
                | Some rel \<Rightarrow>
                    (let body = unescape (take rel (drop (i0 + 1) (in_buf m)));
                         m1 = m\<lparr>in_buf := drop (i0 + 1 + rel + 1) (in_buf m)\<rparr>;
                         (reply, m2) = mock_step (body_type body) (body_data body) m1
                     in case reply of
                          None \<Rightarrow> process m2
                        | Some (ty, data) \<Rightarrow>
                            rbind (build_message ty data Sprd) (\<lambda>msg.
                              process (m2\<lparr>out_buf := out_buf m2 @ msg\<rparr>))))))"
  by pat_completeness auto

lemma track_link [simp]:
  "mock_mode (track ty data m) = mock_mode m" "exec_seen (track ty data m) = exec_seen m"
  "in_buf (track ty data m) = in_buf m" "out_buf (track ty data m) = out_buf m"
  "bsl_frames (track ty data m) = bsl_frames m" "drop_acks (track ty data m) = drop_acks m"
  "corrupt_readback (track ty data m) = corrupt_readback m"
  by (auto simp: track_def split: option.splits)

lemma mock_step_link [simp]:
  "mock_mode (snd (mock_step ty data m)) = mock_mode m" "exec_seen (snd (mock_step ty data m)) = exec_seen m"
  "in_buf (snd (mock_step ty data m)) = in_buf m" "out_buf (snd (mock_step ty data m)) = out_buf m"
  "drop_acks (snd (mock_step ty data m)) = drop_acks m"
  "corrupt_readback (snd (mock_step ty data m)) = corrupt_readback m"
  by (simp_all add: mock_step_def Let_def)

lemma mock_step_in_buf: "(reply, m') = mock_step ty data m \<Longrightarrow> in_buf m' = in_buf m"
  using mock_step_link(3) [of ty data m] by (metis snd_conv)

termination process
proof (relation "measure (\<lambda>m. length (in_buf m))")
qed (auto simp: PDL_HEADER_LEN_def dest!: mock_step_in_buf dest: position_Some_length)

declare process.simps [simp del]

section \<open>The transport\<close>

record mock_world =
  device :: mock
  clock :: nat

definition mock_transport :: "mock_world transport" where
  "mock_transport =
     \<lparr>write_all = (\<lambda>data w.
        case (process ((device w)\<lparr>in_buf := in_buf (device w) @ data\<rparr>) :: (mock, transport_error) result) of
          Ok m \<Rightarrow> Some (Ok (), w\<lparr>device := m\<rparr>)
        | _ \<Rightarrow> Some (Panic, w)),
      read_some = (\<lambda>n w. Some (Ok (take n (out_buf (device w))),
        w\<lparr>device := (device w)\<lparr>out_buf := drop n (out_buf (device w))\<rparr>, clock := clock w + 1\<rparr>)),
      set_baud = (\<lambda>_. io_return ()),
      purge_input = (\<lambda>w. w\<lparr>device := (device w)\<lparr>in_buf := []\<rparr>\<rparr>),
      reset_teardown = (\<lambda>_ w. w),
      now = clock\<rparr>"

end
