(* ===== verification/Mock_Device.thy ===== *)
theory Mock_Device
  imports Mock
begin

text \<open>
  The mock device meets the contracts of \<open>Device\<close>: the interpretations of \<open>live_transport\<close>,
  \<open>bsl_device\<close>, \<open>flash_device\<close> and \<open>boot_device\<close>, with the lemmas that run its receive loop on
  the messages the driver sends.
\<close>

section \<open>One message through the receive loop\<close>

definition clean :: "mock \<Rightarrow> bool" where
  "clean m \<longleftrightarrow> mock_mode m = BslMode \<and> in_buf m = [] \<and> out_buf m = []"

definition mock_ready :: "mock_world \<Rightarrow> bool" where
  "mock_ready w \<longleftrightarrow> clean (device w)"

lemma in_buf_restore: "in_buf m = b \<Longrightarrow> m\<lparr>in_buf := b\<rparr> = m" "in_buf m = b \<Longrightarrow> m\<lparr>in_buf := c, in_buf := b\<rparr> = m"
  by (cases m; simp)+

lemma out_buf_restore: "out_buf m = b \<Longrightarrow> m\<lparr>out_buf := c, out_buf := b\<rparr> = m" "out_buf m = b \<Longrightarrow> m\<lparr>out_buf := b\<rparr> = m"
  by (cases m; simp)+

lemma body_fields:
  assumes "length data \<le> 65535"
  shows "body_type (message_body cmd data c) = cmd" and "body_data (message_body cmd data c) = data"
proof -
  have "unat (word_of_nat (length data) :: u16) = length data" using assms by (intro unat_of_nat_u16) simp
  then show "body_type (message_body cmd data c) = cmd" "body_data (message_body cmd data c) = data"
    by (simp_all add: body_type_def body_data_def message_body_def to_be16_def get_range_def)
qed

lemma process_idle: "mock_mode m = BslMode \<Longrightarrow> in_buf m = [] \<Longrightarrow> process m = Ok m"
  by (simp add: process.simps [of m])

lemma process_frame:
  assumes "clean m" "length data \<le> 65535" "mock_step cmd data m = (reply, m2)"
  shows "process (m\<lparr>in_buf := frame Sprd cmd data\<rparr>) =
    (case reply of None \<Rightarrow> Ok m2 | Some (t, d) \<Rightarrow> rmap (\<lambda>msg. m2\<lparr>out_buf := msg\<rparr>) (build_message t d Sprd))"
proof -
  define body where "body = message_body cmd data (message_sum Sprd cmd data)"
  have fr: "frame Sprd cmd data = FLAG # escape body @ [FLAG]" by (simp add: frame_def body_def)
  have m: "m\<lparr>in_buf := FLAG # escape body @ [FLAG], in_buf := []\<rparr> = m"
    using assms(1) by (intro in_buf_restore) (simp add: clean_def)
  have ty: "body_type body = cmd" "body_data body = data"
    using body_fields [OF assms(2)] by (simp_all add: body_def)
  have pos: "position (\<lambda>b. b = FLAG) (escape body @ [FLAG]) = Some (length (escape body))"
    by (rule position_append_hit) simp_all
  have m2: "mock_mode m2 = BslMode" "in_buf m2 = []" "out_buf m2 = []"
    using mock_step_link [of cmd data m] assms(1,3) by (simp_all add: clean_def)
  have idle: "process m2 = Ok m2" "process (m2\<lparr>out_buf := msg\<rparr>) = Ok (m2\<lparr>out_buf := msg\<rparr>)" for msg
    using m2 by (simp_all add: process_idle)
  have "process (m\<lparr>in_buf := FLAG # escape body @ [FLAG]\<rparr>) =
    (case reply of None \<Rightarrow> process m2
     | Some (t, d) \<Rightarrow> rbind (build_message t d Sprd) (\<lambda>msg. process (m2\<lparr>out_buf := msg\<rparr>)))"
    using assms(1,3) m2(3)
    by (simp add: process.simps [of "m\<lparr>in_buf := FLAG # escape body @ [FLAG]\<rparr>"] clean_def pos m ty
        split: option.splits)
  then show ?thesis
    by (simp add: fr idle rbind_def rmap_def split: option.splits prod.splits result.splits)
qed

section \<open>The wire of the mock\<close>

lemma mock_transport_simps [simp]:
  "write_all mock_transport data w =
     (case (process ((device w)\<lparr>in_buf := in_buf (device w) @ data\<rparr>) :: (mock, transport_error) result) of
        Ok m \<Rightarrow> Some (Ok (), w\<lparr>device := m\<rparr>) | _ \<Rightarrow> Some (Panic, w))"
  "read_some mock_transport n w = Some (Ok (take n (out_buf (device w))),
     w\<lparr>device := (device w)\<lparr>out_buf := drop n (out_buf (device w))\<rparr>, clock := clock w + 1\<rparr>)"
  "set_baud mock_transport b w = Some (Ok (), w)"
  "purge_input mock_transport w = w\<lparr>device := (device w)\<lparr>in_buf := []\<rparr>\<rparr>"
  "reset_teardown mock_transport hold w = w"
  "now mock_transport w = clock w"
  by (simp_all add: mock_transport_def)

interpretation mock_live: live_transport mock_transport "\<lambda>w. True" "\<lambda>w. length (out_buf (device w))"
  by unfold_locales (auto split: result.splits)

lemma write_frame:
  assumes "mock_ready w" "length data \<le> 65535" "mock_step cmd data (device w) = (reply, m2)"
    and "\<And>t d. reply = Some (t, d) \<Longrightarrow> length d \<le> 65535"
  shows "write_all mock_transport (frame Sprd cmd data) w =
    Some (Ok (), w\<lparr>device := m2\<lparr>out_buf := (case reply of None \<Rightarrow> [] | Some (t, d) \<Rightarrow> frame Sprd t d)\<rparr>\<rparr>)"
proof -
  have c: "clean (device w)" using assms(1) by (simp add: mock_ready_def)
  then have "in_buf (device w) @ frame Sprd cmd data = frame Sprd cmd data" by (simp add: clean_def)
  moreover have "m2\<lparr>out_buf := []\<rparr> = m2"
    using mock_step_link(4) [of cmd data "device w"] c assms(3) by (intro out_buf_restore) (simp add: clean_def)
  ultimately show ?thesis
    using assms(4) by (auto simp: process_frame [OF c assms(2,3)] build_message_frame split: option.splits)
qed

lemma send_frame:
  assumes "mock_ready w" "io_checksum io = Sprd" "length data \<le> 65535"
    and "mock_step cmd data (device w) = (reply, m2)"
    and "\<And>t d. reply = Some (t, d) \<Longrightarrow> length d \<le> 65535"
  shows "bsl_send mock_transport io cmd data w =
    Some (Ok (), w\<lparr>device := m2\<lparr>out_buf := (case reply of None \<Rightarrow> [] | Some (t, d) \<Rightarrow> frame Sprd t d)\<rparr>\<rparr>)"
  using write_frame [OF assms(1,3,4,5)] assms(2)
  by (simp add: bsl_send_def build_message_frame [OF assms(3)] io_lift_bind io_map_err_def del: mock_transport_simps(1))

lemma frame_length: "length (frame ck t d) \<le> 2 * length d + 14"
  using length_escape [of "message_body t d (message_sum ck t d)"] by (simp add: frame_def)

lemma recv_frame:
  assumes "out_buf (device w) = frame Sprd t d" "length d \<le> MAX_REPLY" "0 < timeout"
  shows "recv mock_transport timeout w =
    Some (Ok (t, d), w\<lparr>device := (device w)\<lparr>out_buf := []\<rparr>, clock := clock w + 1\<rparr>)"
proof -
  have short: "length (frame Sprd t d) \<le> READ_BUF"
    using frame_length [of Sprd t d] assms(2) by (simp add: MAX_REPLY_def READ_BUF_def)
  have ne: "frame Sprd t d \<noteq> []" by (simp add: frame_def)
  have "message_body t d c \<noteq> []" for c by (simp add: message_body_def to_be16_def)
  from find_frame_body_message [of "[]", OF _ this, where k = 0 and rest = "[]"]
  have body: "find_frame_body (frame Sprd t d) = Some (message_body t d (message_sum Sprd t d))"
    by (simp add: frame_def)
  have "find_frame_body [] = None" by (simp add: find_frame_body_def)
  then have "read_until mock_transport find_frame_body [] (clock w + timeout) w =
      Some (Ok (message_body t d (message_sum Sprd t d)),
        w\<lparr>device := (device w)\<lparr>out_buf := []\<rparr>, clock := clock w + 1\<rparr>)"
    using assms(1,3) short ne body
    by (simp add: read_until_def read_until_loop.simps [of mock_transport find_frame_body])
  then show ?thesis
    using assms(2) by (simp add: recv_def io_bind_def io_map_err_def parse_message_body MAX_REPLY_def)
qed

lemma quiet_loop:
  assumes "out_buf (device w) = []"
  shows "\<exists>e t. read_until_loop mock_transport pred d start acc w = Some (Err (TransportTimeout e), w\<lparr>clock := t\<rparr>)"
  using assms
proof (induction "d - clock w" arbitrary: w rule: less_induct)
  case less
  show ?case
  proof (cases "clock w < d")
    case False
    then show ?thesis
      by (simp add: read_until_loop.simps [of mock_transport pred d start acc w])
        (metis mock_world.surjective mock_world.update_convs(2) old.unit.exhaust)
  next
    case True
    define w1 where "w1 = w\<lparr>clock := clock w + 1\<rparr>"
    have "d - clock w1 < d - clock w" "out_buf (device w1) = []" using True less.prems by (simp_all add: w1_def)
    from less.hyps [OF this] obtain e t where
      "read_until_loop mock_transport pred d start acc w1 = Some (Err (TransportTimeout e), w1\<lparr>clock := t\<rparr>)" by blast
    moreover have "w\<lparr>device := (device w)\<lparr>out_buf := []\<rparr>, clock := Suc (clock w)\<rparr> = w1"
      using less.prems by (cases w) (simp add: w1_def out_buf_restore)
    ultimately show ?thesis
      using True less.prems by (simp add: read_until_loop.simps [of mock_transport pred d start acc w])
        (auto simp: w1_def)
  qed
qed

lemma recv_quiet:
  assumes "out_buf (device w) = []"
  shows "\<exists>e t. recv mock_transport timeout w = Some (Err (BslTransport (TransportTimeout e)), w\<lparr>clock := t\<rparr>)"
proof -
  have "find_frame_body [] = None" by (simp add: find_frame_body_def)
  with quiet_loop [OF assms, of find_frame_body "clock w + timeout" "clock w" "[]"] show ?thesis
    by (auto simp: recv_def read_until_def io_bind_def io_map_err_def)
qed

interpretation mock_bsl: bsl_device mock_transport mock_ready device mock_step
proof unfold_locales
  fix w :: mock_world and io :: bsl_io and data :: "u8 list" and timeout :: nat and cmd t d and s' :: mock
  assume a: "mock_ready w" "io_checksum io = Sprd" "length data \<le> MAX_MESSAGE" "0 < timeout"
    "mock_step cmd data (device w) = (Some (t, d), s')" "length d \<le> MAX_REPLY"
  define w1 where "w1 = w\<lparr>device := s'\<lparr>out_buf := frame Sprd t d\<rparr>\<rparr>"
  have s': "clean s'" using mock_step_link [of cmd data "device w"] a(1,5) by (simp add: mock_ready_def clean_def)
  have "bsl_send mock_transport io cmd data w = Some (Ok (), w1)"
    using send_frame [OF a(1,2) _ a(5)] a(3,6) by (simp add: w1_def MAX_MESSAGE_def MAX_REPLY_def)
  moreover have "recv mock_transport timeout w1 = Some (Ok (t, d), w1\<lparr>device := s', clock := clock w1 + 1\<rparr>)"
    using recv_frame [of w1 t d timeout] a(4,6) s' by (simp add: w1_def out_buf_restore clean_def)
  ultimately show "\<exists>w1 w2. bsl_send mock_transport io cmd data w = Some (Ok (), w1) \<and>
      recv mock_transport timeout w1 = Some (Ok (t, d), w2) \<and> mock_ready w2 \<and> device w2 = s'"
    using s' by (auto simp: mock_ready_def)
next
  fix w :: mock_world and io :: bsl_io and data :: "u8 list" and timeout :: nat and cmd and s' :: mock
  assume a: "mock_ready w" "io_checksum io = Sprd" "length data \<le> MAX_MESSAGE"
    "mock_step cmd data (device w) = (None, s')"
  have s': "clean s'" using mock_step_link [of cmd data "device w"] a(1,4) by (simp add: mock_ready_def clean_def)
  define w1 where "w1 = w\<lparr>device := s'\<rparr>"
  have send: "bsl_send mock_transport io cmd data w = Some (Ok (), w1)"
    using send_frame [OF a(1,2) _ a(4)] a(3) s' by (simp add: w1_def MAX_MESSAGE_def out_buf_restore clean_def)
  obtain e t where "recv mock_transport timeout w1 = Some (Err (BslTransport (TransportTimeout e)), w1\<lparr>clock := t\<rparr>)"
    using recv_quiet [of w1 timeout] s' by (auto simp: w1_def clean_def)
  with send s' show "\<exists>w1 w2 e. bsl_send mock_transport io cmd data w = Some (Ok (), w1) \<and>
      mock_ready w1 \<and> device w1 = s' \<and>
      recv mock_transport timeout w1 = Some (Err (BslTransport (TransportTimeout e)), w2) \<and>
      mock_ready w2 \<and> device w2 = s'"
    by (intro exI [of _ w1] exI [of _ "w1\<lparr>clock := t\<rparr>"] exI [of _ e]) (simp add: mock_ready_def w1_def)
qed (auto simp: mock_ready_def clean_def in_buf_restore)

section \<open>The memory of the mock\<close>

definition mock_mem :: "mock \<Rightarrow> u32 \<rightharpoonup> u8 list" where
  "mock_mem m = map_of (flash m)"

definition mock_view :: "mock \<Rightarrow> u32 \<Rightarrow> nat \<Rightarrow> u8 list option" where
  "mock_view m addr n = read_back m addr n 0"

text \<open>The answers still to be withheld: the dropped frame numbers not reached yet.\<close>

definition mock_losses :: "mock \<Rightarrow> nat" where
  "mock_losses m = card {i \<in> set (drop_acks m). bsl_frames m < i}"

lemma data_u32_be:
  "data_u32 (to_be32 x @ rest) 0 = x"
  "length xs = 4 \<Longrightarrow> data_u32 (xs @ to_be32 x @ rest) 4 = x"
  "length xs = 4 \<Longrightarrow> length ys = 4 \<Longrightarrow> data_u32 (xs @ ys @ to_be32 x) 8 = x"
  by (simp_all add: data_u32_def nth_append) (simp_all add: to_be32_def)

lemma read_back_length: "read_back m addr n 0 = Some bs \<Longrightarrow> length bs \<le> n"
  by (auto simp: read_back_def get_range_def Let_def split: option.splits if_splits)

lemma read_back_cong:
  "flash m' = flash m \<Longrightarrow> corrupt_readback m' = corrupt_readback m \<Longrightarrow> read_back m' = read_back m"
  by (intro ext) (simp add: read_back_def Let_def cong: option.case_cong split: prod.splits)

lemma mock_step_cases:
  assumes "mock_step cmd data m = (r, m')"
  shows "m' = track cmd data (m\<lparr>bsl_frames := bsl_frames m + 1\<rparr>)"
    and "r \<in> {None, Some (answer cmd data m')}"
  using assms by (auto simp: mock_step_def Let_def split: if_splits)

lemma mock_step_frames: "bsl_frames (snd (mock_step cmd data m)) = bsl_frames m + 1"
  by (simp add: mock_step_def Let_def)

lemma mock_losses_step: "mock_losses (snd (mock_step cmd data m)) \<le> mock_losses m"
  unfolding mock_losses_def mock_step_link mock_step_frames by (intro card_mono) auto

lemma mock_losses_silent:
  assumes "cmd \<noteq> CMD_NORMAL_RESET" "fst (mock_step cmd data m) = None"
  shows "mock_losses (snd (mock_step cmd data m)) < mock_losses m"
proof -
  have "bsl_frames m + 1 \<in> set (drop_acks m)"
    using assms by (simp add: mock_step_def Let_def split: if_splits)
  then show ?thesis
    unfolding mock_losses_def mock_step_link mock_step_frames by (intro psubset_card_mono) auto
qed

text \<open>A mock that does not corrupt its reads; a \<open>HashMap\<close> has each key once.\<close>

definition mock_intact :: "mock \<Rightarrow> bool" where
  "mock_intact m \<longleftrightarrow> \<not> corrupt_readback m \<and> distinct (map fst (flash m))"

lemma mock_intact_step: "mock_intact m \<Longrightarrow> mock_intact (snd (mock_step cmd data m))"
  by (auto simp: mock_intact_def mock_step_def track_def Let_def intro: distinct_update split: option.splits)

lemma region_at_disjoint:
  assumes "disjoint_mem (map_of fl)" "distinct (map fst fl)" "map_of fl base = Some block" "off < length block"
  shows "region_at fl (base + word_of_nat off) = Some (base, block)"
    and "unat (base + word_of_nat off - base) = off"
proof -
  have fit: "unat base + length block \<le> 4294967296"
    using assms(1,3) by (auto simp: disjoint_mem_def)
  then have off: "unat (word_of_nat off :: u32) = off" using assms(4) by (intro unat_of_nat_u32) simp
  have addr: "unat (base + word_of_nat off) = unat base + off"
    using fit assms(4) by (subst unat_add_u32) (simp_all add: off)
  show sub: "unat (base + word_of_nat off - base) = off" by (simp add: off)
  have unique: "b = base \<and> x = block"
    if "(b, x) \<in> set fl" "b \<le> base + word_of_nat off" "unat (base + word_of_nat off - b) < length x" for b x
  proof -
    have m: "map_of fl b = Some x" using that(1) assms(2) by simp
    have le: "unat b \<le> unat base + off" using that(2) addr by (simp add: word_le_nat_alt)
    have lt: "unat base + off - unat b < length x"
      using that(2,3) addr by (simp add: unat_sub)
    have "\<not> unat b < unat base"
      using assms(1,3) m le lt unfolding disjoint_mem_def by fastforce
    moreover have "\<not> unat base < unat b"
      using assms(1,3,4) m le unfolding disjoint_mem_def by fastforce
    ultimately have "unat b = unat base" by simp
    then have "b = base" by (rule unsigned_word_eqI)
    with m assms(3) show ?thesis by simp
  qed
  have "(base, block) \<in> set fl" using assms(3) by (rule map_of_SomeD)
  moreover have "base \<le> base + word_of_nat off" by (simp add: word_le_nat_alt addr)
  ultimately have "region_at fl (base + word_of_nat off) \<noteq> None"
    using sub assms(4) unfolding region_at_def find_None_iff by (intro notI) (metis (mono_tags, lifting) case_prod_conv)
  then obtain b x where r: "region_at fl (base + word_of_nat off) = Some (b, x)" by auto
  then have "(b, x) \<in> set fl \<and> b \<le> base + word_of_nat off \<and> unat (base + word_of_nat off - b) < length x"
    unfolding region_at_def find_Some_iff by (metis (mono_tags, lifting) case_prod_conv nth_mem)
  with unique [of b x] r show "region_at fl (base + word_of_nat off) = Some (base, block)" by simp
qed

lemma mock_intact_absent:
  assumes "mock_intact s"
    and "\<And>a x. mock_mem s a = Some x \<Longrightarrow> \<not> (unat a \<le> unat addr \<and> unat addr < unat a + length x)"
  shows "mock_view s addr n = None"
proof -
  have "\<not> (b \<le> addr \<and> unat (addr - b) < length x)" if "(b, x) \<in> set (flash s)" for b x
  proof -
    have "mock_mem s b = Some x" using that assms(1) by (simp add: mock_mem_def mock_intact_def)
    from assms(2) [OF this] show ?thesis by (auto simp: word_le_nat_alt unat_sub)
  qed
  then have "region_at (flash s) addr = None" by (auto simp: region_at_def find_None_iff)
  then show ?thesis by (simp add: mock_view_def read_back_def)
qed

lemma mock_intact_view:
  assumes "mock_intact s" "disjoint_mem (mock_mem s)" "mock_mem s base = Some block"
    and "off < length block"
  shows "mock_view s (base + word_of_nat off) n = Some (take n (drop off block))"
  using assms region_at_disjoint [of "flash s" base block off]
  by (auto simp: mock_view_def read_back_def mock_intact_def mock_mem_def get_range_def Let_def min_def)

interpretation mock_flash: flash_device mock_transport mock_ready device mock_step
  mock_cur mock_mem mock_view mock_losses mock_intact
proof unfold_locales
  fix addr rest r and s s' :: mock
  assume "mock_step CMD_START_DATA (to_be32 addr @ rest) s = (r, s')"
  from mock_step_cases [OF this]
  show "r \<in> {None, Some (REP_ACK, [])} \<and> mock_cur s' = Some (addr, []) \<and> mock_mem s' = mock_mem s"
    by (auto simp: track_def answer_def opcode_defs data_u32_be mock_mem_def)
next
  fix data r and s s' :: mock
  assume "mock_step CMD_MIDST_DATA data s = (r, s')"
  from mock_step_cases [OF this]
  show "r \<in> {None, Some (REP_ACK, [])} \<and> mock_mem s' = mock_mem s \<and>
      mock_cur s' = map_option (\<lambda>(a, buf). (a, buf @ data)) (mock_cur s)"
    by (auto simp: track_def answer_def opcode_defs mock_mem_def)
next
  fix r and s s' :: mock
  assume "mock_step CMD_END_DATA [] s = (r, s')"
  from mock_step_cases [OF this]
  show "r \<in> {None, Some (REP_ACK, [])} \<and> mock_cur s' = None \<and>
      mock_mem s' = (case mock_cur s of None \<Rightarrow> mock_mem s | Some (a, buf) \<Rightarrow> (mock_mem s)(a \<mapsto> buf))"
    by (auto simp: track_def answer_def opcode_defs mock_mem_def update_conv' split: option.splits)
next
  fix cmd data r and s s' :: mock
  assume c: "cmd \<in> {CMD_CONNECT, CMD_EXEC_DATA, CMD_CHANGE_BAUD, CMD_ERASE_FLASH}"
    and "mock_step cmd data s = (r, s')"
  from mock_step_cases [OF this(2)] c
  show "r \<in> {None, Some (REP_ACK, [])} \<and> mock_cur s' = mock_cur s \<and> mock_mem s' = mock_mem s"
    by (auto simp: track_def answer_def opcode_defs mock_mem_def)
next
  fix r and s s' :: mock
  assume a: "mock_step CMD_NORMAL_RESET [] s = (r, s')"
  then have "r = None" by (simp add: mock_step_def Let_def)
  with mock_step_cases [OF a] show "r = None \<and> mock_cur s' = mock_cur s \<and> mock_mem s' = mock_mem s"
    by (auto simp: track_def opcode_defs mock_mem_def)
next
  fix addr n r and s s' :: mock
  assume a: "mock_step CMD_READ_FLASH (to_be32 addr @ to_be32 (word_of_nat n) @ to_be32 0) s = (r, s')"
    and "n \<le> MAX_REPLY"
  then have n: "unat (word_of_nat n :: u32) = n" by (intro unat_of_nat_u32) (simp add: MAX_REPLY_def)
  from mock_step_cases [OF a] have s': "flash s' = flash s" "mock_cur s' = mock_cur s"
    "corrupt_readback s' = corrupt_readback s"
    by (simp_all add: track_def opcode_defs)
  then have same: "read_back s' = read_back s" by (intro read_back_cong) simp_all
  from mock_step_cases(2) [OF a] s'(1,2) n
  show "r \<in> {None, Some (case mock_view s addr n of None \<Rightarrow> (REP_INVALID_CMD, []) | Some bs \<Rightarrow> (REP_READ_FLASH, bs))} \<and>
      mock_cur s' = mock_cur s \<and> mock_mem s' = mock_mem s \<and> mock_view s' = mock_view s"
    by (auto simp: answer_def data_u32_be mock_mem_def mock_view_def fun_eq_iff same split: option.splits)
next
  fix s :: mock and addr n bs
  assume "mock_view s addr n = Some bs"
  then show "length bs \<le> n" unfolding mock_view_def by (rule read_back_length)
next
  fix s :: mock and cmd data
  assume "mock_intact s"
  then show "mock_intact (snd (mock_step cmd data s))" by (rule mock_intact_step)
next
  fix s :: mock and base block off n
  assume "mock_intact s" "disjoint_mem (mock_mem s)" "mock_mem s base = Some block"
    "off < length block"
  then show "mock_view s (base + word_of_nat off) n = Some (take n (drop off block))"
    by (rule mock_intact_view)
next
  fix s :: mock and addr :: u32 and n
  assume "mock_intact s"
    "\<And>a x. mock_mem s a = Some x \<Longrightarrow> \<not> (unat a \<le> unat addr \<and> unat addr < unat a + length x)"
  then show "mock_view s addr n = None" by (rule mock_intact_absent)
qed (simp_all add: mock_losses_step mock_losses_silent)

section \<open>Power-up\<close>

definition pdl_idle :: "mock \<Rightarrow> bool" where
  "pdl_idle m \<longleftrightarrow> mock_mode m = PdlMode \<and> \<not> exec_seen m \<and> in_buf m = [] \<and> out_buf m = []"

definition mock_fresh :: "mock_world \<Rightarrow> bool" where
  "mock_fresh w \<longleftrightarrow> pdl_idle (device w)"

lemma process_pdl_header:
  assumes "mock_mode m = PdlMode" "\<not> exec_seen m" "0 < n" "n < 65536"
    and "in_buf m = pdl_header (word_of_nat n)"
  shows "process m = Ok m"
proof -
  have "unat (word_of_nat n :: u16) = n" using assms(4) by (intro unat_of_nat_u16) simp
  then show ?thesis using assms
    by (simp add: process.simps [of m] pdl_header_def to_le16_def PDL_HEADER_LEN_def)
qed

lemma process_pdl_message:
  assumes "mock_mode m = PdlMode" "\<not> exec_seen m" "length extra + 12 < 65536"
    and "in_buf m = pdl_header (word_of_nat (length (params c a b extra))) @ params c a b extra"
  shows "process m = Ok (if c = PdlExec then m\<lparr>in_buf := [], exec_seen := True\<rparr>
    else m\<lparr>in_buf := [], out_buf := out_buf m @ pdl_header 4 @ [0, 0, 0, 0]\<rparr>)"
proof -
  define n where "n = length (params c a b extra)"
  have "n = length extra + 12" by (simp add: n_def)
  with assms(3) have n: "unat (word_of_nat n :: u16) = n" "4 \<le> n"
    by (simp_all only: unat_of_nat_u16)
  define p where "p = params c a b extra"
  have p: "length p = n" "from_le32 (p ! 0) (p ! 1) (p ! 2) (p ! 3) = pdl_code c"
    by (simp_all add: p_def n_def params_def to_le32_def)
  have buf: "in_buf m = PDL_MAGIC # to_le16 (word_of_nat n) @ [0, 0, 0xFF, 0, 0] @ p"
    using assms(4) by (simp add: pdl_header_def n_def p_def)
  have len: "length (in_buf m) = 8 + n" by (simp add: buf p)
  have at: "in_buf m ! 0 = PDL_MAGIC" "in_buf m ! Suc 0 = ucast (word_of_nat n :: u16)"
    "in_buf m ! 2 = ucast (drop_bit 8 (word_of_nat n :: u16))"
    "in_buf m ! 8 = p ! 0" "in_buf m ! 9 = p ! 1" "in_buf m ! 10 = p ! 2" "in_buf m ! 11 = p ! 3"
    by (simp_all add: buf to_le16_def)
  have exec: "pdl_code c = pdl_code PdlExec \<longleftrightarrow> c = PdlExec" using pdl_code_inj by blast
  have fin: "process (m\<lparr>in_buf := [], exec_seen := True\<rparr>) = Ok (m\<lparr>in_buf := [], exec_seen := True\<rparr>)"
    "process (m\<lparr>in_buf := [], out_buf := x\<rparr>) = Ok (m\<lparr>in_buf := [], out_buf := x\<rparr>)" for x
    using assms(1,2) by (simp_all add: process.simps [of "m\<lparr>in_buf := [], exec_seen := True\<rparr>"]
        process.simps [of "m\<lparr>in_buf := [], out_buf := x\<rparr>"] PDL_HEADER_LEN_def)
  show ?thesis
    using assms(1,2) n(2) p(2)
    by (simp add: process.simps [of m] len at n(1) PDL_HEADER_LEN_def Let_def exec fin del: pdl_code.simps)
qed

lemma pdl_send_mock:
  assumes "pdl_idle (device w)" "length extra + 12 < 65536"
  shows "pdl_send mock_transport (params c a b extra) w = Some (Ok (),
    w\<lparr>device := (if c = PdlExec then (device w)\<lparr>exec_seen := True\<rparr>
      else (device w)\<lparr>out_buf := pdl_header 4 @ [0, 0, 0, 0]\<rparr>)\<rparr>)"
proof -
  define m where "m = device w"
  define p where "p = params c a b extra"
  define h where "h = pdl_header (word_of_nat (length p))"
  have m: "mock_mode m = PdlMode" "\<not> exec_seen m" "in_buf m = []" "out_buf m = []"
    using assms(1) by (simp_all add: m_def pdl_idle_def)
  have p1: "process (m\<lparr>in_buf := h\<rparr>) = (Ok (m\<lparr>in_buf := h\<rparr>) :: (mock, transport_error) result)"
    using m assms(2) by (intro process_pdl_header [of _ "length p"]) (simp_all add: p_def h_def)
  have p2: "process (m\<lparr>in_buf := h @ p\<rparr>) = (Ok (if c = PdlExec then m\<lparr>in_buf := [], exec_seen := True\<rparr>
      else m\<lparr>in_buf := [], out_buf := pdl_header 4 @ [0, 0, 0, 0]\<rparr>) :: (mock, transport_error) result)"
    using m assms(2)
    by (subst process_pdl_message [of _ extra c a b]) (simp_all add: h_def p_def)
  have "m\<lparr>in_buf := []\<rparr> = m" using m(3) by (rule in_buf_restore)
  then show ?thesis
    using m(3) p1 p2
    by (cases w) (simp add: pdl_send_def io_bind_def io_map_err_def p_def [symmetric] h_def [symmetric] m_def)
qed

text \<open>Every PDL command is answered with status 0, and leaves the device where it was.\<close>

definition tick :: "nat \<Rightarrow> mock_world \<Rightarrow> mock_world" where
  "tick n w = w\<lparr>clock := clock w + n\<rparr>"

lemma tick_simps [simp]:
  "device (tick n w) = device w" "clock (tick n w) = clock w + n" "tick a (tick b w) = tick (a + b) w"
  "tick 0 w = w"
  by (simp_all add: tick_def)

lemma pdl_ack: "try_parse_response (pdl_header 4 @ [0, 0, 0, 0]) = Some \<lparr>resp_status = 0, resp_payload = [0, 0, 0, 0]\<rparr>"
  by (simp add: try_parse_response_def pdl_header_def to_le16_def from_le16_def from_be16_def PDL_MAGIC_def
      PDL_HEADER_LEN_def from_le32_def from_be32_def)

lemma pdl_command_mock:
  assumes "pdl_idle (device w)" "length extra + 12 < 65536" "c \<noteq> PdlExec" "0 < timeout"
  shows "pdl_command mock_transport (params c a b extra) timeout w =
    Some (Ok \<lparr>resp_status = 0, resp_payload = [0, 0, 0, 0]\<rparr>, tick 1 w)"
proof -
  define w1 where "w1 = w\<lparr>device := (device w)\<lparr>out_buf := pdl_header 4 @ [0, 0, 0, 0]\<rparr>\<rparr>"
  have "pdl_send mock_transport (params c a b extra) w = Some (Ok (), w1)"
    using pdl_send_mock [OF assms(1,2)] assms(3) by (simp add: w1_def)
  moreover have "try_parse_response [] = None" by (simp add: try_parse_response_def)
  moreover have "w1\<lparr>device := (device w1)\<lparr>out_buf := []\<rparr>, clock := Suc (clock w1)\<rparr> = tick 1 w"
    using assms(1) by (cases w) (simp add: w1_def tick_def out_buf_restore pdl_idle_def)
  ultimately show ?thesis
    using assms(4) pdl_ack
    by (simp add: pdl_command_def io_bind_def io_map_err_def read_until_def w1_def
        read_until_loop.simps [of mock_transport try_parse_response] READ_BUF_def Let_def)
qed

lemma send_chunks_mock:
  assumes "pdl_idle (device w)" "0 < timeout" "\<forall>c \<in> set cs. length c \<le> 2048"
  shows "\<exists>n. send_chunks mock_transport timeout i cs w = Some (Ok (), tick n w)"
  using assms
proof (induction cs arbitrary: i w)
  case Nil
  show ?case by (intro exI [of _ 0]) simp
next
  case (Cons c cs)
  have "pdl_command mock_transport (params PdlMidstData (word_of_nat i) (word_of_nat (length c)) c) timeout w
      = Some (Ok \<lparr>resp_status = 0, resp_payload = [0, 0, 0, 0]\<rparr>, tick 1 w)"
    using Cons.prems by (intro pdl_command_mock) simp_all
  moreover obtain n where "send_chunks mock_transport timeout (i + 1) cs (tick 1 w) = Some (Ok (), tick n (tick 1 w))"
    using Cons.IH [of "tick 1 w" "i + 1"] Cons.prems by auto
  ultimately show ?case by (intro exI [of _ "n + 1"]) simp
qed

lemma send_image_mock:
  assumes "pdl_idle (device w)" "0 < timeout"
  shows "\<exists>n. send_image mock_transport timeout addr img w = Some (Ok (), tick n w)"
proof -
  have "\<forall>c \<in> set (chunks PDL_CHUNK img). length c \<le> 2048"
    using chunks_bounds [of _ PDL_CHUNK img] by (auto simp: PDL_CHUNK_def)
  with send_chunks_mock [of "tick 1 w" timeout "chunks PDL_CHUNK img" 0] assms obtain n where
    n: "send_chunks mock_transport timeout 0 (chunks PDL_CHUNK img) (tick 1 w) = Some (Ok (), tick n (tick 1 w))"
    by auto
  have "pdl_command mock_transport (params PdlStartData addr (word_of_nat (length img)) PDL1_TAG) timeout w
      = Some (Ok \<lparr>resp_status = 0, resp_payload = [0, 0, 0, 0]\<rparr>, tick 1 w)"
    using assms by (intro pdl_command_mock) (simp_all add: PDL1_TAG_def)
  moreover have "pdl_command mock_transport (params PdlEndData 0 0 (to_le32 0)) timeout (tick n (tick 1 w))
      = Some (Ok \<lparr>resp_status = 0, resp_payload = [0, 0, 0, 0]\<rparr>, tick 1 (tick n (tick 1 w)))"
    using assms by (intro pdl_command_mock) simp_all
  ultimately show ?thesis using n by (intro exI [of _ "n + 2"]) (simp add: send_image_def)
qed

definition mock_banner :: rust_string where
  "mock_banner = trim (from_utf8_lossy VER_BANNER)"

lemma exec_mock:
  assumes "pdl_idle (device w)" "0 < timeout"
  shows "exec_and_get_ver mock_transport timeout w = Some (Ok (frame Sprd REP_VER VER_BANNER),
    tick 1 (w\<lparr>device := (device w)\<lparr>exec_seen := True, mock_mode := BslMode\<rparr>\<rparr>))"
proof -
  define m where "m = (device w)\<lparr>exec_seen := True\<rparr>"
  define w1 where "w1 = w\<lparr>device := m\<rparr>"
  define f where "f = frame Sprd REP_VER VER_BANNER"
  have m: "mock_mode m = PdlMode" "exec_seen m" "in_buf m = []" "out_buf m = []"
    using assms(1) by (simp_all add: m_def pdl_idle_def)
  have short: "length VER_BANNER = 34" by (simp add: VER_BANNER_def)
  then have len: "length f \<le> VER_BUF" "f \<noteq> []"
    using frame_length [of Sprd REP_VER VER_BANNER] by (simp_all add: f_def VER_BUF_def frame_def)
  have built: "build_message REP_VER VER_BANNER Sprd = (Ok f :: (u8 list, transport_error) result)"
    using short by (simp add: build_message_frame f_def)
  have send: "pdl_send mock_transport (params PdlExec 0 0 []) w = Some (Ok (), w1)"
    using pdl_send_mock [OF assms(1), of "[]" PdlExec 0 0] by (simp add: w1_def m_def)
  have "m\<lparr>in_buf := [], out_buf := f, mock_mode := BslMode\<rparr> = m\<lparr>out_buf := f, mock_mode := BslMode\<rparr>"
    using m(3) by (cases m) simp
  then have kick: "process (m\<lparr>in_buf := [0x7E]\<rparr>) =
      (Ok (m\<lparr>out_buf := f, mock_mode := BslMode\<rparr>) :: (mock, transport_error) result)"
    using m built
    by (simp add: process.simps [of "m\<lparr>in_buf := [0x7E]\<rparr>"] FLAG_def process_idle)
  have "0x7E \<notin> set (escape b)" for b using escape_no_flag [of b] by (simp add: FLAG_def)
  from extract_flag_frame_message [of "[]", OF _ this, where rest = "[]"]
  have frame1: "extract_flag_frame f = Some f" by (simp add: f_def frame_def FLAG_def)
  have m': "m\<lparr>mock_mode := BslMode, out_buf := []\<rparr> = m\<lparr>mock_mode := BslMode\<rparr>" "0 < VER_BUF"
    using m(4) by (cases m, simp) (simp add: VER_BUF_def)
  have "ver_loop mock_transport (clock w1 + timeout) (clock w1) [] w1 =
      Some (Ok f, w1\<lparr>device := m\<lparr>mock_mode := BslMode\<rparr>, clock := Suc (clock w1)\<rparr>)"
    using assms(2) m(3) kick len frame1 m'
    by (simp add: w1_def
        ver_loop.simps [of mock_transport "clock w + timeout" "clock w" "[]" "w\<lparr>device := m\<rparr>"])
  then show ?thesis
    using send by (simp add: exec_and_get_ver_def f_def w1_def m_def tick_def)
qed

lemma ver_banner_mock: "ver_banner (frame Sprd REP_VER VER_BANNER) = Ok mock_banner"
  by (simp add: ver_banner_def frame_def parse_message_body mock_banner_def VER_BANNER_def
      del: unescape.simps)

lemma load_fdl1_mock:
  assumes "mock_fresh w" "0 < opt_timeout opts" "0 < opt_exec_timeout opts"
  shows "\<exists>n. load_fdl1 mock_transport opts addr img w = Some (Ok mock_banner,
    tick n (w\<lparr>device := (device w)\<lparr>exec_seen := True, mock_mode := BslMode\<rparr>\<rparr>))"
proof -
  have idle: "pdl_idle (device w)" using assms(1) by (simp add: mock_fresh_def)
  have "pdl_connect mock_transport (opt_timeout opts) w = Some (Ok (), tick 1 w)"
    using pdl_command_mock [OF idle, of "[]" PdlConnect "opt_timeout opts" 0 0] assms(2) by (simp add: pdl_connect_def)
  moreover obtain n where "send_image mock_transport (opt_timeout opts) addr img (tick 1 w) = Some (Ok (), tick n (tick 1 w))"
    using send_image_mock [of "tick 1 w" "opt_timeout opts" addr img] idle assms(2)
    by (metis tick_simps(1))
  moreover have "exec_and_get_ver mock_transport (opt_exec_timeout opts) (tick n (tick 1 w)) =
      Some (Ok (frame Sprd REP_VER VER_BANNER),
        tick (n + 2) (w\<lparr>device := (device w)\<lparr>exec_seen := True, mock_mode := BslMode\<rparr>\<rparr>))"
    using exec_mock [of "tick n (tick 1 w)" "opt_exec_timeout opts"] idle assms(3) by (simp add: tick_def)
  ultimately show ?thesis
    by (intro exI [of _ "n + 2"]) (simp add: load_fdl1_def io_bind_def io_map_err_def ver_banner_mock)
qed

interpretation mock_boot: boot_device mock_transport mock_ready device mock_step
  mock_cur mock_mem mock_view mock_losses mock_intact mock_fresh mock_banner
proof unfold_locales
  fix w :: mock_world and opts :: flash_options and addr img
  assume a: "mock_fresh w" "0 < opt_timeout opts" "0 < opt_exec_timeout opts"
  define m where "m = (device w)\<lparr>exec_seen := True, mock_mode := BslMode\<rparr>"
  have "clean m" "mock_mem m = mock_mem (device w)" "mock_losses m = mock_losses (device w)"
    "mock_intact m = mock_intact (device w)"
    using a(1)
    by (simp_all add: m_def mock_fresh_def pdl_idle_def clean_def mock_mem_def mock_losses_def mock_intact_def)
  with load_fdl1_mock [OF a, of addr img]
  show "\<exists>w'. load_fdl1 mock_transport opts addr img w = Some (Ok mock_banner, w') \<and> mock_ready w' \<and>
      mock_mem (device w') = mock_mem (device w) \<and> mock_losses (device w') = mock_losses (device w) \<and>
      (mock_intact (device w) \<longrightarrow> mock_intact (device w'))"
    by (auto simp: m_def mock_ready_def)
qed

end
