(* ===== verification/Mock_Flash.thy ===== *)
theory Mock_Flash
  imports Mock_Device
begin

text \<open>
  The driver against the mock device, end to end: what a flash run, a retried write, a read-back
  check and a dump do to the device and return, on the transport of \<open>mock.rs\<close>. The contracts of
  \<open>Device\<close> carry the proofs through their interpretations in \<open>Mock_Device\<close>.
\<close>

section \<open>Concrete worlds\<close>

definition demo_pac :: "u8 list" where
  "demo_pac = replicate 131072 7"

definition world :: "mock \<Rightarrow> mock_world" where
  "world m = \<lparr>device = m, clock = 0\<rparr>"

definition in_command_loop :: "mock \<Rightarrow> mock" where
  "in_command_loop m = m\<lparr>exec_seen := True, mock_mode := BslMode\<rparr>"

lemmas world_simps = world_def in_command_loop_def mock_default_def dropping_bsl_acks_def corrupting_readback_def

lemma world_fresh [simp]:
  "mock_fresh (world mock_default)" "mock_fresh (world (dropping_bsl_acks xs))"
  by (simp_all add: mock_fresh_def pdl_idle_def world_simps)

lemma demo_plan:
  obtains plan where "build v4035_markers = Ok plan" "payloads_present v4035_markers demo_pac"
    "partitions plan = [marker_entry ''AP'' 0x60010000 100]" "fdl2 plan = None"
proof -
  from v4035_partitions obtain plan where p: "build v4035_markers = Ok plan" by (auto simp: build_def)
  moreover have "payloads_present v4035_markers demo_pac"
    by (simp add: payloads_present_def payload_eq v4035_markers_def marker_entry_def demo_pac_def)
  moreover have "find (\<lambda>e. classify e = Fdl2) (entries v4035_markers) = None"
    by (simp add: marker_eval Let_def)
  ultimately show ?thesis using that build_Ok [OF p] v4035_partitions by simp
qed

section \<open>Properties\<close>

text \<open>C1: on a device in its boot ROM that may lose any set of acknowledgements and may
  corrupt what it reads back, a run of the plan returns without a panic; if it reports success, it
  read the device's version banner, the memory is exactly the one before with FDL2, each
  partition and (with \<open>--format\<close>) each marker stored in order at its address, the NV marker with
  its refreshed CRC, and the byte count is that of what was written.\<close>

theorem run_writes_the_plan:
  assumes "mock_fresh w" "0 < opt_timeout opts" "0 < opt_exec_timeout opts" "opt_chunk opts \<le> 65535"
    and "build info = Ok plan" "payloads_present info pac"
  shows "\<exists>res w'. run mock_transport opts info pac w = Some (res, w') \<and> res \<noteq> Panic \<and>
    (\<forall>out. res = Ok out \<longrightarrow>
       out_version out = mock_banner \<and> out_bytes_written out = run_bytes opts pac plan \<and>
       map_of (flash (device w')) = run_memory opts pac plan (map_of (flash (device w))))"
proof -
  have "mock_flash.effect (run mock_transport opts info pac w) w
    (\<lambda>out m. out_version out = mock_banner \<and> out_bytes_written out = run_bytes opts pac plan \<and>
       m = run_memory opts pac plan (mock_mem (device w))) False"
    using assms by (intro mock_boot.effect_run) (simp_all add: MAX_MESSAGE_def)
  then show ?thesis unfolding mock_flash.effect_def mock_mem_def by blast
qed

theorem run_writes_the_plan_witness:
  "\<exists>res w' plan. run mock_transport default_options v4035_markers demo_pac (world (dropping_bsl_acks [2])) = Some (res, w') \<and>
     res \<noteq> Panic \<and>
     (\<forall>out. res = Ok out \<longrightarrow> map_of (flash (device w')) = run_memory default_options demo_pac plan Map.empty)"
proof -
  obtain plan where p: "build v4035_markers = Ok plan" "payloads_present v4035_markers demo_pac"
    by (rule demo_plan)
  have empty: "flash (device (world (dropping_bsl_acks [2]))) = []" by (simp add: world_simps)
  from run_writes_the_plan [OF world_fresh(2) _ _ _ p, of default_options "[2]"] show ?thesis
    unfolding empty by (simp add: default_options_def) blast
qed

text \<open>C2: on a device that answers every message and reads back what it holds, a run with an
  acceptable chunk size succeeds, with the outcome of the previous property; with
  \<open>--verify-readback\<close> it does so if the partitions, as they are written, do not overlap.\<close>

theorem healthy_device_is_flashed:
  assumes "mock_fresh w" "0 < opt_timeout opts" "0 < opt_exec_timeout opts" "opt_chunk opts \<le> 65535"
    and "build info = Ok plan" "payloads_present info pac"
    and "drop_acks (device w) = []" "\<not> corrupt_readback (device w)" "distinct (map fst (flash (device w)))"
    and "opt_verify_readback opts \<longrightarrow>
      disjoint_throughout pac (partitions plan) (with_fdl2 pac plan (map_of (flash (device w))))"
  shows "\<exists>out w'. run mock_transport opts info pac w = Some (Ok out, w') \<and>
    out_version out = mock_banner \<and> out_bytes_written out = run_bytes opts pac plan \<and>
    map_of (flash (device w')) = run_memory opts pac plan (map_of (flash (device w)))"
proof -
  have "mock_flash.effect (run mock_transport opts info pac w) w
    (\<lambda>out m. out_version out = mock_banner \<and> out_bytes_written out = run_bytes opts pac plan \<and>
       m = run_memory opts pac plan (mock_mem (device w))) True"
    using assms by (intro mock_boot.effect_run) (simp_all add: MAX_MESSAGE_def mock_mem_def)
  moreover have "mock_flash.healthy (device w)"
    using assms(7-9) by (simp add: mock_flash.healthy_def mock_losses_def mock_intact_def)
  ultimately show ?thesis unfolding mock_flash.effect_def mock_mem_def by blast
qed

lemma disjoint_mem_single: "unat a + length d \<le> 4294967296 \<Longrightarrow> disjoint_mem [a \<mapsto> d]"
  by (simp add: disjoint_mem_def)

theorem healthy_device_is_flashed_witness:
  "\<exists>out w' plan. run mock_transport (default_options\<lparr>opt_verify_readback := True\<rparr>) v4035_markers demo_pac
      (world mock_default) = Some (Ok out, w') \<and>
     map_of (flash (device w')) =
       run_memory (default_options\<lparr>opt_verify_readback := True\<rparr>) demo_pac plan Map.empty"
proof -
  obtain plan where p: "build v4035_markers = Ok plan" "payloads_present v4035_markers demo_pac"
    "partitions plan = [marker_entry ''AP'' 0x60010000 100]" "fdl2 plan = None"
    by (rule demo_plan)
  have "length (payload_of demo_pac (marker_entry ''AP'' 0x60010000 100)) = 100"
    by (simp add: payload_of_def payload_eq marker_entry_def demo_pac_def)
  then have "disjoint_throughout demo_pac (partitions plan) (with_fdl2 demo_pac plan Map.empty)"
    unfolding disjoint_throughout_def p(3) with_fdl2_def p(4)
    by (auto intro!: disjoint_mem_single) (simp add: marker_entry_def)
  with healthy_device_is_flashed [OF world_fresh(1) _ _ _ p(1,2), of "default_options\<lparr>opt_verify_readback := True\<rparr>"]
  show ?thesis by (simp add: default_options_def world_simps) blast
qed

text \<open>C5: in a session, when at most one acknowledgement is still to be lost and the chunk is
  above the 512-byte floor, the adaptive write of an image succeeds and leaves exactly that image
  at its address.\<close>

theorem lost_ack_is_survived:
  assumes "mock_ready w" "session io" "512 < opt_chunk opts" "opt_chunk opts \<le> 65535"
    and "card {i \<in> set (drop_acks (device w)). bsl_frames (device w) < i} \<le> 1"
  shows "\<exists>w'. send_stage_adaptive mock_transport opts io addr data w = Some (Ok (), w') \<and> mock_ready w' \<and>
    map_of (flash (device w')) = (map_of (flash (device w)))(addr \<mapsto> data)"
proof -
  have "opt_chunk opts \<le> MAX_MESSAGE" using assms(4) by (simp add: MAX_MESSAGE_def)
  from mock_flash.stage_adaptive_outcome [OF assms(1,2) this, of addr data] assms(3,5) show ?thesis
    unfolding mock_losses_def [symmetric]
    by (auto simp: mock_flash.writes_to_def mock_mem_def MIN_ADAPTIVE_CHUNK_def)
qed

theorem lost_ack_is_survived_witness:
  "\<exists>w'. send_stage_adaptive mock_transport default_options (bsl_io_new 5000) 0x60010000 demo_pac
      (world (in_command_loop (dropping_bsl_acks [2]))) = Some (Ok (), w') \<and>
    map_of (flash (device w')) = [0x60010000 \<mapsto> demo_pac]"
proof -
  define w where "w = world (in_command_loop (dropping_bsl_acks [2]))"
  have "mock_ready w" by (simp add: w_def mock_ready_def clean_def world_simps)
  moreover have "session (bsl_io_new 5000)" by (simp add: session_def bsl_io_new_def)
  moreover have "512 < opt_chunk default_options" "opt_chunk default_options \<le> 65535"
    by (simp_all add: default_options_def)
  moreover have "{i \<in> set (drop_acks (device w)). bsl_frames (device w) < i} = {2}"
    by (auto simp: w_def world_simps)
  then have "card {i \<in> set (drop_acks (device w)). bsl_frames (device w) < i} \<le> 1" by simp
  ultimately have "\<exists>w'. send_stage_adaptive mock_transport default_options (bsl_io_new 5000) 0x60010000 demo_pac w
      = Some (Ok (), w') \<and> mock_ready w' \<and>
      map_of (flash (device w')) = (map_of (flash (device w)))(0x60010000 \<mapsto> demo_pac)"
    by (rule lost_ack_is_survived)
  then obtain w' where "send_stage_adaptive mock_transport default_options (bsl_io_new 5000) 0x60010000 demo_pac w
      = Some (Ok (), w')" "map_of (flash (device w')) = (map_of (flash (device w)))(0x60010000 \<mapsto> demo_pac)"
    by blast
  moreover have "map_of (flash (device w)) = Map.empty" by (simp add: w_def world_simps)
  ultimately show ?thesis unfolding w_def by (intro exI [of _ w'] conjI) simp_all
qed

text \<open>A block of the memory, in one that does not overlap.\<close>

definition holds_block :: "mock \<Rightarrow> u32 \<Rightarrow> u8 list \<Rightarrow> bool" where
  "holds_block m addr data \<longleftrightarrow>
     distinct (map fst (flash m)) \<and> disjoint_mem (map_of (flash m)) \<and> map_of (flash m) addr = Some data"

lemma corrupt_view:
  assumes "holds_block m addr data" "corrupt_readback m" "0 < n" "data \<noteq> []"
  shows "\<exists>bs. mock_view m addr n = Some bs \<and> \<not> prefix bs data"
proof -
  have r: "region_at (flash m) (addr + word_of_nat 0) = Some (addr, data)"
    using assms(1,4) by (intro region_at_disjoint) (simp_all add: holds_block_def)
  obtain x xs where data: "data = x # xs" using assms(4) by (cases data) auto
  obtain k where k: "min n (length data) = Suc k" using assms(3) data by (cases "min n (length data)") auto
  have "x \<noteq> x XOR 0xFF"
  proof
    assume "x = x XOR 0xFF"
    then have "x XOR x = x XOR (x XOR 0xFF)" by simp
    then show False by (simp add: xor.assoc [symmetric])
  qed
  moreover have "mock_view m addr n = Some ((take (min n (length data)) data)[0 := x XOR 0xFF])"
    using r assms(2,3) k by (simp add: mock_view_def read_back_def get_range_def data Let_def)
  ultimately show ?thesis using k by (simp add: data)
qed

text \<open>C21: after a write, when no acknowledgement is lost and the block at the entry's
  address is the payload, the read-back check passes on a device that reads back what it holds,
  and never passes on one that corrupts its replies.\<close>

theorem verify_detects_corruption:
  assumes "mock_ready w" "session io" "drop_acks (device w) = []"
    and "holds_block (device w) (entry_address e) data" "data \<noteq> []"
  shows "\<exists>res w'. verify_partition mock_transport io e data w = Some (res, w') \<and> res \<noteq> Panic \<and>
    (res = Ok () \<longleftrightarrow> \<not> corrupt_readback (device w))"
proof -
  obtain res w' where v: "verify_partition mock_transport io e data w = Some (res, w')" "res \<noteq> Panic"
    and bad: "\<And>bs. 0 < length data \<Longrightarrow> mock_view (device w) (entry_address e) (min (length data) READBACK_CHUNK) = Some bs \<Longrightarrow>
      \<not> prefix bs data \<Longrightarrow> res \<noteq> Ok ()"
    and good: "mock_flash.serves (device w) (entry_address e) data \<Longrightarrow> mock_flash.healthy (device w) \<Longrightarrow> res = Ok ()"
    by (rule mock_flash.verify_outcome [OF assms(1,2), of e data]) blast
  show ?thesis
  proof (cases "corrupt_readback (device w)")
    case True
    from corrupt_view [OF assms(4) True _ assms(5), of "min (length data) READBACK_CHUNK"] bad assms(5)
    have "res \<noteq> Ok ()" by (auto simp: READBACK_CHUNK_def)
    with v True show ?thesis by blast
  next
    case False
    with assms(3,4) have h: "mock_flash.healthy (device w)" "mock_intact (device w)"
      by (simp_all add: mock_flash.healthy_def mock_losses_def mock_intact_def holds_block_def)
    have "mock_flash.serves (device w) (entry_address e) data"
      using assms(4) by (intro mock_flash.held_is_served h(2) holds_at_block) (simp_all add: holds_block_def mock_mem_def)
    with good h v False show ?thesis by blast
  qed
qed

theorem verify_detects_corruption_witness:
  "\<exists>res w'. verify_partition mock_transport (bsl_io_new 5000) (marker_entry ''AP'' 0x60010000 100) [1, 2, 3]
      (world (in_command_loop (corrupting_readback\<lparr>flash := [(0x60010000, [1, 2, 3])]\<rparr>))) = Some (res, w') \<and>
    res \<noteq> Panic \<and> res \<noteq> Ok ()"
proof -
  let ?w = "world (in_command_loop (corrupting_readback\<lparr>flash := [(0x60010000, [1, 2, 3])]\<rparr>))"
  have "mock_ready ?w" "drop_acks (device ?w) = []" "corrupt_readback (device ?w)"
    by (simp_all add: mock_ready_def clean_def world_simps)
  moreover have "session (bsl_io_new 5000)" by (simp add: session_def bsl_io_new_def)
  moreover have "holds_block (device ?w) 0x60010000 [1, 2, 3]"
    using disjoint_mem_single [of "0x60010000" "[1, 2, 3]"] by (simp add: holds_block_def world_simps)
  moreover have "entry_address (marker_entry ''AP'' 0x60010000 100) = 0x60010000"
    by (simp add: marker_entry_def)
  ultimately show ?thesis
    using verify_detects_corruption [of ?w "bsl_io_new 5000" "marker_entry ''AP'' 0x60010000 100" "[1, 2, 3]"] by auto
qed

text \<open>C23: on a device that reads back what it holds, but may lose acknowledgements, a dump
  of regions that lie within its blocks returns without a panic; what it returns is the content of
  those regions, nothing is written but FDL2, and if no acknowledgement is lost it succeeds.\<close>

theorem dump_returns_what_is_held:
  assumes "mock_fresh w" "0 < opt_timeout opts" "0 < opt_exec_timeout opts"
    and "build info = Ok plan" "payloads_present info pac"
    and "\<not> corrupt_readback (device w)" "distinct (map fst (flash (device w)))"
    and "disjoint_mem (with_fdl2 pac plan (map_of (flash (device w))))"
    and "list_all2 (\<lambda>(addr, len) d. length d = unat len \<and>
      holds_at (with_fdl2 pac plan (map_of (flash (device w)))) addr d) regions images"
  shows "\<exists>res w'. dump mock_transport opts info pac regions w = Some (res, w') \<and> res \<noteq> Panic \<and>
    (\<forall>ds. res = Ok ds \<longrightarrow> ds = images \<and>
       map_of (flash (device w')) = with_fdl2 pac plan (map_of (flash (device w)))) \<and>
    (drop_acks (device w) = [] \<longrightarrow> res = Ok images)"
proof -
  have intact: "mock_intact (device w)" using assms(6,7) by (simp add: mock_intact_def)
  have "mock_flash.effect (dump mock_transport opts info pac regions w) w
    (\<lambda>ds m. ds = images \<and> m = with_fdl2 pac plan (mock_mem (device w))) True"
    using assms intact by (intro mock_boot.effect_dump) (simp_all add: mock_mem_def)
  then obtain res w' where r: "dump mock_transport opts info pac regions w = Some (res, w')" "res \<noteq> Panic"
    and ok: "\<And>ds. res = Ok ds \<Longrightarrow> ds = images \<and> mock_mem (device w') = with_fdl2 pac plan (mock_mem (device w))"
    and live: "mock_flash.healthy (device w) \<Longrightarrow> \<exists>ds. res = Ok ds"
    unfolding mock_flash.effect_def by blast
  have "res = Ok images" if "drop_acks (device w) = []"
    using live ok that intact by (auto simp: mock_flash.healthy_def mock_losses_def)
  with r ok show ?thesis unfolding mock_mem_def by blast
qed

theorem dump_returns_what_is_held_witness:
  "\<exists>w'. dump mock_transport default_options v4035_markers demo_pac [(0x60010001, 2)]
      (world (seeded [(0x60010000, [1, 2, 3])])) = Some (Ok [[2, 3]], w')"
proof -
  let ?w = "world (seeded [(0x60010000, [1, 2, 3])])"
  obtain plan where p: "build v4035_markers = Ok plan" "payloads_present v4035_markers demo_pac" "fdl2 plan = None"
    by (rule demo_plan)
  have w: "mock_fresh ?w" "\<not> corrupt_readback (device ?w)" "drop_acks (device ?w) = []"
    "flash (device ?w) = [(0x60010000, [1, 2, 3])]"
    by (simp_all add: mock_fresh_def pdl_idle_def world_simps seeded_def)
  have m: "with_fdl2 demo_pac plan (map_of (flash (device ?w))) = [0x60010000 \<mapsto> [1, 2, 3]]"
    by (simp add: with_fdl2_def p(3) w(4))
  have "holds_at [0x60010000 \<mapsto> [1, 2, 3]] 0x60010001 [2, 3]"
    unfolding holds_at_def
    by (intro exI [of _ "0x60010000"] exI [of _ "[1, 2, 3]"] exI [of _ 1]) simp
  moreover have "disjoint_mem [0x60010000 \<mapsto> [1, 2, 3]]" by (rule disjoint_mem_single) simp
  moreover have "distinct (map fst (flash (device ?w)))" by (simp add: w(4))
  moreover have "0 < opt_timeout default_options" "0 < opt_exec_timeout default_options"
    by (simp_all add: default_options_def)
  ultimately show ?thesis
    using dump_returns_what_is_held [OF w(1) _ _ p(1,2) w(2), of default_options "[(0x60010001, 2)]" "[[2, 3]]"]
      m w(3) by auto
qed


text \<open>C22: \<open>dump_full\<close> on a device with a flash image of whole 64 KiB blocks, nothing else in
  the 128 MiB from its base, and reads that return what it holds: it returns without a panic, a
  successful result is the image up to 128 MiB with its size, and with no lost acknowledgement it
  succeeds. So an image of up to 128 MiB is returned whole, and a larger one is cut.\<close>

theorem full_dump_returns_the_image:
  assumes "mock_fresh w" "0 < opt_timeout opts" "0 < opt_exec_timeout opts"
    and "build info = Ok plan" "payloads_present info pac"
    and "\<not> corrupt_readback (device w)" "distinct (map fst (flash (device w)))"
    and "nor_image (with_fdl2 pac plan (map_of (flash (device w)))) base block"
    and "block \<noteq> []" "65536 dvd length block"
  shows "\<exists>res w'. dump_full mock_transport opts info pac base w = Some (res, w') \<and> res \<noteq> Panic \<and>
    (\<forall>img sz. res = Ok (img, sz) \<longrightarrow>
       img = take 134217728 block \<and> unat sz = min (length block) 134217728) \<and>
    (drop_acks (device w) = [] \<longrightarrow> (\<exists>x. res = Ok x))"
proof -
  have intact: "mock_intact (device w)" using assms(6,7) by (simp add: mock_intact_def)
  have "mock_flash.effect (dump_full mock_transport opts info pac base w) w
    (\<lambda>(img, sz) m. img = take 134217728 block \<and> unat sz = min (length block) 134217728 \<and>
       m = with_fdl2 pac plan (mock_mem (device w))) True"
    using assms intact by (intro mock_boot.effect_dump_full) (simp_all add: mock_mem_def)
  then obtain res w' where r: "dump_full mock_transport opts info pac base w = Some (res, w')" "res \<noteq> Panic"
    and ok: "\<And>x. res = Ok x \<Longrightarrow> (case x of (img, sz) \<Rightarrow>
      img = take 134217728 block \<and> unat sz = min (length block) 134217728 \<and>
       mock_mem (device w') = with_fdl2 pac plan (mock_mem (device w)))"
    and live: "mock_flash.healthy (device w) \<Longrightarrow> \<exists>x. res = Ok x"
    unfolding mock_flash.effect_def by blast
  have "\<exists>x. res = Ok x" if "drop_acks (device w) = []"
    using live that intact by (auto simp: mock_flash.healthy_def mock_losses_def)
  with r ok show ?thesis by fastforce
qed

theorem full_dump_returns_the_image_witness:
  "\<exists>sz w'. dump_full mock_transport default_options v4035_markers demo_pac 0x60000000
      (world (seeded [(0x60000000, demo_pac)])) = Some (Ok (demo_pac, sz), w') \<and> unat sz = 131072"
proof -
  let ?w = "world (seeded [(0x60000000, demo_pac)])"
  obtain plan where p: "build v4035_markers = Ok plan" "payloads_present v4035_markers demo_pac" "fdl2 plan = None"
    by (rule demo_plan)
  have w: "mock_fresh ?w" "\<not> corrupt_readback (device ?w)" "drop_acks (device ?w) = []"
    "flash (device ?w) = [(0x60000000, demo_pac)]"
    by (simp_all add: mock_fresh_def pdl_idle_def world_simps seeded_def)
  have len: "length demo_pac = 131072" by (simp add: demo_pac_def)
  then have "disjoint_mem [0x60000000 \<mapsto> demo_pac]" by (intro disjoint_mem_single) simp
  then have img: "nor_image (with_fdl2 demo_pac plan (map_of (flash (device ?w)))) 0x60000000 demo_pac"
    by (simp add: nor_image_def with_fdl2_def p(3) w(4))
  have d: "distinct (map fst (flash (device ?w)))" "demo_pac \<noteq> []" "65536 dvd length demo_pac"
    using len by (auto simp: w(4))
  have t: "0 < opt_timeout default_options" "0 < opt_exec_timeout default_options"
    by (simp_all add: default_options_def)
  from full_dump_returns_the_image [OF w(1) t p(1,2) w(2) d(1) img d(2,3)] w(3) len show ?thesis by force
qed

text \<open>C33: on any transport and device, whatever they answer, a size that the search reports
  is a positive multiple of 64 KiB and at most 128 MiB.\<close>

theorem discovered_size_bounds:
  assumes "discover_flash_size T io base timeout w = Some (Ok sz, w')"
  shows "65536 dvd unat sz \<and> 0 < unat sz \<and> unat sz \<le> 134217728"
  using assms by (rule discover_bounded)

theorem discovered_size_bounds_witness:
  "\<exists>sz w'. discover_flash_size mock_transport (bsl_io_new 5000) 0x60000000 5000
      (world (in_command_loop (seeded [(0x60000000, demo_pac)]))) = Some (Ok sz, w') \<and>
    65536 dvd unat sz \<and> 0 < unat sz \<and> unat sz \<le> 134217728"
proof -
  let ?w = "world (in_command_loop (seeded [(0x60000000, demo_pac)]))"
  have w: "mock_ready ?w" "session (bsl_io_new 5000)" "mock_intact (device ?w)" "mock_flash.healthy (device ?w)"
    by (simp_all add: mock_ready_def clean_def world_simps seeded_def session_def bsl_io_new_def
        mock_intact_def mock_flash.healthy_def mock_losses_def)
  have len: "length demo_pac = 131072" by (simp add: demo_pac_def)
  then have "disjoint_mem [0x60000000 \<mapsto> demo_pac]" by (intro disjoint_mem_single) simp
  then have img: "nor_image (mock_mem (device ?w)) 0x60000000 demo_pac"
    by (simp add: nor_image_def mock_mem_def world_simps seeded_def)
  have ne: "demo_pac \<noteq> []" using len by auto
  have "mock_flash.effect (discover_flash_size mock_transport (bsl_io_new 5000) 0x60000000 5000 ?w) ?w
      (\<lambda>sz m. unat sz = found_size (length demo_pac) \<and> m = mock_mem (device ?w)) True"
    using w(1,2) _ w(3) img ne by (rule mock_flash.effect_discover) simp
  then obtain sz w' where
    d: "discover_flash_size mock_transport (bsl_io_new 5000) 0x60000000 5000 ?w = Some (Ok sz, w')"
    using w(4) unfolding mock_flash.effect_def by blast
  with discovered_size_bounds [OF d] show ?thesis by blast
qed

text \<open>C10: on every wire whose calls return and whose reads let time pass or use up a finite number
  of bytes, every session of the driver returns: the flash run, the dump of regions, the full dump
  with its size search, and the command probe.\<close>

theorem sessions_return:
  assumes "live_transport T live pending" "live w"
  shows "(\<exists>r w'. run T opts info pac w = Some (r, w')) \<and>
    (\<exists>r w'. dump T opts info pac regions w = Some (r, w')) \<and>
    (\<exists>r w'. dump_full T opts info pac base w = Some (r, w')) \<and>
    (\<exists>r w'. probe_commands T opts info pac cmds w = Some (r, w'))"
  using live_transport.total_run [OF assms(1)] live_transport.total_dump [OF assms(1)]
    live_transport.total_dump_full [OF assms(1)] live_transport.total_probe_commands [OF assms(1)] assms(2)
  by (meson io_totalD)

theorem sessions_return_witness:
  "\<exists>r w'. run mock_transport default_options v4035_markers demo_pac (world (dropping_bsl_acks [1, 2, 3])) = Some (r, w')"
  using sessions_return [OF mock_live.live_transport_axioms] by simp

end
