(* ===== verification/Station_Units.thy ===== *)
theory Station_Units
  imports Station Mock_Flash
begin

text \<open>
  What a station makes of a unit: the record of \<open>run_unit\<close> against a specification by its failed
  attempts, what a pass vouches for, the retry counter's limit, the waits between units, a
  station over the mock device, and one whose units boot and answer on an AT port.
\<close>

lemma recover_no_error: "recover B st w \<noteq> Some (Err (e :: unit), w')"
  by (auto simp: recover_def io_query_def io_ignore_def io_bind_def split: option.splits prod.splits result.splits)

section \<open>A specification of the retries\<close>

text \<open>\<open>failed_tries k\<close>: the errors of the first \<open>k\<close> attempts, all failed and each followed by a
  recovery, and the world they leave.\<close>

fun failed_tries ::
    "'w bench \<Rightarrow> station_config \<Rightarrow> unit_job \<Rightarrow> nat \<Rightarrow> 'w \<Rightarrow> (unit_error list \<times> 'w) option"
where
  "failed_tries B st job 0 w = Some ([], w)"
| "failed_tries B st job (Suc k) w =
     (case failed_tries B st job k w of
        None \<Rightarrow> None
      | Some (es, v) \<Rightarrow>
          (case try_once B st job v of
             Some (Err e, v1) \<Rightarrow>
               (case (recover B st v1 :: ((unit, unit) result \<times> 'w) option) of
                  Some (Ok _, v2) \<Rightarrow> Some (es @ [e], v2)
                | _ \<Rightarrow> None)
           | _ \<Rightarrow> None))"

definition unit_outcome ::
    "'w bench \<Rightarrow> station_config \<Rightarrow> unit_job \<Rightarrow> 'w \<Rightarrow> unit_record \<Rightarrow> 'w \<Rightarrow> nat \<Rightarrow> bool"
where
  "unit_outcome B st job w rec w' k \<longleftrightarrow>
     k \<le> unat (job_retries job) \<and>
     (\<exists>es v. failed_tries B st job k w = Some (es, v) \<and>
        ((\<exists>s port. try_once B st job v = Some (Ok (s, port), w') \<and>
            rec = pass_record st job (now_ms B w) (os_now B w' - os_now B w) (word_of_nat (k + 1)) s port) \<or>
         (\<exists>e. k = unat (job_retries job) \<and> try_once B st job v = Some (Err e, w') \<and>
            rec = fail_record st job (now_ms B w) (os_now B w' - os_now B w) (word_of_nat (k + 1)) (Some e))))"

text \<open>One round of the loop, with the counter as a number.\<close>

lemma attempt_loop_step:
  assumes "k \<le> unat (job_retries job)" "job_retries job \<noteq> 0xFFFFFFFF \<or> k < unat (job_retries job)"
  shows "attempt_loop B st job ts started (word_of_nat k) err v =
    (case try_once B st job v of
       None \<Rightarrow> None
     | Some (Panic, v1) \<Rightarrow> Some (Panic, v1)
     | Some (Ok (s, port), v1) \<Rightarrow>
         Some (Ok (pass_record st job ts (os_now B v1 - started) (word_of_nat (k + 1)) s port), v1)
     | Some (Err e, v1) \<Rightarrow>
         (if k < unat (job_retries job)
          then io_bind (recover B st) (\<lambda>_. attempt_loop B st job ts started (word_of_nat (k + 1)) (Some e)) v1
          else Some (Ok (fail_record st job ts (os_now B v1 - started) (word_of_nat (k + 1)) (Some e)), v1)))"
proof -
  have lim: "unat (job_retries job) < 4294967296" by (rule unat_u32_less)
  have uk: "unat (word_of_nat k :: u32) = k" using assms(1) lim by (intro unat_of_nat_u32) linarith
  have "job_retries job \<noteq> 0xFFFFFFFF \<Longrightarrow> unat (job_retries job) + 1 \<noteq> 4294967296"
    using attempts_left(1) unat_u32_less [of "job_retries job + 1"] by force
  then have "k + 1 < 4294967296" using assms lim by (cases "k < unat (job_retries job)") linarith+
  then have succ: "unat (word_of_nat k + 1 :: u32) = k + 1" using uk by (subst unat_add_u32) auto
  have max: "(word_of_nat k :: u32) \<noteq> 0xFFFFFFFF"
  proof
    assume "(word_of_nat k :: u32) = 0xFFFFFFFF"
    then have "unat (word_of_nat k :: u32) = unat (0xFFFFFFFF :: u32)" by simp
    with uk \<open>k + 1 < 4294967296\<close> show False by simp
  qed
  have "word_of_nat k \<le> job_retries job" using assms(1) uk by (simp add: word_le_nat_alt)
  moreover have "(word_of_nat k + 1 \<le> job_retries job) = (k < unat (job_retries job))"
    unfolding word_le_nat_alt succ by auto
  ultimately show ?thesis
    using max by (subst attempt_loop.simps)
      (auto simp: attempt_loop.simps [of B st job ts started "word_of_nat k + 1"]
        add.commute [of 1 "word_of_nat k"] split: option.splits prod.splits result.splits)
qed

lemma attempt_loop_full: "job_retries job = 0xFFFFFFFF \<Longrightarrow>
    attempt_loop B st job ts started (word_of_nat (unat (job_retries job))) err v = Some (Panic, v)"
  by (subst attempt_loop.simps) simp

lemma attempt_loop_outcome:
  assumes "failed_tries B st job k w = Some (es, v)" "k \<le> unat (job_retries job)"
    and "attempt_loop B st job (now_ms B w) (os_now B w) (word_of_nat k) err v = Some (r, w')" "r \<noteq> Panic"
  shows "\<exists>rec n. r = Ok rec \<and> unit_outcome B st job w rec w' n"
  using assms
proof (induction "unat (job_retries job) - k" arbitrary: k es v err rule: less_induct)
  case less
  have "job_retries job \<noteq> 0xFFFFFFFF \<or> k < unat (job_retries job)"
    using attempt_loop_full [of job B st "now_ms B w" "os_now B w" err v] less.prems(2-4) by (cases "k < unat (job_retries job)") auto
  note loop = less.prems(3) [unfolded attempt_loop_step [OF less.prems(2) this]]
  obtain q v1 where x: "try_once B st job v = Some (q, v1)" using loop by (auto split: option.splits)
  show ?case
  proof (cases q)
    case (Ok y)
    obtain s port where y: "y = (s, port)" by fastforce
    from loop x Ok y have r: "r = Ok (pass_record st job (now_ms B w) (os_now B v1 - os_now B w) (word_of_nat (k + 1)) s port)"
      "w' = v1" by auto
    with x Ok y less.prems(1,2)
    have "unit_outcome B st job w (pass_record st job (now_ms B w) (os_now B v1 - os_now B w) (word_of_nat (k + 1)) s port) w' k"
      unfolding unit_outcome_def by blast
    with r show ?thesis by blast
  next
    case (Err e)
    show ?thesis
    proof (cases "k < unat (job_retries job)")
      case True
      with loop x Err have "io_bind (recover B st)
          (\<lambda>_. attempt_loop B st job (now_ms B w) (os_now B w) (word_of_nat (Suc k)) (Some e)) v1 = Some (r, w')" by simp
      with less.prems(4) recover_no_error obtain i v2 where
        rec: "(recover B st v1 :: ((unit, unit) result \<times> 'a) option) = Some (Ok i, v2)"
          "attempt_loop B st job (now_ms B w) (os_now B w) (word_of_nat (Suc k)) (Some e) v2 = Some (r, w')"
        unfolding io_bind_Some_iff by (auto simp: recover_no_error)
      have "failed_tries B st job (Suc k) w = Some (es @ [e], v2)"
        using less.prems(1) x Err rec(1) by simp
      with less.hyps [OF _ this _ rec(2) less.prems(4)] True show ?thesis by simp
    next
      case False
      with loop x Err have r: "r = Ok (fail_record st job (now_ms B w) (os_now B v1 - os_now B w) (word_of_nat (k + 1)) (Some e))"
        "w' = v1" by auto
      moreover have "k = unat (job_retries job)" using False less.prems(2) by linarith
      ultimately have "unit_outcome B st job w
          (fail_record st job (now_ms B w) (os_now B v1 - os_now B w) (word_of_nat (k + 1)) (Some e)) w' k"
        using x Err less.prems(1,2) unfolding unit_outcome_def by blast
      with r show ?thesis by blast
    qed
  qed (use loop x less.prems(4) in simp)
qed

section \<open>The polls between units\<close>

text \<open>The world after \<open>n\<close> polls.\<close>

definition polled :: "'w bench \<Rightarrow> nat \<Rightarrow> nat \<Rightarrow> 'w \<Rightarrow> 'w" where
  "polled B poll n w = (os_sleep B poll ^^ n) w"

lemma polled_simps [simp]: "polled B poll 0 w = w" "polled B poll n (os_sleep B poll w) = polled B poll (Suc n) w"
  "polled B poll n (polled B poll m w) = polled B poll (m + n) w"
  by (simp_all add: polled_def funpow_swap1 add.commute [of m] funpow_add)

text \<open>\<open>first_poll bad n\<close>: the first of the numbered polls at which \<open>bad\<close> holds.\<close>

definition first_poll :: "(nat \<Rightarrow> bool) \<Rightarrow> nat \<Rightarrow> bool" where
  "first_poll bad n \<longleftrightarrow> bad n \<and> (\<forall>k < n. \<not> bad k)"

lemma first_poll_0: "bad 0 \<Longrightarrow> first_poll bad n \<longleftrightarrow> n = 0"
  by (auto simp: first_poll_def)

lemma first_poll_Suc: "\<not> bad 0 \<Longrightarrow> first_poll bad n \<longleftrightarrow> (\<exists>m. n = Suc m \<and> first_poll (bad \<circ> Suc) m)"
proof (cases n)
  case (Suc m)
  assume "\<not> bad 0"
  then have "(\<forall>k < Suc m. \<not> bad k) \<longleftrightarrow> (\<forall>k < m. \<not> bad (Suc k))" by (simp add: All_less_Suc2)
  with Suc show ?thesis by (simp add: first_poll_def)
qed (simp add: first_poll_def)

lemma wait_while_first:
  "first_poll (\<lambda>n. halted (polled B poll n w) \<or> \<not> cond (polled B poll n w)) n \<Longrightarrow>
     wait_while B (\<lambda>w. (halted w, w)) poll (\<lambda>w. (cond w, w)) w = Some (Ok (), polled B poll n w)"
proof (induction n arbitrary: w)
  case 0
  then show ?case by (subst wait_while.simps) (auto simp: first_poll_def)
next
  case (Suc n)
  then have go: "\<not> (halted w \<or> \<not> cond w)" unfolding first_poll_def by (metis polled_simps(1) zero_less_Suc)
  with Suc.prems have "first_poll (\<lambda>n. halted (polled B poll n (os_sleep B poll w)) \<or>
      \<not> cond (polled B poll n (os_sleep B poll w))) n"
    by (subst (asm) first_poll_Suc) (simp_all add: comp_def)
  from Suc.IH [OF this] go show ?case by (subst wait_while.simps) simp
qed

lemma wait_while_returns:
  assumes "wait_while B stop poll obs w = Some y"
    and "\<forall>v. stop v = (halted v, v)" "\<forall>v. obs v = (cond v, v)"
  shows "\<exists>n. first_poll (\<lambda>n. halted (polled B poll n w) \<or> \<not> cond (polled B poll n w)) n"
  using assms
proof (induction B stop poll obs w y rule: wait_while.raw_induct [rotated, consumes 1, case_names step])
  case (step loop B stop poll obs w y)
  show ?case
  proof (cases "halted w \<or> \<not> cond w")
    case False
    with step.hyps step.prems have "loop B stop poll obs (os_sleep B poll w) = Some y" by simp
    from step.IH [OF this step.prems] obtain n where
      "first_poll (\<lambda>n. halted (polled B poll n (os_sleep B poll w)) \<or> \<not> cond (polled B poll n (os_sleep B poll w))) n"
      by blast
    with False have "first_poll (\<lambda>n. halted (polled B poll n w) \<or> \<not> cond (polled B poll n w)) (Suc n)"
      by (subst first_poll_Suc) (simp_all add: comp_def)
    then show ?thesis by blast
  qed (auto simp: first_poll_def intro!: exI [of _ 0])
qed

lemma wait_while_iff:
  "wait_while B (\<lambda>w. (halted w, w)) poll (\<lambda>w. (cond w, w)) w = Some (r :: (unit, 'e) result, w') \<longleftrightarrow>
     r = Ok () \<and> (\<exists>n. w' = polled B poll n w \<and>
       first_poll (\<lambda>n. halted (polled B poll n w) \<or> \<not> cond (polled B poll n w)) n)" (is "?l = ?r")
proof
  assume ?l
  from wait_while_returns [OF this, of halted cond] obtain n where
    n: "first_poll (\<lambda>n. halted (polled B poll n w) \<or> \<not> cond (polled B poll n w)) n" by auto
  have "wait_while B (\<lambda>w. (halted w, w)) poll (\<lambda>w. (cond w, w)) w = Some (Ok () :: (unit, 'e) result, polled B poll n w)"
    by (rule wait_while_first [OF n])
  with n \<open>?l\<close> show ?r by auto
qed (auto intro: wait_while_first)

section \<open>What a pass vouches for\<close>

definition is_answer :: "rust_string \<Rightarrow> bool" where
  "is_answer l \<longleftrightarrow> l \<noteq> [] \<and> l \<noteq> str ''OK'' \<and> \<not> starts_with l (str ''AT'')"

lemma meaningful_answer: "meaningful resp cmd = Some l \<Longrightarrow> is_answer l"
  by (auto simp: meaningful_def is_answer_def find_Some_iff)

text \<open>A module that rejects the command is taken to report the firmware \<open>ERROR\<close>.\<close>

lemma rejected_command_is_firmware:
  "meaningful ([13, 10] @ str ''ERROR'' @ [13, 10]) (str ''ATI'') = Some (str ''ERROR'')"
  by code_simp

lemma verify_try_answer:
  assumes "verify_try B at_port w = Some (Ok (Some info), w')"
  shows "is_answer (boot_firmware info) \<and> (boot_imei info = [] \<or> is_answer (boot_imei info))"
  using assms
  by (auto simp: verify_try_def owning_def io_bind_Some_iff Let_def meaningful_answer
      split: prod.splits result.splits option.splits)

lemma verify_boot_answer:
  assumes "verify_boot B at_port timeout w = Some (Ok info, w')"
  shows "is_answer (boot_firmware info) \<and> (boot_imei info = [] \<or> is_answer (boot_imei info))"
proof -
  have "is_answer (boot_firmware info) \<and> (boot_imei info = [] \<or> is_answer (boot_imei info))"
    if "verify_loop B at_port d v = Some y" "y = (Ok info, w')" for d v y
    using that
  proof (induction B at_port d v y rule: verify_loop.raw_induct [rotated, consumes 1, case_names step])
    case (step loop B at_port d v y)
    then obtain r v1 where r: "verify_try B at_port v = Some (r :: (boot_info option, verify_error) result, v1)"
      by (auto simp: bind_eq_Some_conv)
    show ?case
    proof (cases "r = Ok None")
      case True
      with step.hyps step.prems r have "loop B at_port d (os_sleep B 300 v1) = Some y" by (auto split: if_splits)
      from step.IH [OF this step.prems] show ?thesis .
    next
      case False
      with step.hyps step.prems r have "r = Ok (Some info)" by (auto split: result.splits option.splits)
      with r show ?thesis by (simp add: verify_try_answer)
    qed
  qed
  with assms show ?thesis by (simp add: verify_boot_def)
qed

lemma owning_eq_Ok:
  "owning B port act w = Some (Ok y, w') \<longleftrightarrow> (\<exists>v. act w = Some (Ok y, v) \<and> w' = os_close B port v)"
  by (auto simp: owning_def split: option.splits)

lemmas io_success = io_bind_eq_Ok io_map_err_eq_Ok owning_eq_Ok bench_now_def io_return_def

text \<open>What a pass stands for, as one chain of worlds from the start \<open>v\<close> of the successful attempt to
  its end: the port is found and opened, the flasher runs on it and succeeds, the port is closed, and
  only then, if the job verifies boots and the run resets the device, a module appears and its AT
  port answers.\<close>

definition verifies :: "unit_job \<Rightarrow> bool" where
  "verifies job \<longleftrightarrow> job_verify job \<and> opt_reset (job_opts job)"

definition booted :: "'w bench \<Rightarrow> station_config \<Rightarrow> 'w \<Rightarrow> boot_info \<Rightarrow> 'w \<Rightarrow> bool" where
  "booted B st v info w' \<longleftrightarrow>
     (\<exists>mods v1. (wait_for_module B 60000 v :: ((port_info list, unit_error) result \<times> 'w) option) = Some (Ok mods, v1) \<and>
        mods \<noteq> [] \<and> verify_boot B (pick_at_port st mods) 20000 v1 = Some (Ok info, w'))"

definition vouched :: "'w bench \<Rightarrow> station_config \<Rightarrow> unit_job \<Rightarrow> 'w \<Rightarrow> unit_record \<Rightarrow> 'w \<Rightarrow> bool" where
  "vouched B st job v rec w' \<longleftrightarrow>
     (\<exists>v1 v2 v3 out.
        ensure_download B st v = Some (Ok (rec_port rec), v1) \<and>
        serial_open B (rec_port rec) 115200 v1 = Some (Ok (), v2) \<and>
        run (serial B (rec_port rec)) (job_opts job) (job_info job) (job_pac job) v2 = Some (Ok out, v3) \<and>
        rec_bytes rec = out_bytes_written out \<and> rec_flash_ms rec = out_elapsed out \<and>
        (let v4 = os_close B (rec_port rec) v3
         in if verifies job
            then (\<exists>info. booted B st v4 info w' \<and> rec_firmware rec = Some (boot_firmware info) \<and>
              rec_imei rec = Some (boot_imei info))
            else w' = v4 \<and> rec_firmware rec = None \<and> rec_imei rec = None))"

lemma boot_check_booted:
  "boot_check B st True v = Some (Ok (firmware, imei), w') \<longleftrightarrow>
     (\<exists>info. booted B st v info w' \<and> firmware = Some (boot_firmware info) \<and> imei = Some (boot_imei info))"
  by (auto simp: boot_check_def booted_def io_success split: if_splits)

lemma boot_check_skipped:
  "boot_check B st False v = Some (Ok (firmware, imei), w') \<longleftrightarrow> w' = v \<and> firmware = None \<and> imei = None"
  by (auto simp: boot_check_def io_return_def)

lemma try_once_vouched:
  assumes "try_once B st job v = Some (Ok (s, port), w')"
  shows "vouched B st job v (pass_record st job ts elapsed n s port) w'"
proof -
  from assms obtain v1 v2 v3 out where
    chain: "ensure_download B st v = Some (Ok port, v1)" "serial_open B port 115200 v1 = Some (Ok (), v2)"
      "run (serial B port) (job_opts job) (job_info job) (job_pac job) v2 = Some (Ok out, v3)"
    and s: "suc_bytes s = out_bytes_written out" "suc_flash_ms s = out_elapsed out"
    and b: "boot_check B st (verifies job) (os_close B port v3) = Some (Ok (suc_firmware s, suc_imei s), w')"
    by (auto simp: try_once_def verifies_def io_success Let_def simp del: io_basic_simps split: prod.splits)
  from b have "if verifies job
      then \<exists>info. booted B st (os_close B port v3) info w' \<and> suc_firmware s = Some (boot_firmware info) \<and>
        suc_imei s = Some (boot_imei info)
      else w' = os_close B port v3 \<and> suc_firmware s = None \<and> suc_imei s = None"
    by (cases "verifies job") (simp_all add: boot_check_booted boot_check_skipped)
  with chain s show ?thesis unfolding vouched_def pass_record_def Let_def by fastforce
qed

lemma vouched_answer:
  "vouched B st job v rec w' \<Longrightarrow> rec_firmware rec = Some firmware \<Longrightarrow> is_answer firmware"
  by (auto simp: vouched_def booted_def Let_def dest!: verify_boot_answer split: if_splits)

section \<open>A bench around the mock device\<close>

text \<open>Every port leads to the mock device; the enumerated ports stay the same, and a sleep of
  \<open>n\<close> milliseconds takes \<open>pace * n\<close> ticks of the mock's clock.\<close>

definition mock_bench :: "os_port list \<Rightarrow> nat \<Rightarrow> mock_world bench" where
  "mock_bench ps pace =
     \<lparr>os_ports = (\<lambda>w. (Some ps, w)),
      os_open = (\<lambda>_ _ _ w. (Ok (), w)),
      os_close = (\<lambda>_ w. w),
      os_write_all = (\<lambda>_ data w.
        case (process ((device w)\<lparr>in_buf := in_buf (device w) @ data\<rparr>) :: (mock, transport_error) result) of
          Ok m \<Rightarrow> (Ok (), w\<lparr>device := m\<rparr>)
        | _ \<Rightarrow> (Panic, w)),
      os_read = (\<lambda>_ n w. (Ok (take n (out_buf (device w))),
        w\<lparr>device := (device w)\<lparr>out_buf := drop n (out_buf (device w))\<rparr>, clock := clock w + 1\<rparr>)),
      os_flush = (\<lambda>_ w. w),
      os_clear_input = (\<lambda>_ w. w\<lparr>device := (device w)\<lparr>in_buf := []\<rparr>\<rparr>),
      os_set_baud = (\<lambda>_ _ w. (Ok (), w)),
      os_set_dtr = (\<lambda>_ _ w. (Ok (), w)),
      os_set_rts = (\<lambda>_ _ w. (Ok (), w)),
      os_restart_device = (\<lambda>w. (False, w)),
      os_sleep = (\<lambda>n w. w\<lparr>clock := clock w + pace * n\<rparr>),
      os_now = clock,
      os_epoch_ms = (\<lambda>w. Some (clock w))\<rparr>"

lemma mock_bench_simps [simp]:
  "os_ports (mock_bench ps pace) w = (Some ps, w)"
  "os_open (mock_bench ps pace) port baud t w = (Ok (), w)"
  "os_close (mock_bench ps pace) port w = w"
  "os_restart_device (mock_bench ps pace) w = (False, w)"
  "os_now (mock_bench ps pace) w = clock w"
  by (simp_all add: mock_bench_def)

interpretation mock_station: live_bench "mock_bench ps 1" "\<lambda>w. True" "\<lambda>_ w. length (out_buf (device w))"
  by unfold_locales (auto simp: mock_bench_def moves_on_def split: result.splits)

lemma serial_mock: "serial (mock_bench ps 0) port = mock_transport"
  by (auto simp: serial_def mock_transport_def mock_bench_def serial_write_all_def serial_read_some_def
      io_call_def io_bind_def io_map_err_def fun_eq_iff split: result.splits)

lemma opened_idle:
  assumes "in_buf (device w) = []"
  shows "serial_open (mock_bench ps pace) port 115200 w = Some (Ok (), w)"
proof -
  have "w\<lparr>device := (device w)\<lparr>in_buf := []\<rparr>\<rparr> = w" using assms by (cases w; cases "device w") simp
  then have carrier: "assert_carrier (mock_bench ps pace) port w = w" by (simp add: assert_carrier_def mock_bench_def)
  have "serial_open_loop (mock_bench ps pace) port 115200 (Suc 199) None w = Some (Ok (), w)"
    unfolding serial_open_loop.simps by (simp add: carrier)
  then show ?thesis by (simp add: serial_open_def)
qed

section \<open>A bench with a module\<close>

text \<open>The bench of a unit that boots: the port \<open>at_port\<close> is the module's AT port, which answers the
  command line \<open>c\<close> with the bytes \<open>reply c\<close>; every other port leads to the mock device. The bytes on their
  way to the host are kept in the mock's output buffer.\<close>

definition module_bench ::
    "os_port list \<Rightarrow> rust_string \<Rightarrow> (u8 list \<Rightarrow> u8 list) \<Rightarrow> mock_world bench"
where
  "module_bench ps at_port reply =
     (mock_bench ps 0)
       \<lparr>os_write_all := (\<lambda>port data w.
          if port = at_port
          then (Ok (), w\<lparr>device := (device w)\<lparr>out_buf := out_buf (device w) @ reply data\<rparr>\<rparr>)
          else os_write_all (mock_bench ps 0) port data w),
        os_clear_input := (\<lambda>port w.
          if port = at_port then w\<lparr>device := (device w)\<lparr>out_buf := []\<rparr>\<rparr>
          else os_clear_input (mock_bench ps 0) port w)\<rparr>"

lemma module_bench_simps [simp]:
  "os_ports (module_bench ps a reply) w = (Some ps, w)"
  "os_open (module_bench ps a reply) port baud t w = (Ok (), w)"
  "os_close (module_bench ps a reply) port w = w"
  "os_now (module_bench ps a reply) w = clock w"
  "os_epoch_ms (module_bench ps a reply) w = Some (clock w)"
  "os_sleep (module_bench ps a reply) n w = w"
  "os_flush (module_bench ps a reply) port w = w"
  "os_clear_input (module_bench ps a reply) a w = w\<lparr>device := (device w)\<lparr>out_buf := []\<rparr>\<rparr>"
  "os_write_all (module_bench ps a reply) a data w =
     (Ok (), w\<lparr>device := (device w)\<lparr>out_buf := out_buf (device w) @ reply data\<rparr>\<rparr>)"
  "os_read (module_bench ps a reply) port n w = (Ok (take n (out_buf (device w))),
     w\<lparr>device := (device w)\<lparr>out_buf := drop n (out_buf (device w))\<rparr>, clock := clock w + 1\<rparr>)"
  by (simp_all add: module_bench_def mock_bench_def)

lemma serial_module: "port \<noteq> a \<Longrightarrow> serial (module_bench ps a reply) port = mock_transport"
  unfolding serial_mock [of ps port, symmetric]
  by (simp add: serial_def module_bench_def mock_bench_def serial_write_all_def serial_read_some_def fun_eq_iff)

lemma open_module:
  assumes "in_buf (device w) = []" "port \<noteq> a"
  shows "serial_open (module_bench ps a reply) port 115200 w = Some (Ok (), w)"
proof -
  have "w\<lparr>device := (device w)\<lparr>in_buf := []\<rparr>\<rparr> = w" using assms by (cases w; cases "device w") simp
  then have carrier: "assert_carrier (module_bench ps a reply) port w = w"
    using assms(2) by (simp add: assert_carrier_def module_bench_def mock_bench_def)
  have "serial_open_loop (module_bench ps a reply) port 115200 (Suc 199) None w = Some (Ok (), w)"
    unfolding serial_open_loop.simps by (simp add: carrier)
  then show ?thesis by (simp add: serial_open_def)
qed

text \<open>The reader takes what its window of reads allows, and the flash stays as it is.\<close>

lemma at_read_module:
  "\<exists>w'. at_read_loop (module_bench ps a reply) port d out w =
      Some (Ok (out @ take (512 * (d - clock w)) (out_buf (device w))), w') \<and> flash (device w') = flash (device w)"
proof (induction "d - clock w" arbitrary: out w rule: less_induct)
  case less
  show ?case
  proof (cases "clock w < d")
    case True
    let ?w = "w\<lparr>device := (device w)\<lparr>out_buf := drop 512 (out_buf (device w))\<rparr>, clock := clock w + 1\<rparr>"
    have "512 * (d - clock w) = 512 + 512 * (d - clock ?w)" using True by simp
    then have bytes: "take (512 * (d - clock w)) (out_buf (device w)) =
        take 512 (out_buf (device w)) @ take (512 * (d - clock ?w)) (out_buf (device ?w))"
      by (simp add: take_add)
    have "d - clock ?w < d - clock w" using True by simp
    from less [OF this, of "out @ take 512 (out_buf (device w))"] less [OF this, of out] True bytes show ?thesis
      by (subst at_read_loop.simps) auto
  qed (subst at_read_loop.simps, simp)
qed

definition module_reply :: "(u8 list \<Rightarrow> u8 list) \<Rightarrow> string \<Rightarrow> rust_string option" where
  "module_reply reply cmd = meaningful (from_utf8_lossy (reply (crlf_bytes (str cmd)))) (str cmd)"

lemma at_query_module:
  assumes "length (reply (crlf_bytes cmd)) \<le> 358400"
  shows "\<exists>w'. at_query (module_bench ps a reply) a cmd w =
      Some (Ok (from_utf8_lossy (reply (crlf_bytes cmd))) :: (rust_string, 'e) result, w') \<and>
    flash (device w') = flash (device w)"
proof -
  let ?v = "w\<lparr>device := (device w)\<lparr>out_buf := reply (crlf_bytes cmd)\<rparr>\<rparr>"
  from at_read_module [of ps a reply a "clock w + 700" "[]" ?v] assms obtain w' where
    "at_read_loop (module_bench ps a reply) a (clock w + 700) [] ?v = Some (Ok (reply (crlf_bytes cmd)) :: (u8 list, 'e) result, w')"
    "flash (device w') = flash (device w)" by auto
  then show ?thesis by (simp add: at_query_def io_bind_def io_modify_def io_return_def)
qed

lemma verify_module:
  assumes "module_reply reply ''ATI'' = Some firmware"
    and "length (reply (crlf_bytes (str ''ATI''))) \<le> 358400" "length (reply (crlf_bytes (str ''AT+CGSN''))) \<le> 358400"
  shows "\<exists>w'. verify_boot (module_bench ps a reply) a timeout w =
      Some (Ok \<lparr>boot_firmware = firmware, boot_imei = (case module_reply reply ''AT+CGSN'' of None \<Rightarrow> [] | Some i \<Rightarrow> i)\<rparr>, w') \<and>
    flash (device w') = flash (device w)"
proof -
  obtain w1 where ati: "at_query (module_bench ps a reply) a (str ''ATI'') w =
      Some (Ok (from_utf8_lossy (reply (crlf_bytes (str ''ATI'')))) :: (rust_string, verify_error) result, w1)"
    "flash (device w1) = flash (device w)" using at_query_module [of reply "str ''ATI''"] assms(2) by blast
  obtain w2 where cgsn: "at_query (module_bench ps a reply) a (str ''AT+CGSN'') w1 =
      Some (Ok (from_utf8_lossy (reply (crlf_bytes (str ''AT+CGSN'')))) :: (rust_string, verify_error) result, w2)"
    "flash (device w2) = flash (device w1)" using at_query_module [of reply "str ''AT+CGSN''"] assms(3) by blast
  have "(verify_try (module_bench ps a reply) a w :: ((boot_info option, verify_error) result \<times> mock_world) option) =
      Some (Ok (Some \<lparr>boot_firmware = firmware,
        boot_imei = (case module_reply reply ''AT+CGSN'' of None \<Rightarrow> [] | Some i \<Rightarrow> i)\<rparr>), w2)"
    using ati(1) cgsn(1) assms(1) unfolding module_reply_def
    by (simp add: verify_try_def owning_def io_bind_def io_return_def Let_def del: str_simps)
  with ati(2) cgsn(2) show ?thesis
    unfolding verify_boot_def by (subst verify_loop.simps) simp
qed

lemma wait_module_listed:
  assumes "filter (\<lambda>p. info_vid p = Some MODULE_VID) (map to_port_info ps) \<noteq> []"
  shows "wait_for_module (module_bench ps a reply) timeout w =
    Some (Ok (filter (\<lambda>p. info_vid p = Some MODULE_VID) (map to_port_info ps)), w)"
  using assms by (simp add: wait_for_module_def find_module_ports_def ports_def wait_module_loop.simps)

section \<open>A bench without devices\<close>

text \<open>On a bench whose enumeration is an observation, a station without ports of its own waits for
  the bench to be empty; a unit started then fails at once.\<close>

definition observed :: "'w bench \<Rightarrow> ('w \<Rightarrow> os_port list) \<Rightarrow> bool" where
  "observed B ps \<longleftrightarrow> (\<forall>w. os_ports B w = (Some (ps w), w)) \<and> (\<forall>w. os_restart_device B w = (False, w))"

lemma observed_enumeration:
  assumes "observed B ps"
  shows "find_download_port B w = (find is_download (map to_port_info (ps w)), w)"
    and "find_module_ports B w = (filter (\<lambda>p. info_vid p = Some MODULE_VID) (map to_port_info (ps w)), w)"
  using assms by (simp_all add: observed_def find_download_port_def find_module_ports_def ports_def)

definition occupied :: "('w \<Rightarrow> os_port list) \<Rightarrow> 'w \<Rightarrow> bool" where
  "occupied ps w \<longleftrightarrow> find is_download (map to_port_info (ps w)) \<noteq> None \<or>
     filter (\<lambda>p. info_vid p = Some MODULE_VID) (map to_port_info (ps w)) \<noteq> []"

lemma observed_occupied: "observed B ps \<Longrightarrow> bench_occupied B = (\<lambda>w. (occupied ps w, w))"
  by (auto simp: bench_occupied_def observed_enumeration occupied_def fun_eq_iff split: option.splits)

lemma try_without_ports:
  assumes "observed B ps" "\<not> occupied ps w" "st_at_port st = None" "st_download_port st = None"
  shows "try_once B st job w = Some (Err (EnterDownload NoPortToSwitch), w)"
proof -
  have "ensure_download B st w = Some (Err NoPortToSwitch, w)"
    using assms
    by (simp add: ensure_download_def configured_port_def io_query_def io_bind_def observed_enumeration
        occupied_def ok_or_def)
  then show ?thesis by (simp add: try_once_def)
qed

lemma recover_without_ports:
  "observed B ps \<Longrightarrow> st_at_port st = None \<Longrightarrow> recover B st w = Some (Ok (), w)"
  by (simp add: recover_def io_query_def io_bind_def observed_def)

lemma failed_without_ports:
  assumes "observed B ps" "\<not> occupied ps w" "st_at_port st = None" "st_download_port st = None"
  shows "failed_tries B st job k w = Some (replicate k (EnterDownload NoPortToSwitch), w)"
proof (induction k)
  case (Suc k)
  with try_without_ports [OF assms] show ?case
    by (simp add: recover_without_ports [OF assms(1,3)] replicate_append_same)
qed simp

lemma attempt_loop_unroll:
  assumes "failed_tries B st job k w = Some (es, v)" "k \<le> unat (job_retries job)"
  shows "attempt_loop B st job ts started 0 None w =
    attempt_loop B st job ts started (word_of_nat k) (if es = [] then None else Some (last es)) v"
  using assms
proof (induction k arbitrary: es v)
  case (Suc k)
  from Suc.prems(1) obtain es0 v0 e v1 i where
    k: "failed_tries B st job k w = Some (es0, v0)" "try_once B st job v0 = Some (Err e, v1)"
      "(recover B st v1 :: ((unit, unit) result \<times> 'a) option) = Some (Ok i, v)" "es = es0 @ [e]"
    by (auto split: option.splits prod.splits result.splits)
  from Suc.IH [OF k(1)] Suc.prems(2) have "attempt_loop B st job ts started 0 None w =
      attempt_loop B st job ts started (word_of_nat k) (if es0 = [] then None else Some (last es0)) v0" by simp
  also have "\<dots> = attempt_loop B st job ts started (word_of_nat (Suc k)) (Some e) v"
    using Suc.prems(2) k by (subst attempt_loop_step) (simp_all add: io_bind_def)
  finally show ?case using k(4) by simp
qed simp

lemma run_without_ports:
  assumes "observed B ps" "\<not> occupied ps w" "st_at_port st = None" "st_download_port st = None"
    and "job_retries job \<noteq> 0xFFFFFFFF"
  shows "run_unit B st job w = Some (Ok (fail_record st job (now_ms B w) 0 (job_retries job + 1)
    (Some (EnterDownload NoPortToSwitch))), w)"
proof -
  note none = assms(1-4)
  let ?k = "unat (job_retries job)" and ?e = "EnterDownload NoPortToSwitch"
  have "attempt_loop B st job ts started (word_of_nat ?k) err w =
      Some (Ok (fail_record st job ts (os_now B w - started) (word_of_nat (?k + 1)) (Some ?e)), w)" for ts started err
    using assms(5) by (subst attempt_loop_step) (simp_all add: try_without_ports [OF none])
  with attempt_loop_unroll [OF failed_without_ports [OF none, of job ?k], of "now_ms B w" "os_now B w"]
  show ?thesis by (simp add: run_unit_def add.commute)
qed

text \<open>A station over the mock device, one without ports, and a unit of the demo image.\<close>

definition demo_station :: "rust_string option \<Rightarrow> station_config" where
  "demo_station port = \<lparr>st_label = str ''s1'', st_at_port = None, st_download_port = port\<rparr>"

definition demo_job :: "u32 \<Rightarrow> unit_job" where
  "demo_job n = \<lparr>job_info = v4035_markers, job_pac = demo_pac, job_pac_name = str ''fw.pac'',
     job_opts = default_options, job_verify = False, job_retries = n, job_work_order = None, job_operator = None\<rparr>"

lemma demo_station_simps [simp]:
  "st_at_port (demo_station port) = None" "st_download_port (demo_station port) = port"
  by (simp_all add: demo_station_def)

lemma demo_job_simps [simp]:
  "job_info (demo_job n) = v4035_markers" "job_pac (demo_job n) = demo_pac" "job_opts (demo_job n) = default_options"
  "\<not> job_verify (demo_job n)" "job_retries (demo_job n) = n"
  by (simp_all add: demo_job_def)

lemma empty_bench: "observed (mock_bench [] pace) (\<lambda>_. [])" "\<not> occupied (\<lambda>_. []) w"
  by (simp_all add: observed_def occupied_def)

text \<open>The module the station will ask, and what it answers.\<close>

definition module_answers ::
    "os_port list \<Rightarrow> station_config \<Rightarrow> rust_string \<Rightarrow> (u8 list \<Rightarrow> u8 list) \<Rightarrow> rust_string \<Rightarrow> bool"
where
  "module_answers ps st at_port reply firmware \<longleftrightarrow>
     (let mods = filter (\<lambda>p. info_vid p = Some MODULE_VID) (map to_port_info ps)
      in mods \<noteq> [] \<and> pick_at_port st mods = at_port \<and> module_reply reply ''ATI'' = Some firmware \<and>
         length (reply (crlf_bytes (str ''ATI''))) \<le> 358400 \<and>
         length (reply (crlf_bytes (str ''AT+CGSN''))) \<le> 358400)"

lemma boot_check_module:
  assumes "module_answers ps st a reply firmware"
  shows "\<exists>w'. boot_check (module_bench ps a reply) st True w = Some (Ok (Some firmware,
      Some (case module_reply reply ''AT+CGSN'' of None \<Rightarrow> [] | Some i \<Rightarrow> i)), w') \<and>
    flash (device w') = flash (device w)"
proof -
  let ?mods = "filter (\<lambda>p. info_vid p = Some MODULE_VID) (map to_port_info ps)"
  from assms have m: "?mods \<noteq> []" "pick_at_port st ?mods = a" "module_reply reply ''ATI'' = Some firmware"
    "length (reply (crlf_bytes (str ''ATI''))) \<le> 358400" "length (reply (crlf_bytes (str ''AT+CGSN''))) \<le> 358400"
    by (simp_all add: module_answers_def Let_def del: str_simps)
  from verify_module [OF m(3-5), of ps a 20000 w] obtain w' where
    "verify_boot (module_bench ps a reply) a 20000 w = Some (Ok \<lparr>boot_firmware = firmware,
       boot_imei = (case module_reply reply ''AT+CGSN'' of None \<Rightarrow> [] | Some i \<Rightarrow> i)\<rparr>, w')"
    "flash (device w') = flash (device w)" by blast
  then show ?thesis
    using m(1,2) by (simp add: boot_check_def io_bind_def io_map_err_def io_return_def wait_module_listed [OF m(1)])
qed

lemma configured_port_found:
  assumes "st_download_port st = Some port"
    and "st_at_port st = None \<or> (\<exists>p \<in> set ps. is_download (to_port_info p))"
  shows "ensure_download (module_bench ps a reply) st w = Some (Ok port, w)"
proof -
  have "st_at_port st = None \<or> find is_download (map to_port_info ps) \<noteq> None"
    using assms(2) by (auto simp: find_None_iff)
  then show ?thesis
    using assms(1) by (auto simp: ensure_download_def configured_port_def io_query_def io_bind_def io_return_def
      find_download_port_def ports_def)
qed

lemma module_unit_passes:
  assumes "mock_fresh w" "0 < opt_timeout (job_opts job)" "0 < opt_exec_timeout (job_opts job)"
    and "opt_chunk (job_opts job) \<le> 65535" "build (job_info job) = Ok plan" "payloads_present (job_info job) (job_pac job)"
    and "drop_acks (device w) = []" "\<not> corrupt_readback (device w)" "distinct (map fst (flash (device w)))"
    and "opt_verify_readback (job_opts job) \<longrightarrow> disjoint_throughout (job_pac job) (partitions plan)
      (with_fdl2 (job_pac job) plan (map_of (flash (device w))))"
    and "st_download_port st = Some port" "st_at_port st = None \<or> (\<exists>p \<in> set ps. is_download (to_port_info p))"
    and "port \<noteq> at_port" "verifies job \<longrightarrow> module_answers ps st at_port reply firmware"
  shows "\<exists>rec w'. run_unit (module_bench ps at_port reply) st job w = Some (Ok rec, w') \<and>
    rec_result rec = Pass \<and> rec_attempts rec = 1 \<and> rec_port rec = port \<and>
    rec_bytes rec = run_bytes (job_opts job) (job_pac job) plan \<and>
    rec_firmware rec = (if verifies job then Some firmware else None) \<and>
    rec_imei rec =
      (if verifies job then Some (case module_reply reply ''AT+CGSN'' of None \<Rightarrow> [] | Some i \<Rightarrow> i) else None) \<and>
    map_of (flash (device w')) = run_memory (job_opts job) (job_pac job) plan (map_of (flash (device w)))"
proof -
  let ?B = "module_bench ps at_port reply" and ?imei = "case module_reply reply ''AT+CGSN'' of None \<Rightarrow> [] | Some i \<Rightarrow> i"
  have "mock_flash.effect (run mock_transport (job_opts job) (job_info job) (job_pac job) w) w
    (\<lambda>out m. out_version out = mock_banner \<and> out_bytes_written out = run_bytes (job_opts job) (job_pac job) plan \<and>
       m = run_memory (job_opts job) (job_pac job) plan (mock_mem (device w))) True"
    using assms(1-10) by (intro mock_boot.effect_run) (simp_all add: MAX_MESSAGE_def mock_mem_def)
  moreover have "mock_flash.healthy (device w)"
    using assms(7-9) by (simp add: mock_flash.healthy_def mock_losses_def mock_intact_def)
  ultimately obtain out v where
    out: "run mock_transport (job_opts job) (job_info job) (job_pac job) w = Some (Ok out, v)"
      "out_bytes_written out = run_bytes (job_opts job) (job_pac job) plan"
      "map_of (flash (device v)) = run_memory (job_opts job) (job_pac job) plan (map_of (flash (device w)))"
    unfolding mock_flash.effect_def mock_mem_def by blast
  have idle: "in_buf (device w) = []" using assms(1) by (simp add: mock_fresh_def pdl_idle_def)
  have dl: "ensure_download ?B st w = Some (Ok port, w)" using assms(11,12) by (rule configured_port_found)
  obtain w' where boot: "boot_check ?B st (verifies job) v =
      Some (Ok (if verifies job then Some firmware else None, if verifies job then Some ?imei else None), w')"
    and mem: "flash (device w') = flash (device v)"
    using boot_check_module [of ps st at_port reply firmware v] assms(14)
    by (cases "verifies job") (auto simp: boot_check_def io_return_def)
  obtain s where s: "try_once ?B st job w = Some (Ok (s, port), w')" "suc_bytes s = out_bytes_written out"
      "suc_firmware s = (if verifies job then Some firmware else None)"
      "suc_imei s = (if verifies job then Some ?imei else None)"
    using dl open_module [OF idle assms(13)] out(1) boot unfolding verifies_def
    by (simp add: try_once_def serial_module [OF assms(13)] owning_def io_bind_def io_map_err_def bench_now_def
        io_return_def Let_def)
  have "(0 :: u32) \<le> job_retries job" by simp
  with s have "run_unit ?B st job w = Some (Ok (pass_record st job (now_ms ?B w) (clock w' - clock w) 1 s port), w')"
    unfolding run_unit_def by (subst attempt_loop.simps) simp
  with s out mem show ?thesis by (simp add: pass_record_def)
qed

text \<open>A bench with one module on COM9, for a unit flashed on COM7, and a job that verifies boots.\<close>

definition demo_ports :: "os_port list" where
  "demo_ports = [\<lparr>os_port_name = str ''COM9'', os_port_type = UsbPort 0x1782 1 (Some (str ''LTE AT''))\<rparr>]"

definition demo_reply :: "u8 list \<Rightarrow> u8 list" where
  "demo_reply c = crlf_bytes (if c = crlf_bytes (str ''ATI'') then str ''EC200'' else str ''867962'')"

definition verified_job :: unit_job where
  "verified_job = (demo_job 1)\<lparr>job_verify := True\<rparr>"

lemma verified_job_simps [simp]:
  "job_info verified_job = v4035_markers" "job_pac verified_job = demo_pac" "job_opts verified_job = default_options"
  "verifies verified_job"
  by (simp_all add: verified_job_def verifies_def default_options_def)

lemma demo_module_reply:
  "module_reply demo_reply ''ATI'' = Some (str ''EC200'')" "module_reply demo_reply ''AT+CGSN'' = Some (str ''867962'')"
proof -
  have sent: "demo_reply (crlf_bytes (str ''ATI'')) = [69, 67, 50, 48, 48, 13, 10]"
    "demo_reply (crlf_bytes (str ''AT+CGSN'')) = [56, 54, 55, 57, 54, 50, 13, 10]"
    by (simp_all add: demo_reply_def crlf_bytes_def)
  have decoded: "from_utf8_lossy [69, 67, 50, 48, 48, 13, 10] = [69, 67, 50, 48, 48, 13, 10]"
    "from_utf8_lossy [56, 54, 55, 57, 54, 50, 13, 10] = [56, 54, 55, 57, 54, 50, 13, 10]"
    by (subst from_utf8_lossy_ascii, simp, simp)+
  have "meaningful [69, 67, 50, 48, 48, 13, 10] (str ''ATI'') = Some (str ''EC200'')"
    "meaningful [56, 54, 55, 57, 54, 50, 13, 10] (str ''AT+CGSN'') = Some (str ''867962'')" by code_simp+
  then show "module_reply demo_reply ''ATI'' = Some (str ''EC200'')"
    "module_reply demo_reply ''AT+CGSN'' = Some (str ''867962'')"
    by (simp_all only: module_reply_def sent decoded)
qed

lemma demo_module_answers:
  "module_answers demo_ports (demo_station (Some port)) (str ''COM9'') demo_reply (str ''EC200'')"
proof -
  have "length (demo_reply c) \<le> 358400" for c by (simp add: demo_reply_def crlf_bytes_def)
  moreover have "pick_at_port (demo_station (Some port)) (map to_port_info demo_ports) = str ''COM9''"
    by (simp add: demo_ports_def to_port_info_def pick_at_port_def at_product_def ends_with_def)
  ultimately show ?thesis
    by (simp add: module_answers_def Let_def demo_module_reply demo_ports_def to_port_info_def MODULE_VID_def
        del: str_simps)
qed

definition demo_modules :: "mock_world bench" where
  "demo_modules = module_bench demo_ports (str ''COM9'') demo_reply"

lemma demo_unit_passes:
  obtains rec w' where
    "run_unit demo_modules (demo_station (Some (str ''COM7''))) verified_job (world mock_default) = Some (Ok rec, w')"
    "rec_result rec = Pass" "rec_firmware rec = Some (str ''EC200'')"
proof -
  obtain plan where p: "build v4035_markers = Ok plan" "payloads_present v4035_markers demo_pac"
    by (rule demo_plan)
  have ports: "str ''COM7'' \<noteq> str ''COM9''" by simp
  note pass = module_unit_passes [of "world mock_default" verified_job plan "demo_station (Some (str ''COM7''))" "str ''COM7''"
      demo_ports "str ''COM9''" demo_reply "str ''EC200''"]
  from pass [OF world_fresh(1)] p ports demo_module_answers have "\<exists>rec w'. run_unit demo_modules
      (demo_station (Some (str ''COM7''))) verified_job (world mock_default) = Some (Ok rec, w') \<and>
      rec_result rec = Pass \<and> rec_firmware rec = Some (str ''EC200'')"
    by (auto simp: default_options_def world_simps demo_modules_def simp del: str_simps)
  with that show thesis by blast
qed

section \<open>Properties\<close>

text \<open>C24: a unit on a station that does not panic ends in exactly one of two records: a pass after
  some failed attempts, each followed by a recovery, or a fail with the error of the last of
  \<open>retries + 1\<close> attempts; the attempt count in the record is the number of tries made.\<close>

theorem unit_is_recorded:
  assumes "run_unit B st job w = Some (r, w')" "r \<noteq> Panic"
  shows "\<exists>rec k. r = Ok rec \<and> unit_outcome B st job w rec w' k"
  using attempt_loop_outcome [of B st job 0 w "[]" w None r w'] assms by (simp add: run_unit_def)

theorem unit_is_recorded_witness:
  "\<exists>rec w' k. run_unit (mock_bench [] 1) (demo_station None) (demo_job 2) (world mock_default) = Some (Ok rec, w') \<and>
     unit_outcome (mock_bench [] 1) (demo_station None) (demo_job 2) (world mock_default) rec w' k"
proof -
  have "run_unit (mock_bench [] 1) (demo_station None) (demo_job 2) (world mock_default) =
      Some (Ok (fail_record (demo_station None) (demo_job 2) (now_ms (mock_bench [] 1) (world mock_default)) 0 3
        (Some (EnterDownload NoPortToSwitch))), world mock_default)"
    by (subst run_without_ports [OF empty_bench(1)]) (simp_all add: empty_bench(2))
  with unit_is_recorded [OF this] show ?thesis by auto
qed

text \<open>C25: a unit is recorded as passed only when, after some failed attempts, one attempt went
  through: from the world those attempts left, the recorded port was found and opened, the flash run on
  it returned success with the recorded byte count and time, the port was closed, and then, when the job
  verifies boots and resets the device, a module appeared and its AT port answered with the recorded
  firmware (an answer that is neither empty, nor OK, nor an echo) and IMEI. The recorded attempts
  are the failed ones and this one.\<close>

theorem pass_vouches:
  assumes "run_unit B st job w = Some (Ok rec, w')" "rec_result rec = Pass"
  shows "(\<exists>k es v. k \<le> unat (job_retries job) \<and> failed_tries B st job k w = Some (es, v) \<and>
      rec_attempts rec = word_of_nat (k + 1) \<and> vouched B st job v rec w') \<and>
    (\<forall>firmware \<in> set_option (rec_firmware rec). is_answer firmware) \<and> rec_error rec = None"
proof -
  from attempt_loop_outcome [of B st job 0 w "[]" w None "Ok rec" w'] assms(1) obtain k where
    "unit_outcome B st job w rec w' k" by (auto simp: run_unit_def)
  with assms(2) obtain es v s port t where
    k: "k \<le> unat (job_retries job)" "failed_tries B st job k w = Some (es, v)"
    and s: "try_once B st job v = Some (Ok (s, port), w')"
      "rec = pass_record st job (now_ms B w) t (word_of_nat (k + 1)) s port"
    unfolding unit_outcome_def by (auto simp: fail_record_def)
  have v: "vouched B st job v rec w'" unfolding s(2) by (rule try_once_vouched [OF s(1)])
  moreover have "rec_attempts rec = word_of_nat (k + 1)" "rec_error rec = None"
    by (simp_all add: s(2) pass_record_def)
  ultimately show ?thesis using k vouched_answer [OF v] by auto
qed

theorem pass_vouches_witness:
  "\<exists>rec w' v. run_unit demo_modules (demo_station (Some (str ''COM7''))) verified_job
       (world mock_default) = Some (Ok rec, w') \<and>
     vouched demo_modules (demo_station (Some (str ''COM7''))) verified_job v rec w' \<and>
     rec_firmware rec = Some (str ''EC200'') \<and> rec_error rec = None"
proof -
  obtain rec w' where r: "run_unit demo_modules (demo_station (Some (str ''COM7''))) verified_job
      (world mock_default) = Some (Ok rec, w')" "rec_result rec = Pass" "rec_firmware rec = Some (str ''EC200'')"
    by (rule demo_unit_passes)
  from pass_vouches [OF r(1,2)] r(1,3) show ?thesis by blast
qed

text \<open>C38: with the largest retry count, a unit whose attempts all fail overflows the 32-bit
  attempt counter: \<open>run_unit\<close>, documented never to panic, panics.\<close>

theorem retry_limit_panics:
  assumes "job_retries job = 0xFFFFFFFF" "failed_tries B st job 4294967295 w = Some (es, v)"
  shows "run_unit B st job w = Some (Panic, v)"
proof -
  have "unat (job_retries job) = 4294967295" using assms(1) by simp
  with attempt_loop_unroll [OF assms(2), of "now_ms B w" "os_now B w"]
    attempt_loop_full [OF assms(1), of B st "now_ms B w" "os_now B w" _ v]
  show ?thesis by (simp add: run_unit_def)
qed

theorem retry_limit_panics_witness:
  "run_unit (mock_bench [] 1) (demo_station None) (demo_job 0xFFFFFFFF) (world mock_default) = Some (Panic, world mock_default)"
  by (rule retry_limit_panics [OF _ failed_without_ports [OF empty_bench]]) simp_all

text \<open>C34: the wait between two units returns exactly when the presence polls show the device gone
  and then a device present again, or the stop flag is set, and at the first such poll.\<close>

theorem wait_cycle_returns_iff:
  "wait_cycle B (\<lambda>w. (halted w, w)) poll (\<lambda>w. (present w, w)) w = Some (r :: (unit, 'e) result, w') \<longleftrightarrow>
     r = Ok () \<and> (\<exists>i j. w' = polled B poll (i + j) w \<and>
       first_poll (\<lambda>n. \<not> (present (polled B poll n w) \<and> \<not> halted (polled B poll n w))) i \<and>
       first_poll (\<lambda>n. halted (polled B poll (i + n) w) \<or> present (polled B poll (i + n) w)) j)"
proof -
  let ?F = "\<lambda>i. first_poll (\<lambda>n. halted (polled B poll n w) \<or> \<not> present (polled B poll n w)) i"
  let ?G = "\<lambda>w1 j. first_poll (\<lambda>n. halted (polled B poll n w1) \<or> present (polled B poll n w1)) j"
  have "poll_not (\<lambda>w. (present w, w)) = (\<lambda>w. (\<not> present w, w))" by (simp add: poll_not_def fun_eq_iff)
  then have "wait_cycle B (\<lambda>w. (halted w, w)) poll (\<lambda>w. (present w, w)) w = Some (r, w') \<longleftrightarrow>
      (\<exists>w1. (\<exists>i. w1 = polled B poll i w \<and> ?F i) \<and> r = Ok () \<and> (\<exists>j. w' = polled B poll j w1 \<and> ?G w1 j))"
    by (simp only: wait_cycle_def io_bind_Some_iff wait_while_iff) simp
  also have "\<dots> \<longleftrightarrow> r = Ok () \<and> (\<exists>i j. w' = polled B poll j (polled B poll i w) \<and> ?F i \<and> ?G (polled B poll i w) j)"
    by blast
  also have "(\<lambda>n. halted (polled B poll n w) \<or> \<not> present (polled B poll n w)) =
      (\<lambda>n. \<not> (present (polled B poll n w) \<and> \<not> halted (polled B poll n w)))" by blast
  finally show ?thesis by (simp only: polled_simps)
qed

text \<open>A station without ports of its own waits for the bench to become empty and then starts
  the next unit at once, which fails on every attempt: the operator has no time to swap a unit in.\<close>

lemma portless_station_fails:
  assumes "observed B ps" "st_at_port st = None" "st_download_port st = None" "job_retries job \<noteq> 0xFFFFFFFF"
    and "wait_for_next_unit B st (\<lambda>w. (False, w)) w = Some (r :: (unit, unit) result, w')"
  shows "\<exists>rec. run_unit B st job w' = Some (Ok rec, w') \<and> rec_result rec = Fail \<and>
    rec_attempts rec = job_retries job + 1 \<and> rec_error rec = Some (EnterDownload NoPortToSwitch)"
proof -
  from assms(5) have empty: "\<not> occupied ps w'"
    by (auto simp: wait_for_next_unit_def assms(2,3) observed_occupied [OF assms(1)] wait_while_iff first_poll_def)
  from run_without_ports [OF assms(1) this assms(2-4)] show ?thesis by (simp add: fail_record_def)
qed

text \<open>On every bench on which time passes, whatever the devices do, a unit ends.\<close>

lemma every_unit_returns:
  assumes "live_bench B live pending" "live w"
  shows "\<exists>r w'. run_unit B st job w = Some (r, w') \<and> live w'"
  using io_totalD [OF live_bench.total_run_unit [OF assms(1)] assms(2)] by blast

text \<open>C27: over a device that answers every message and reads back what it holds, a unit passes at its
  first attempt on the configured port, and the device holds the planned memory. The station may have an AT port
  of its own if a download port is listed too. When the job verifies boots (and resets the device), the module the
  station will ask has to be listed and to answer ATI on its port, which is not the download port, with
  answers the 700 ms window can take: the record has that answer as firmware and the answer to AT+CGSN as
  IMEI. With read-back, the partitions must not overlap as they are written.\<close>

theorem healthy_unit_passes:
  assumes "mock_fresh w" "0 < opt_timeout (job_opts job)" "0 < opt_exec_timeout (job_opts job)"
    and "opt_chunk (job_opts job) \<le> 65535" "build (job_info job) = Ok plan" "payloads_present (job_info job) (job_pac job)"
    and "drop_acks (device w) = []" "\<not> corrupt_readback (device w)" "distinct (map fst (flash (device w)))"
    and "opt_verify_readback (job_opts job) \<longrightarrow> disjoint_throughout (job_pac job) (partitions plan)
      (with_fdl2 (job_pac job) plan (map_of (flash (device w))))"
    and "st_download_port st = Some port" "st_at_port st = None \<or> (\<exists>p \<in> set ps. is_download (to_port_info p))"
    and "port \<noteq> at_port" "verifies job \<longrightarrow> module_answers ps st at_port reply firmware"
  shows "\<exists>rec w'. run_unit (module_bench ps at_port reply) st job w = Some (Ok rec, w') \<and>
    rec_result rec = Pass \<and> rec_attempts rec = 1 \<and> rec_port rec = port \<and>
    rec_bytes rec = run_bytes (job_opts job) (job_pac job) plan \<and>
    rec_firmware rec = (if verifies job then Some firmware else None) \<and>
    rec_imei rec =
      (if verifies job then Some (case module_reply reply ''AT+CGSN'' of None \<Rightarrow> [] | Some i \<Rightarrow> i) else None) \<and>
    map_of (flash (device w')) = run_memory (job_opts job) (job_pac job) plan (map_of (flash (device w)))"
  using assms by (rule module_unit_passes)

theorem healthy_unit_passes_witness:
  "\<exists>rec w' plan. run_unit demo_modules (demo_station (Some (str ''COM7''))) verified_job (world mock_default) =
       Some (Ok rec, w') \<and>
     rec_result rec = Pass \<and> rec_firmware rec = Some (str ''EC200'') \<and> rec_imei rec = Some (str ''867962'') \<and>
     map_of (flash (device w')) = run_memory default_options demo_pac plan Map.empty"
proof -
  obtain plan where p: "build v4035_markers = Ok plan" "payloads_present v4035_markers demo_pac"
    by (rule demo_plan)
  have ports: "str ''COM7'' \<noteq> str ''COM9''" by simp
  note pass = healthy_unit_passes [of "world mock_default" verified_job plan "demo_station (Some (str ''COM7''))"
      "str ''COM7''" demo_ports "str ''COM9''" demo_reply "str ''EC200''", unfolded demo_module_reply option.case]
  from pass [OF world_fresh(1)] p ports demo_module_answers show ?thesis
    by (auto simp: default_options_def world_simps demo_modules_def simp del: str_simps)
qed

end
