(* ===== verification/Clone.thy ===== *)
theory Clone
  imports Cli Station_Units
begin

text \<open>
  The golden clone of \<open>cmd_clone\<close>: the partitions read off a device are spliced into a copy of the
  reference PAC and its two CRCs are refreshed. What the result keeps of the reference, what it
  holds, and the command over the mock device; also the dump of the partitions, which runs the same session.
\<close>

section \<open>The command\<close>

text \<open>\<open>out[o..o + data.len()].copy_from_slice(data)\<close>.\<close>

definition store_bytes :: "u8 list \<Rightarrow> nat \<Rightarrow> u8 list \<Rightarrow> (u8 list, cli_error) result" where
  "store_bytes out o1 data =
     (if o1 + length data \<le> length out then Ok (take o1 out @ data @ drop (o1 + length data) out) else Panic)"

fun splice_all :: "(pac_entry \<times> u8 list) list \<Rightarrow> u8 list \<Rightarrow> (u8 list, cli_error) result" where
  "splice_all [] out = Ok out"
| "splice_all ((e, data) # rest) out =
     (if length data \<noteq> unat (entry_size e) then Err (CliShortRead (file_id e) (length data) (entry_size e))
      else rbind (store_bytes out (unat (entry_offset e)) data) (splice_all rest))"

definition refresh_crcs :: "u8 list \<Rightarrow> (u8 list, cli_error) result" where
  "refresh_crcs out =
     rbind (slice out HEADER_SIZE (length out)) (\<lambda>body.
     rbind (store_bytes out OFF_CRC2 (to_le16 (crc16_arc body))) (\<lambda>out2.
     rbind (slice out2 0 OFF_CRC1) (\<lambda>covered.
       store_bytes out2 OFF_CRC1 (to_le16 (crc16_arc covered)))))"

definition clone_image :: "u8 list \<Rightarrow> (pac_entry \<times> u8 list) list \<Rightarrow> (u8 list, cli_error) result" where
  "clone_image pac parts =
     rbind (splice_all parts pac) (\<lambda>out.
     rbind (refresh_crcs out) (\<lambda>golden.
     rbind (map_err CliReparse (parse golden True)) (\<lambda>check.
       if crc_ok check then Ok golden else Err CliGoldenCrc)))"

text \<open>\<open>store\<close> writes the output file, while the port is still held.\<close>

definition clone_pac ::
    "'w bench \<Rightarrow> (u8 list \<Rightarrow> (unit, cli_error, 'w) io) \<Rightarrow> u8 list \<Rightarrow> rust_string option \<Rightarrow> bool \<Rightarrow>
       (u8 list, cli_error, 'w) io"
where
  "clone_pac B store pac port enter =
     io_bind (io_lift (map_err CliPac (parse pac False))) (\<lambda>info.
     io_bind (io_lift (map_err CliPlan (build info))) (\<lambda>plan.
       if partitions plan = [] then io_fail CliNoPartitions
       else
         io_bind (resolve_download_port B port enter) (\<lambda>dl.
         io_bind (io_map_err CliOpen (serial_open B dl 115200)) (\<lambda>_.
           owning B dl
             (io_bind (io_map_err CliFlash (dump (serial B dl) default_options info pac
                         (map (\<lambda>e. (entry_address e, entry_size e)) (partitions plan)))) (\<lambda>dumps.
             io_bind (io_lift (clone_image pac (zip (partitions plan) dumps))) (\<lambda>golden.
             io_bind (store golden) (\<lambda>_.
               io_return golden))))))))"

section \<open>Splicing\<close>

definition bytes_at :: "nat \<Rightarrow> nat \<Rightarrow> u8 list \<Rightarrow> u8 list" where
  "bytes_at pos n xs = take n (drop pos xs)"

definition apart :: "nat \<times> nat \<Rightarrow> nat \<times> nat \<Rightarrow> bool" where
  "apart r1 r2 \<longleftrightarrow> fst r1 + snd r1 \<le> fst r2 \<or> fst r2 + snd r2 \<le> fst r1"

definition extent :: "pac_entry \<Rightarrow> nat \<times> nat" where
  "extent e = (unat (entry_offset e), unat (entry_size e))"

lemma apart_sym: "apart r1 r2 \<longleftrightarrow> apart r2 r1"
  by (auto simp: apart_def)

lemma bytes_at_eq_nth: "pos + n \<le> length xs \<Longrightarrow> bytes_at pos n xs = map (\<lambda>i. xs ! (pos + i)) [0..<n]"
  by (intro nth_equalityI) (simp_all add: bytes_at_def)

lemma store_bytes_Ok:
  assumes "o1 + length data \<le> length out"
  obtains out' where "store_bytes out o1 data = Ok out'" "length out' = length out"
    "bytes_at o1 (length data) out' = data"
    "\<And>pos n. apart (pos, n) (o1, length data) \<Longrightarrow> pos + n \<le> length out \<Longrightarrow> bytes_at pos n out' = bytes_at pos n out"
proof -
  define out' where "out' = take o1 out @ data @ drop (o1 + length data) out"
  have len: "length out' = length out" using assms by (simp add: out'_def)
  have same: "out' ! i = out ! i" if "i < o1 \<or> o1 + length data \<le> i" "i < length out" for i
    using that assms by (auto simp: out'_def nth_append)
  have "bytes_at pos n out' = bytes_at pos n out"
    if "apart (pos, n) (o1, length data)" "pos + n \<le> length out" for pos n
    using that same len by (auto simp: bytes_at_eq_nth apart_def)
  moreover have "bytes_at o1 (length data) out' = data" using assms by (simp add: out'_def bytes_at_def)
  moreover have "store_bytes out o1 data = Ok out'" using assms by (simp add: store_bytes_def out'_def)
  ultimately show ?thesis using that len by blast
qed

lemma splice_all_Ok:
  assumes "list_all2 (\<lambda>e d. length d = unat (entry_size e)) es ds"
    and "sorted_wrt (\<lambda>e f. apart (extent e) (extent f)) es"
    and "\<forall>e \<in> set es. unat (entry_offset e) + unat (entry_size e) \<le> length out"
  shows "\<exists>out'. splice_all (zip es ds) out = Ok out' \<and> length out' = length out \<and>
    list_all2 (\<lambda>e d. bytes_at (unat (entry_offset e)) (unat (entry_size e)) out' = d) es ds \<and>
    (\<forall>pos n. (\<forall>e \<in> set es. apart (pos, n) (extent e)) \<longrightarrow> pos + n \<le> length out \<longrightarrow> bytes_at pos n out' = bytes_at pos n out)"
  using assms
proof (induction es ds arbitrary: out rule: list_all2_induct)
  case (Cons e es d ds)
  then have fits: "unat (entry_offset e) + length d \<le> length out" by simp
  obtain out1 where s: "store_bytes out (unat (entry_offset e)) d = Ok out1" "length out1 = length out"
    "bytes_at (unat (entry_offset e)) (length d) out1 = d"
    and same: "\<And>pos n. apart (pos, n) (unat (entry_offset e), length d) \<Longrightarrow> pos + n \<le> length out \<Longrightarrow>
      bytes_at pos n out1 = bytes_at pos n out"
    by (rule store_bytes_Ok [OF fits]) blast
  from Cons.IH [of out1] Cons.prems s(2) obtain out' where
    r: "splice_all (zip es ds) out1 = Ok out'" "length out' = length out"
      "list_all2 (\<lambda>e d. bytes_at (unat (entry_offset e)) (unat (entry_size e)) out' = d) es ds"
    and rest: "\<And>pos n. \<forall>e \<in> set es. apart (pos, n) (extent e) \<Longrightarrow> pos + n \<le> length out \<Longrightarrow> bytes_at pos n out' = bytes_at pos n out1"
    by auto
  have "bytes_at (unat (entry_offset e)) (unat (entry_size e)) out' = d"
    using rest [of "unat (entry_offset e)" "unat (entry_size e)"] Cons.prems Cons.hyps s(3) by (simp add: extent_def)
  moreover have "bytes_at pos n out' = bytes_at pos n out"
    if "\<forall>f \<in> set (e # es). apart (pos, n) (extent f)" "pos + n \<le> length out" for pos n
    using rest [of pos n] same [of pos n] that Cons.hyps by (simp add: extent_def)
  moreover have "splice_all (zip (e # es) (d # ds)) out = Ok out'" using s(1) r(1) Cons.hyps by simp
  ultimately show ?case using r by auto
qed simp

section \<open>The refreshed CRCs\<close>

lemma refresh_crcs_Ok:
  assumes "2124 \<le> length out"
  obtains golden where "refresh_crcs out = Ok golden" "length golden = length out"
    "take 2120 golden = take 2120 out" "drop 2124 golden = drop 2124 out"
    "header_u16 golden 2120 = crc16_arc (take 2120 golden)" "header_u16 golden 2122 = crc16_arc (drop 2124 golden)"
proof -
  define c2 where "c2 = crc16_arc (drop 2124 out)"
  define c1 where "c1 = crc16_arc (take 2120 out)"
  define golden where "golden = take 2120 out @ to_le16 c1 @ to_le16 c2 @ drop 2124 out"
  define out2 where "out2 = take 2122 out @ to_le16 c2 @ drop 2124 out"
  have "store_bytes out 2122 (to_le16 c2) = Ok out2"
    using assms by (simp add: store_bytes_def out2_def)
  moreover have "store_bytes out2 2120 (to_le16 c1) = Ok golden"
    using assms by (simp add: store_bytes_def out2_def golden_def drop_take)
  moreover have "slice out2 0 2120 = (Ok (take 2120 out) :: (u8 list, cli_error) result)" using assms by (simp add: out2_def)
  moreover have "slice out 2124 (length out) = (Ok (drop 2124 out) :: (u8 list, cli_error) result)" using assms by simp
  ultimately have "refresh_crcs out = Ok golden" by (simp add: refresh_crcs_def c1_def c2_def)
  moreover have t: "take 2120 golden = take 2120 out" "drop 2124 golden = drop 2124 out" "length golden = length out"
    using assms by (simp_all add: golden_def)
  moreover have "header_u16 golden 2120 = c1" "header_u16 golden 2122 = c2"
    using assms by (simp_all add: golden_def header_u16_def nth_append to_le16_def)
  ultimately show ?thesis using that by (simp add: c1_def c2_def)
qed

section \<open>The golden PAC\<close>

definition table_end :: "u8 list \<Rightarrow> nat" where
  "table_end pac = unat (header_u32 pac 1076) * 2580 + unat (header_u32 pac 1080)"

text \<open>A reference PAC whose table follows the header, whose partitions follow the table and do not
  overlap.\<close>

definition clonable :: "u8 list \<Rightarrow> flash_plan \<Rightarrow> bool" where
  "clonable pac plan \<longleftrightarrow>
     2124 \<le> unat (header_u32 pac 1080) \<and>
     (\<forall>e \<in> set (partitions plan). table_end pac \<le> unat (entry_offset e)) \<and>
     sorted_wrt (\<lambda>e f. apart (extent e) (extent f)) (partitions plan)"

lemma header_u32_below:
  assumes "take 2120 a = take 2120 b" "off + 4 \<le> 2120"
  shows "header_u32 a off = header_u32 b off"
proof -
  have "a ! i = b ! i" if "i < 2120" for i using assms(1) nth_take [OF that] by metis
  then show ?thesis using assms(2) by (simp add: header_u32_def)
qed

lemma same_table:
  assumes "take 2120 golden = take 2120 pac" "2124 \<le> unat (header_u32 pac 1080)"
    and "\<And>pos n. 2124 \<le> pos \<Longrightarrow> pos + n \<le> table_end pac \<Longrightarrow> bytes_at pos n golden = bytes_at pos n pac"
  shows "file_table golden = file_table pac"
proof -
  have h: "header_u32 golden 1076 = header_u32 pac 1076" "header_u32 golden 1080 = header_u32 pac 1080"
    by (rule header_u32_below [OF assms(1)]; simp)+
  have "table_entry golden (unat (header_u32 pac 1080)) (word_of_nat i) =
      table_entry pac (unat (header_u32 pac 1080)) (word_of_nat i)" if i: "i < unat (header_u32 pac 1076)" for i
  proof -
    have "unat (word_of_nat i :: u32) = i"
    proof (rule unat_of_nat_u32)
      have "unat (header_u32 pac 1076) < 4294967296" by (rule unat_u32_less)
      with i show "i < 4294967296" by linarith
    qed
    moreover have "bytes_at (i * 2580 + unat (header_u32 pac 1080)) 2580 golden =
        bytes_at (i * 2580 + unat (header_u32 pac 1080)) 2580 pac"
      using assms(2) i by (intro assms(3)) (simp_all add: table_end_def)
    ultimately show ?thesis by (simp add: table_entry_def bytes_at_def)
  qed
  then show ?thesis by (simp add: file_table_def h)
qed

lemma clone_image_Ok:
  assumes "parse pac False = Ok info" "build info = Ok plan" "clonable pac plan"
    and "list_all2 (\<lambda>e d. length d = unat (entry_size e)) (partitions plan) dumps"
  shows "\<exists>golden check. clone_image pac (zip (partitions plan) dumps) = Ok golden \<and> length golden = length pac \<and>
    parse golden True = Ok check \<and> crc_ok check \<and> payload_crc_ok check = Some True \<and> entries check = entries info \<and>
    list_all2 (\<lambda>e d. payload e golden = Some d) (partitions plan) dumps \<and>
    (\<forall>e \<in> set (entries info). table_end pac \<le> unat (entry_offset e) \<and>
       (\<forall>p \<in> set (partitions plan). apart (extent e) (extent p)) \<longrightarrow> payload e golden = payload e pac)"
proof -
  from assms(1) have pac: "2124 \<le> length pac" "unat (header_u32 pac 48) = length pac"
    "unat (header_u32 pac 1076) = 0 \<or> table_end pac \<le> length pac"
    "\<forall>e \<in> set (file_table pac). entry_in_range pac e" "entries info = file_table pac"
    by (auto simp: parse_Ok_iff table_end_def parsed_info_def)
  have parts: "partitions plan = filter (\<lambda>e. classify e = Flash) (file_table pac)"
    using build_Ok [OF assms(2)] pac(5) by simp
  have flash: "entry_size e \<noteq> 0" if "classify e = Flash" for e
    using that by (auto simp: classify_def is_marker_def Let_def split: if_splits)
  have fits: "\<forall>e \<in> set (partitions plan). unat (entry_offset e) + unat (entry_size e) \<le> length pac"
    using pac(4) flash by (auto simp: parts entry_in_range_def)
  note clonable = assms(3) [unfolded clonable_def]
  from splice_all_Ok [OF assms(4) _ fits] clonable obtain out where
    out: "splice_all (zip (partitions plan) dumps) pac = Ok out" "length out = length pac"
      "list_all2 (\<lambda>e d. bytes_at (unat (entry_offset e)) (unat (entry_size e)) out = d) (partitions plan) dumps"
    and kept: "\<And>pos n. \<forall>e \<in> set (partitions plan). apart (pos, n) (extent e) \<Longrightarrow> pos + n \<le> length pac \<Longrightarrow>
      bytes_at pos n out = bytes_at pos n pac"
    by blast
  have "2124 \<le> length out" using pac(1) out(2) by simp
  then obtain golden where g: "refresh_crcs out = Ok golden" "length golden = length out"
    "take 2120 golden = take 2120 out" "drop 2124 golden = drop 2124 out"
    "header_u16 golden 2120 = crc16_arc (take 2120 golden)" "header_u16 golden 2122 = crc16_arc (drop 2124 golden)"
    by (rule refresh_crcs_Ok)
  have after: "bytes_at pos n golden = bytes_at pos n out" if "2124 \<le> pos" for pos n
  proof -
    have "drop pos golden = drop (pos - 2124) (drop 2124 golden)" "drop pos out = drop (pos - 2124) (drop 2124 out)"
      using that by simp_all
    with g(4) show ?thesis by (simp add: bytes_at_def)
  qed
  have low: "bytes_at pos n out = bytes_at pos n pac" if "pos + n \<le> table_end pac" "pos + n \<le> length pac" for pos n
    using that clonable by (intro kept) (auto simp: apart_def extent_def)
  have first: "2120 \<le> table_end pac" using clonable by (simp add: table_end_def)
  have head: "take 2120 golden = take 2120 pac"
    using low [of 0 2120] first pac(1) g(3) by (simp add: bytes_at_def)
  have heads: "header_u32 golden 48 = header_u32 pac 48" "header_u32 golden 1076 = header_u32 pac 1076"
    "header_u32 golden 1080 = header_u32 pac 1080"
    by (rule header_u32_below [OF head]; simp)+
  have table: "file_table golden = file_table pac"
  proof (cases "unat (header_u32 pac 1076) = 0")
    case True
    with heads show ?thesis by (simp add: file_table_def)
  next
    case False
    with pac(3) have "table_end pac \<le> length pac" by blast
    with head clonable show ?thesis by (intro same_table) (simp_all add: after low)
  qed
  have parsed: "parse golden True = Ok (parsed_info golden True (file_table pac))"
    using pac out(2) g(2) by (simp add: parse_Ok_iff table heads table_end_def entry_in_range_def)
  have crc: "crc_ok (parsed_info golden True (file_table pac))" "payload_crc_ok (parsed_info golden True (file_table pac)) = Some True"
    using g(5,6) by (simp_all add: parsed_info_crc_ok) (simp add: parsed_info_def)
  have "clone_image pac (zip (partitions plan) dumps) = Ok golden"
    using out(1) g(1) parsed crc(1) by (simp add: clone_image_def)
  moreover have "list_all2 (\<lambda>e d. payload e golden = Some d) (partitions plan) dumps"
    using out(3)
  proof (rule list.rel_mono_strong)
    fix e d
    assume e: "e \<in> set (partitions plan)" and d: "bytes_at (unat (entry_offset e)) (unat (entry_size e)) out = d"
    have "2124 \<le> unat (entry_offset e)" using clonable e by (auto simp: table_end_def)
    from after [OF this, of "unat (entry_size e)"] d fits e out(2) g(2) show "payload e golden = Some d"
      by (simp add: payload_eq bytes_at_def)
  qed
  moreover have "payload e golden = payload e pac"
    if "table_end pac \<le> unat (entry_offset e)" "\<forall>p \<in> set (partitions plan). apart (extent e) (extent p)" for e
  proof -
    have "2124 \<le> unat (entry_offset e)" using clonable that(1) by (auto simp: table_end_def)
    from after [OF this, of "unat (entry_size e)"] kept [of "unat (entry_offset e)" "unat (entry_size e)"] that(2) out(2) g(2)
    show ?thesis by (simp add: payload_eq bytes_at_def extent_def)
  qed
  ultimately show ?thesis using parsed crc pac(5) out(2) g(2) by (auto simp: parsed_info_def)
qed

section \<open>A reference PAC\<close>

definition ref_entry :: "u8 list \<Rightarrow> u32 \<Rightarrow> u32 \<Rightarrow> u32 \<Rightarrow> u8 list" where
  "ref_entry fid sz off addr =
     replicate 4 0 @ fid @ replicate (1536 - length fid) 0 @ to_le32 sz @ replicate 8 0 @ to_le32 off @
     replicate 8 0 @ to_le32 addr @ replicate 1012 0"

definition ref_head :: "u8 list" where
  "ref_head = replicate 48 0 @ to_le32 7289 @ replicate 1024 0 @ to_le32 2 @ to_le32 2124 @ replicate 1040 0"

definition ref_fdl :: "u8 list" where "ref_fdl = ref_entry [0x46, 0, 0x44, 0, 0x4C, 0] 2 7284 0x5000"
definition ref_ap :: "u8 list" where "ref_ap = ref_entry [0x41, 0, 0x50, 0] 3 7286 0x60010000"

definition ref_pac :: "u8 list" where
  "ref_pac = ref_head @ ref_fdl @ ref_ap @ [0xF1, 0xF2, 1, 2, 3]"

definition ref_file :: "string \<Rightarrow> u32 \<Rightarrow> u32 \<Rightarrow> u32 \<Rightarrow> pac_entry" where
  "ref_file fid sz off addr =
     \<lparr>file_id = str fid, file_name = [], entry_size = sz, entry_offset = off, entry_address = addr,
      entry_flag = 0, entry_omit = 0\<rparr>"

lemma ref_lengths: "length ref_head = 2124" "length ref_fdl = 2580" "length ref_ap = 2580" "length ref_pac = 7289"
  by (simp_all add: ref_head_def ref_fdl_def ref_ap_def ref_entry_def ref_pac_def)

lemma ref_fields: "header_u32 ref_pac 48 = 7289" "header_u32 ref_pac 1076 = 2" "header_u32 ref_pac 1080 = 2124"
  by (simp_all add: header_u32_def ref_pac_def nth_append ref_lengths)
    (simp_all add: ref_head_def nth_append to_le32_def from_le32_def from_be32_def)

lemma ref_table: "file_table ref_pac = [ref_file ''FDL'' 2 7284 0x5000, ref_file ''AP'' 3 7286 0x60010000]"
proof -
  have fh: "take 2580 (drop (unat (0 :: u32) * 2580 + 2124) ref_pac) = ref_fdl"
    "take 2580 (drop (unat (1 :: u32) * 2580 + 2124) ref_pac) = ref_ap"
    by (simp_all add: ref_pac_def ref_lengths)
  have name: "utf16z (take 512 (drop 4 ref_fdl)) = str ''FDL''" "utf16z (take 512 (drop 516 ref_fdl)) = []"
    "utf16z (take 512 (drop 4 ref_ap)) = str ''AP''" "utf16z (take 512 (drop 516 ref_ap)) = []"
    by (simp_all add: ref_fdl_def ref_ap_def ref_entry_def from_le16_def from_be16_def str_def)
  have "table_entry ref_pac 2124 0 = ref_file ''FDL'' 2 7284 0x5000"
    unfolding table_entry_def fh Let_def name
    by (simp add: ref_fdl_def ref_entry_def ref_file_def nth_append to_le32_def from_le32_def from_be32_def)
  moreover have "table_entry ref_pac 2124 1 = ref_file ''AP'' 3 7286 0x60010000"
    unfolding table_entry_def fh Let_def name
    by (simp add: ref_ap_def ref_entry_def ref_file_def nth_append to_le32_def from_le32_def from_be32_def)
  ultimately show ?thesis by (simp add: file_table_def ref_fields upt_rec)
qed

lemma ref_parses: "parse ref_pac v = Ok (parsed_info ref_pac v (file_table ref_pac))"
  by (simp add: parse_Ok_iff ref_fields ref_lengths ref_table entry_in_range_def ref_file_def)

lemma ref_roles: "classify (ref_file ''FDL'' 2 7284 0x5000) = Fdl1" "classify (ref_file ''AP'' 3 7286 0x60010000) = Flash"
  by (simp_all add: ref_file_def classify_def LOGICAL_ADDRESS_BASE_def to_ascii_uppercase_def ascii_upper_char_def
      str_def starts_with_def Let_def)

lemma ref_plan:
  obtains plan where "build (parsed_info ref_pac v (file_table ref_pac)) = Ok plan"
    "partitions plan = [ref_file ''AP'' 3 7286 0x60010000]" "fdl2 plan = None"
    "payloads_present (parsed_info ref_pac v (file_table ref_pac)) ref_pac" "clonable ref_pac plan"
proof -
  have "\<exists>plan. build (parsed_info ref_pac v (file_table ref_pac)) = Ok plan"
    by (simp add: build_def parsed_info_def ref_table ref_roles ok_or_def)
  then obtain plan where p: "build (parsed_info ref_pac v (file_table ref_pac)) = Ok plan" by blast
  have e: "partitions plan = [ref_file ''AP'' 3 7286 0x60010000]" "fdl2 plan = None"
    using build_Ok [OF p] by (simp_all add: parsed_info_def ref_table ref_roles)
  have "payloads_present (parsed_info ref_pac v (file_table ref_pac)) ref_pac"
    by (simp add: payloads_present_def parsed_info_def ref_table ref_file_def payload_eq ref_lengths)
  moreover have "clonable ref_pac plan"
    by (simp add: clonable_def e ref_fields table_end_def ref_file_def)
  ultimately show ?thesis using p e that by blast
qed

section \<open>Over the mock device\<close>

text \<open>The session both commands run: a dump of the partitions, and the port it runs on.\<close>

lemma dump_partitions_mock:
  assumes "parse pac False = Ok info" "build info = Ok plan"
    and "mock_fresh w" "drop_acks (device w) = []" "\<not> corrupt_readback (device w)"
    and "distinct (map fst (flash (device w)))" "disjoint_mem (with_fdl2 pac plan (map_of (flash (device w))))"
    and "list_all2 (\<lambda>e d. length d = unat (entry_size e) \<and>
      holds_at (with_fdl2 pac plan (map_of (flash (device w)))) (entry_address e) d) (partitions plan) images"
  obtains w' where "dump mock_transport default_options info pac
      (map (\<lambda>e. (entry_address e, entry_size e)) (partitions plan)) w = Some (Ok images, w')"
    "map_of (flash (device w')) = with_fdl2 pac plan (map_of (flash (device w)))"
    "serial_open (mock_bench ps 0) port 115200 w = Some (Ok (), w)"
proof -
  let ?regions = "map (\<lambda>e. (entry_address e, entry_size e)) (partitions plan)"
  have present: "payloads_present info pac"
    using assms(1) by (auto simp: parse_Ok_iff payloads_present_def parsed_info_def entry_in_range_payload)
  have "list_all2 (\<lambda>(addr, len) d. length d = unat len \<and>
      holds_at (with_fdl2 pac plan (mock_mem (device w))) addr d) ?regions images"
    using assms(8) by (simp add: list_all2_map1 mock_mem_def)
  then have "mock_flash.effect (dump mock_transport default_options info pac ?regions w) w
    (\<lambda>ds m. ds = images \<and> m = with_fdl2 pac plan (mock_mem (device w))) True"
    using assms present
    by (intro mock_boot.effect_dump) (simp_all add: mock_mem_def mock_intact_def default_options_def)
  moreover have "mock_flash.healthy (device w)"
    using assms(4-6) by (simp add: mock_flash.healthy_def mock_losses_def mock_intact_def)
  ultimately obtain w' where d: "dump mock_transport default_options info pac ?regions w = Some (Ok images, w')"
    "map_of (flash (device w')) = with_fdl2 pac plan (map_of (flash (device w)))"
    unfolding mock_flash.effect_def mock_mem_def by blast
  have "in_buf (device w) = []" using assms(3) by (simp add: mock_fresh_def pdl_idle_def)
  then have "serial_open (mock_bench ps 0) port 115200 w = Some (Ok (), w)" by (rule opened_idle)
  with d that show ?thesis by blast
qed

lemma clone_mock:
  assumes "parse pac False = Ok info" "build info = Ok plan" "clonable pac plan" "partitions plan \<noteq> []"
    and "mock_fresh w" "drop_acks (device w) = []" "\<not> corrupt_readback (device w)"
    and "distinct (map fst (flash (device w)))" "disjoint_mem (with_fdl2 pac plan (map_of (flash (device w))))"
    and "list_all2 (\<lambda>e d. length d = unat (entry_size e) \<and>
      holds_at (with_fdl2 pac plan (map_of (flash (device w)))) (entry_address e) d) (partitions plan) images"
  shows "\<exists>w'. clone_pac (mock_bench ps 0) (\<lambda>_. io_return ()) pac (Some port) enter w =
      Some (clone_image pac (zip (partitions plan) images), w') \<and>
    map_of (flash (device w')) = with_fdl2 pac plan (map_of (flash (device w)))"
proof -
  from dump_partitions_mock [OF assms(1,2,5-10), of ps port] obtain w' where
    "dump mock_transport default_options info pac (map (\<lambda>e. (entry_address e, entry_size e)) (partitions plan)) w = Some (Ok images, w')"
    "map_of (flash (device w')) = with_fdl2 pac plan (map_of (flash (device w)))"
    "serial_open (mock_bench ps 0) port 115200 w = Some (Ok (), w)" .
  with assms(1,2,4) show ?thesis
    by (cases "clone_image pac (zip (partitions plan) images)")
      (simp_all add: clone_pac_def resolve_download_port_def serial_mock owning_def io_bind_def io_map_err_def)
qed

section \<open>Properties\<close>

text \<open>C12: cloning into a reference PAC whose partitions follow the table and do not overlap always
  succeeds when every dump has its partition's size: the result has the reference's length and file table, both
  of its CRCs verify, each partition's payload is its dump, and every payload apart from the
  partitions is the reference's.\<close>

theorem golden_pac_is_faithful:
  assumes "parse pac False = Ok info" "build info = Ok plan" "clonable pac plan"
    and "list_all2 (\<lambda>e d. length d = unat (entry_size e)) (partitions plan) dumps"
  shows "\<exists>golden check. clone_image pac (zip (partitions plan) dumps) = Ok golden \<and> length golden = length pac \<and>
    parse golden True = Ok check \<and> crc_ok check \<and> payload_crc_ok check = Some True \<and> entries check = entries info \<and>
    list_all2 (\<lambda>e d. payload e golden = Some d) (partitions plan) dumps \<and>
    (\<forall>e \<in> set (entries info). table_end pac \<le> unat (entry_offset e) \<and>
       (\<forall>p \<in> set (partitions plan). apart (extent e) (extent p)) \<longrightarrow> payload e golden = payload e pac)"
  using assms by (rule clone_image_Ok)

theorem golden_pac_is_faithful_witness:
  "\<exists>golden check. clone_image ref_pac [(ref_file ''AP'' 3 7286 0x60010000, [9, 8, 7])] = Ok golden \<and>
     parse golden True = Ok check \<and> crc_ok check \<and>
     payload (ref_file ''AP'' 3 7286 0x60010000) golden = Some [9, 8, 7]"
proof -
  obtain plan where p: "build (parsed_info ref_pac False (file_table ref_pac)) = Ok plan"
    "partitions plan = [ref_file ''AP'' 3 7286 0x60010000]" "clonable ref_pac plan"
    by (rule ref_plan)
  have "list_all2 (\<lambda>e d. length d = unat (entry_size e)) (partitions plan) [[9, 8, 7]]"
    by (simp add: p(2) ref_file_def)
  from golden_pac_is_faithful [OF ref_parses p(1,3) this] show ?thesis unfolding p(2) by auto
qed

text \<open>C7: cloning a device that answers every message and reads back what it holds writes nothing to it but FDL2
  and yields a PAC that verifies, with the file table of the reference and the device's content in every partition -
  also when the CRCs of the reference do not verify.\<close>

theorem clone_captures_device:
  assumes "parse pac False = Ok info" "build info = Ok plan" "clonable pac plan" "partitions plan \<noteq> []"
    and "mock_fresh w" "drop_acks (device w) = []" "\<not> corrupt_readback (device w)"
    and "distinct (map fst (flash (device w)))" "disjoint_mem (with_fdl2 pac plan (map_of (flash (device w))))"
    and "list_all2 (\<lambda>e d. length d = unat (entry_size e) \<and>
      holds_at (with_fdl2 pac plan (map_of (flash (device w)))) (entry_address e) d) (partitions plan) images"
  shows "\<exists>golden check w'. clone_pac (mock_bench ps 0) (\<lambda>_. io_return ()) pac (Some port) enter w = Some (Ok golden, w') \<and>
    parse golden True = Ok check \<and> crc_ok check \<and> entries check = entries info \<and>
    list_all2 (\<lambda>e d. payload e golden = Some d) (partitions plan) images \<and>
    map_of (flash (device w')) = with_fdl2 pac plan (map_of (flash (device w)))"
proof -
  have "list_all2 (\<lambda>e d. length d = unat (entry_size e)) (partitions plan) images"
    using assms(10) by (rule list_all2_mono) simp
  from clone_image_Ok [OF assms(1-3) this] clone_mock [OF assms, of ps port enter] show ?thesis by auto
qed

theorem clone_captures_device_witness:
  "\<exists>golden check w'. clone_pac (mock_bench [] 0) (\<lambda>_. io_return ()) ref_pac (Some (str ''COM7'')) False
      (world (seeded [(0x60010000, [9, 8, 7])])) = Some (Ok golden, w') \<and>
     parse golden True = Ok check \<and> crc_ok check \<and>
     payload (ref_file ''AP'' 3 7286 0x60010000) golden = Some [9, 8, 7]"
proof -
  let ?w = "world (seeded [(0x60010000, [9, 8, 7])])"
  obtain plan where p: "build (parsed_info ref_pac False (file_table ref_pac)) = Ok plan"
    "partitions plan = [ref_file ''AP'' 3 7286 0x60010000]" "fdl2 plan = None" "clonable ref_pac plan"
    by (rule ref_plan)
  have w: "mock_fresh ?w" "drop_acks (device ?w) = []" "\<not> corrupt_readback (device ?w)"
    "flash (device ?w) = [(0x60010000, [9, 8, 7])]"
    by (simp_all add: mock_fresh_def pdl_idle_def world_simps seeded_def)
  have m: "with_fdl2 ref_pac plan (map_of (flash (device ?w))) = [0x60010000 \<mapsto> [9, 8, 7]]"
    by (simp add: with_fdl2_def p(3) w(4))
  have "holds_at [0x60010000 \<mapsto> [9, 8, 7]] 0x60010000 [9, 8, 7]" by (rule holds_at_block) simp
  then have "list_all2 (\<lambda>e d. length d = unat (entry_size e) \<and>
      holds_at (with_fdl2 ref_pac plan (map_of (flash (device ?w)))) (entry_address e) d) (partitions plan) [[9, 8, 7]]"
    unfolding m p(2) by (simp add: ref_file_def)
  moreover have "disjoint_mem (with_fdl2 ref_pac plan (map_of (flash (device ?w))))"
    unfolding m by (rule disjoint_mem_single) simp
  moreover have "partitions plan \<noteq> []" "distinct (map fst (flash (device ?w)))" by (simp_all add: p(2) w(4))
  ultimately have "\<exists>golden check w'. clone_pac (mock_bench [] 0) (\<lambda>_. io_return ()) ref_pac (Some (str ''COM7'')) False ?w = Some (Ok golden, w') \<and>
    parse golden True = Ok check \<and> crc_ok check \<and>
    entries check = entries (parsed_info ref_pac False (file_table ref_pac)) \<and>
    list_all2 (\<lambda>e d. payload e golden = Some d) (partitions plan) [[9, 8, 7]] \<and>
    map_of (flash (device w')) = with_fdl2 ref_pac plan (map_of (flash (device ?w)))"
    using w(1-3) by (intro clone_captures_device [OF ref_parses p(1,4)])
  then show ?thesis unfolding p(2) by auto
qed

text \<open>C17: dumping a device that answers every message and reads back what it holds hands the caller one file per
  partition of the PAC, named by its file id and holding the device's bytes of that partition, after a session that wrote nothing
  but FDL2; what the command returns is what writing these files returns.\<close>

theorem dump_writes_partition_files:
  assumes "parse pac False = Ok info" "build info = Ok plan" "partitions plan \<noteq> []"
    and "mock_fresh w" "drop_acks (device w) = []" "\<not> corrupt_readback (device w)"
    and "distinct (map fst (flash (device w)))" "disjoint_mem (with_fdl2 pac plan (map_of (flash (device w))))"
    and "list_all2 (\<lambda>e d. length d = unat (entry_size e) \<and>
      holds_at (with_fdl2 pac plan (map_of (flash (device w)))) (entry_address e) d) (partitions plan) images"
  shows "\<exists>w'. dump_pac (mock_bench ps 0) (io_return ()) store pac [] False (Some port) enter w =
      store (map2 (\<lambda>e d. (file_id e @ str ''.bin'', d)) (partitions plan) images) w' \<and>
    map_of (flash (device w')) = with_fdl2 pac plan (map_of (flash (device w)))"
proof -
  from dump_partitions_mock [OF assms(1,2,4-9), of ps port] obtain w' where
    d: "dump mock_transport default_options info pac (map (\<lambda>e. (entry_address e, entry_size e)) (partitions plan)) w = Some (Ok images, w')"
    "map_of (flash (device w')) = with_fdl2 pac plan (map_of (flash (device w)))"
    "serial_open (mock_bench ps 0) port 115200 w = Some (Ok (), w)" .
  let ?targets = "map (\<lambda>e. (file_id e, entry_address e, entry_size e)) (partitions plan)"
  have targets: "dump_targets info [] = Ok ?targets" using assms(2,3) by (simp add: dump_targets_def)
  have regions: "map (\<lambda>(_, a, s). (a, s)) ?targets = map (\<lambda>e. (entry_address e, entry_size e)) (partitions plan)"
    by (simp add: comp_def)
  have files: "map (\<lambda>((name, _, _), data). (name @ str ''.bin'', data)) (zip ?targets images) =
      map2 (\<lambda>e d. (file_id e @ str ''.bin'', d)) (partitions plan) images"
    by (simp add: zip_map1 split_def comp_def)
  have own: "owning (mock_bench ps 0) port act v = act v" for act :: "(unit, cli_error, mock_world) io" and v
    by (simp add: owning_def split: option.splits)
  have opened: "io_bind (io_map_err CliOpen (serial_open (mock_bench ps 0) port 115200)) f w = f () w"
    for f :: "unit \<Rightarrow> (unit, cli_error, mock_world) io"
    using d(3) by (simp add: io_map_err_def io_bind_def)
  have dumped: "io_bind (io_map_err CliFlash (dump (serial (mock_bench ps 0) port) default_options info pac
      (map (\<lambda>(_, a, s). (a, s)) ?targets))) f w = f images w'" for f :: "u8 list list \<Rightarrow> (unit, cli_error, mock_world) io"
    unfolding regions serial_mock using d(1) by (simp add: io_map_err_def io_bind_def)
  have bind: "io_bind (io_return x) f v = f x v" for x :: 'b and f :: "'b \<Rightarrow> ('c, cli_error, mock_world) io" and v
    by (simp add: io_bind_def)
  have port: "resolve_download_port (mock_bench ps 0) (Some port) enter = io_return port"
    by (simp add: resolve_download_port_def)
  have "dump_pac (mock_bench ps 0) (io_return ()) store pac [] False (Some port) enter w =
      store (map2 (\<lambda>e d. (file_id e @ str ''.bin'', d)) (partitions plan) images) w'"
    by (simp only: dump_pac_def assms(1) map_err_simps io_lift_bind bind port opened own if_False targets
        dumped files)
  with d(2) show ?thesis by blast
qed

theorem dump_writes_partition_files_witness:
  "\<exists>w'. dump_pac (mock_bench [] 0) (io_return ()) (\<lambda>files w. Some (Err (CliWriteFile (fst (hd files))), w)) ref_pac [] False
      (Some (str ''COM7'')) False (world (seeded [(0x60010000, [9, 8, 7])])) = Some (Err (CliWriteFile (str ''AP.bin'')), w')"
proof -
  let ?w = "world (seeded [(0x60010000, [9, 8, 7])])"
  obtain plan where p: "build (parsed_info ref_pac False (file_table ref_pac)) = Ok plan"
    "partitions plan = [ref_file ''AP'' 3 7286 0x60010000]" "fdl2 plan = None" "clonable ref_pac plan"
    by (rule ref_plan)
  have w: "mock_fresh ?w" "drop_acks (device ?w) = []" "\<not> corrupt_readback (device ?w)"
    "flash (device ?w) = [(0x60010000, [9, 8, 7])]"
    by (simp_all add: mock_fresh_def pdl_idle_def world_simps seeded_def)
  have m: "with_fdl2 ref_pac plan (map_of (flash (device ?w))) = [0x60010000 \<mapsto> [9, 8, 7]]"
    by (simp add: with_fdl2_def p(3) w(4))
  have "holds_at [0x60010000 \<mapsto> [9, 8, 7]] 0x60010000 [9, 8, 7]" by (rule holds_at_block) simp
  then have held: "list_all2 (\<lambda>e d. length d = unat (entry_size e) \<and>
      holds_at (with_fdl2 ref_pac plan (map_of (flash (device ?w)))) (entry_address e) d) (partitions plan) [[9, 8, 7]]"
    unfolding m p(2) by (simp add: ref_file_def)
  have apart: "disjoint_mem (with_fdl2 ref_pac plan (map_of (flash (device ?w))))"
    unfolding m by (rule disjoint_mem_single) simp
  have "partitions plan \<noteq> []" and d: "distinct (map fst (flash (device ?w)))" by (simp_all add: p(2) w(4))
  from dump_writes_partition_files [OF ref_parses p(1) this(1) w(1-3) d apart held, of "[]"
      "\<lambda>files w. Some (Err (CliWriteFile (fst (hd files))), w)" "str ''COM7''" False]
  show ?thesis unfolding p(2) by (auto simp: ref_file_def)
qed

end
