(* ===== verification/Retry.thy ===== *)
theory Retry
  imports Cli Station_Units
begin

text \<open>
  The automatic retry of \<open>flash_with_recovery\<close> against its specification: one attempt and, after a
  failed PDL handshake, a reset and one last attempt.
\<close>

text \<open>A flash attempt whose errors are final.\<close>

definition flash_once ::
    "'w bench \<Rightarrow> flash_options \<Rightarrow> rust_string option \<Rightarrow> bool \<Rightarrow> pac_info \<Rightarrow> u8 list \<Rightarrow> (flash_outcome, cli_error, 'w) io"
where
  "flash_once B opts explicit enter info pac =
     io_bind (resolve_download_port B explicit enter) (\<lambda>port.
     io_bind (io_map_err CliOpen (serial_open B port 115200)) (\<lambda>_.
       owning B port (io_map_err CliFlash (run (serial B port) opts info pac))))"

definition is_pdl_failure :: "flash_error \<Rightarrow> bool" where
  "is_pdl_failure e \<longleftrightarrow> (case e of FlashPdl x \<Rightarrow> True | _ \<Rightarrow> False)"

lemma flash_attempts_last: "flash_attempts B 1 1 opts explicit enter info pac = flash_once B opts explicit enter info pac"
proof
  fix w
  have "flash_attempts B 1 (Suc 0) opts explicit enter info pac w = flash_once B opts explicit enter info pac w"
    unfolding flash_attempts.simps flash_once_def owning_def io_map_err_def
    by (intro io_bind_cong refl) (auto split: option.splits result.splits flash_error.splits)
  then show "flash_attempts B 1 1 opts explicit enter info pac w = flash_once B opts explicit enter info pac w" by simp
qed

text \<open>Flashing with recovery is one attempt, followed, only when its run failed in the PDL
  handshake, by a reset, the wait for the module and one last attempt whose outcome stands: a third attempt,
  and the \<open>unreachable!\<close> after the loop, never happen.\<close>

lemma flash_retries_once:
  assumes "resolve_download_port B explicit enter w = Some (Ok port, w0)" "serial_open B port 115200 w0 = Some (Ok (), w1)"
    and "run (serial B port) opts info pac w1 = Some (r, w2)"
  shows "flash_with_recovery B opts explicit enter info pac w =
    (case r of
       Err e \<Rightarrow>
         (if is_pdl_failure e
          then io_bind (reset_and_wait B port) (\<lambda>_. flash_once B opts explicit enter info pac) w2
          else Some (Err (CliFlash e), os_close B port w2))
     | Ok out \<Rightarrow> Some (Ok out, os_close B port w2)
     | Panic \<Rightarrow> Some (Panic, os_close B port w2))"
proof -
  have "flash_with_recovery B opts explicit enter info pac w = flash_attempts B 0 (Suc (Suc 0)) opts explicit enter info pac w"
    by (simp only: flash_with_recovery_def numeral_2_eq_2)
  also have "\<dots> = (case r of
       Err e \<Rightarrow>
         (if is_pdl_failure e
          then io_bind (reset_and_wait B port) (\<lambda>_. flash_once B opts explicit enter info pac) w2
          else Some (Err (CliFlash e), os_close B port w2))
     | Ok out \<Rightarrow> Some (Ok out, os_close B port w2)
     | Panic \<Rightarrow> Some (Panic, os_close B port w2))"
    unfolding flash_attempts.simps(2) [of B 0 "Suc 0"] add_0 flash_attempts_last [unfolded One_nat_def]
    using assms
    by (cases r) (auto simp: is_pdl_failure_def io_map_err_def io_bind_def One_nat_def
        flash_attempts_last [unfolded One_nat_def] simp del: flash_attempts.simps split: flash_error.splits)
  finally show ?thesis .
qed

end
