(* ===== verification/Line_Runs.thy ===== *)
theory Line_Runs
  imports Line Station_Units
begin

text \<open>
  What the runs of a line keep: the counters, the sink and the recent records against the units
  that ended, whatever the interleaving; the end of a run, and what is left of it once the stop
  flag is set.
\<close>

section \<open>The units of a run\<close>

fun ran :: "line_event \<Rightarrow> unit_record list" where
  "ran (Ran i (Ok rec)) = [rec]"
| "ran _ = []"

fun put :: "line_event \<Rightarrow> unit_record list" where
  "put (Stored i rec) = [rec]"
| "put _ = []"

fun wrote :: "bool \<Rightarrow> line_event \<Rightarrow> unit_record list" where
  "wrote b (Logged i rec written) = (if written = b then [rec] else [])"
| "wrote b _ = []"

fun ran_at :: "nat \<Rightarrow> line_event \<Rightarrow> bool" where
  "ran_at i (Ran j r) \<longleftrightarrow> i = j"
| "ran_at i _ \<longleftrightarrow> False"

definition units :: "line_event list \<Rightarrow> unit_record list" where "units evs = concat (map ran evs)"
definition stored :: "line_event list \<Rightarrow> unit_record list" where "stored evs = concat (map put evs)"
definition written :: "bool \<Rightarrow> line_event list \<Rightarrow> unit_record list" where "written b evs = concat (map (wrote b) evs)"
definition tries_of :: "nat \<Rightarrow> line_event list \<Rightarrow> nat" where "tries_of i evs = length (filter (ran_at i) evs)"

lemma trace_simps [simp]:
  "units [] = []" "units (evs @ [e]) = units evs @ ran e"
  "stored [] = []" "stored (evs @ [e]) = stored evs @ put e"
  "written b [] = []" "written b (evs @ [e]) = written b evs @ wrote b e"
  "tries_of i [] = 0" "tries_of i (evs @ [e]) = tries_of i evs + of_bool (ran_at i e)"
  by (simp_all add: units_def stored_def written_def tries_of_def)

section \<open>What a phase still owes\<close>

text \<open>The amount for counter \<open>c\<close> not yet added, the record not yet written, not yet stored.\<close>

fun to_count :: "nat \<Rightarrow> phase \<Rightarrow> u64" where
  "to_count c (Counting k rec) = (if k \<le> step_of c then amounts rec ! c else 0)"
| "to_count c _ = 0"

fun to_write :: "phase \<Rightarrow> unit_record multiset" where
  "to_write (Counting k rec) = {#rec#}"
| "to_write (Logging rec) = {#rec#}"
| "to_write _ = {#}"

fun to_store :: "phase \<Rightarrow> unit_record multiset" where
  "to_store (Counting k rec) = {#rec#}"
| "to_store (Logging rec) = {#rec#}"
| "to_store (Storing rec) = {#rec#}"
| "to_store _ = {#}"

lemma sum_list_update_map:
  fixes f :: "'a \<Rightarrow> 'b :: comm_monoid_add"
  shows "i < length xs \<Longrightarrow> sum_list (map f (xs[i := p])) + f (xs ! i) = sum_list (map f xs) + f p"
proof (induction xs arbitrary: i)
  case (Cons x xs)
  show ?case
  proof (cases i)
    case (Suc j)
    with Cons.IH [of j] Cons.prems show ?thesis by (simp add: ac_simps)
  qed (simp add: ac_simps)
qed simp

lemma sum_list_zeros [simp]: "sum_list (replicate n (0 :: 'b :: comm_monoid_add)) = 0"
  by (induction n) simp_all

lemma owed_step:
  fixes f :: "'a \<Rightarrow> 'b :: cancel_comm_monoid_add"
  assumes "i < length xs" "a + sum_list (map f xs) = t" "a' + f p + t = a + f (xs ! i) + t'"
  shows "a' + sum_list (map f (xs[i := p])) = t'"
proof -
  have "(a' + sum_list (map f (xs[i := p]))) + (f (xs ! i) + t) = a' + (sum_list (map f (xs[i := p])) + f (xs ! i)) + t"
    by (simp add: ac_simps)
  also have "\<dots> = (a' + f p + t) + sum_list (map f xs)"
    unfolding sum_list_update_map [OF assms(1)] by (simp add: ac_simps)
  also have "\<dots> = t' + (f (xs ! i) + (a + sum_list (map f xs)))"
    unfolding assms(3) by (simp add: ac_simps)
  also have "\<dots> = t' + (f (xs ! i) + t)" by (simp only: assms(2))
  finally show ?thesis by (rule add_right_imp_eq)
qed

section \<open>The accounts of a run\<close>

definition recent_tail :: "bool \<Rightarrow> unit_record list \<Rightarrow> unit_record list" where
  "recent_tail endless rs = (if endless then drop (length rs - RECENT_KEEP) rs else rs)"

lemma push_recent_tail: "push_recent endless rec (recent_tail endless rs) = recent_tail endless (rs @ [rec])"
  by (cases "RECENT_KEEP \<le> length rs") (auto simp: push_recent_def recent_tail_def Let_def Suc_diff_le)

definition accounts :: "line_config \<Rightarrow> unit_record list option \<Rightarrow> line_event list \<Rightarrow> line_state \<Rightarrow> bool" where
  "accounts cfg sink0 evs s \<longleftrightarrow>
     length (ls_phases s) = length (ln_stations cfg) \<and>
     (\<forall>k rec. Counting k rec \<in> set (ls_phases s) \<longrightarrow> k < COUNT_STEPS) \<and>
     (\<forall>c < 5. counters (ls_metrics s) ! c + sum_list (map (to_count c) (ls_phases s)) =
        sum_list (map (\<lambda>rec. amounts rec ! c) (units evs))) \<and>
     mset (written True evs @ written False evs) + sum_list (map to_write (ls_phases s)) = mset (units evs) \<and>
     mset (stored evs) + sum_list (map to_store (ls_phases s)) = mset (units evs) \<and>
     ls_sink s = map_option (\<lambda>f. f @ written True evs) sink0 \<and>
     ls_recent s = recent_tail (ln_continuous cfg) (stored evs)"

lemma phase_at_Some [simp]: "phase_at s i = Some p \<longleftrightarrow> i < length (ls_phases s) \<and> ls_phases s ! i = p"
  by (auto simp: phase_at_def)

lemma goto_simps [simp]:
  "ls_phases (goto i p s) = (ls_phases s)[i := p]" "ls_metrics (goto i p s) = ls_metrics s"
  "ls_sink (goto i p s) = ls_sink s" "ls_recent (goto i p s) = ls_recent s" "ls_stop (goto i p s) = ls_stop s"
  "ls_aborted (goto i p s) = ls_aborted s"
  by (simp_all add: goto_def)

lemma accounts_init: "accounts cfg sink0 [] (line_init cfg t sink0)"
  by (auto simp: accounts_def line_init_def map_replicate_const recent_tail_def
      counters_def metrics_default_def less_Suc_eq numeral_eq_Suc option.map_ident)

text \<open>A step of station \<open>i\<close> to phase \<open>p\<close>.\<close>

lemma accounts_goto:
  assumes "accounts cfg sink0 evs s" "i < length (ls_phases s)" "s' = goto i p s1" "ls_phases s1 = ls_phases s"
    and "\<And>k rec. p = Counting k rec \<Longrightarrow> k < COUNT_STEPS"
    and "\<And>c. c < 5 \<Longrightarrow> counters (ls_metrics s1) ! c + to_count c p =
      counters (ls_metrics s) ! c + to_count c (ls_phases s ! i) + sum_list (map (\<lambda>rec. amounts rec ! c) (ran e))"
    and "mset (wrote True e) + mset (wrote False e) + to_write p = to_write (ls_phases s ! i) + mset (ran e)"
    and "mset (put e) + to_store p = to_store (ls_phases s ! i) + mset (ran e)"
    and "ls_sink s1 = map_option (\<lambda>f. f @ wrote True e) (ls_sink s)"
    and "ls_recent s1 = recent_tail (ln_continuous cfg) (stored evs @ put e)"
  shows "accounts cfg sink0 (evs @ [e]) s'"
  unfolding accounts_def
proof (intro conjI allI impI)
  note a = assms(1) [unfolded accounts_def]
  show "length (ls_phases s') = length (ln_stations cfg)" using a assms(3,4) by simp
  show "k < COUNT_STEPS" if "Counting k rec \<in> set (ls_phases s')" for k rec
  proof -
    have "p = Counting k rec \<or> Counting k rec \<in> set (ls_phases s)"
      using that assms(3,4) subsetD [OF set_update_subset_insert [of "ls_phases s" i p]] by fastforce
    with a assms(5) show ?thesis by blast
  qed
  show "counters (ls_metrics s') ! c + sum_list (map (to_count c) (ls_phases s')) =
        sum_list (map (\<lambda>rec. amounts rec ! c) (units (evs @ [e])))" if "c < 5" for c
  proof -
    have "counters (ls_metrics s) ! c + sum_list (map (to_count c) (ls_phases s)) =
        sum_list (map (\<lambda>rec. amounts rec ! c) (units evs))" using a that by blast
    from owed_step [OF assms(2) this, of "counters (ls_metrics s') ! c" p] assms(6) [OF that] assms(3,4)
    show ?thesis by (simp add: ac_simps)
  qed
  show "mset (written True (evs @ [e]) @ written False (evs @ [e])) + sum_list (map to_write (ls_phases s')) =
      mset (units (evs @ [e]))"
  proof -
    have "mset (written True evs @ written False evs) + sum_list (map to_write (ls_phases s)) = mset (units evs)"
      using a by blast
    from owed_step [OF assms(2) this, of "mset (written True (evs @ [e]) @ written False (evs @ [e]))" p] assms(3,4,7)
    show ?thesis by (simp add: ac_simps)
  qed
  show "mset (stored (evs @ [e])) + sum_list (map to_store (ls_phases s')) = mset (units (evs @ [e]))"
  proof -
    have "mset (stored evs) + sum_list (map to_store (ls_phases s)) = mset (units evs)" using a by blast
    from owed_step [OF assms(2) this, of "mset (stored (evs @ [e]))" p] assms(3,4,8)
    show ?thesis by (simp add: ac_simps)
  qed
  show "ls_sink s' = map_option (\<lambda>f. f @ written True (evs @ [e])) sink0"
    using a assms(3,9) by (simp add: option.map_comp comp_def)
  show "ls_recent s' = recent_tail (ln_continuous cfg) (stored (evs @ [e]))" using assms(3,10) by simp
qed

lemma step_of_less: "c < 5 \<Longrightarrow> step_of c < COUNT_STEPS"
  by (simp add: step_of_def COUNT_STEPS_def)

lemma accounts_abort:
  assumes "accounts cfg sink0 evs s" "ran e = []" "put e = []" "wrote True e = []" "wrote False e = []"
  shows "accounts cfg sink0 (evs @ [e]) (s\<lparr>ls_aborted := b\<rparr>)" "accounts cfg sink0 (evs @ [e]) (s\<lparr>ls_stop := b\<rparr>)"
  using assms unfolding accounts_def by simp_all

lemma accounts_step:
  assumes "accounts cfg sink0 evs s" "line_step cfg e s = Some s'"
  shows "accounts cfg sink0 (evs @ [e]) s'"
proof -
  note a = assms(1)
  have recent: "ls_recent s = recent_tail (ln_continuous cfg) (stored evs)" using a by (simp add: accounts_def)
  have st: "line_event_step cfg e s = Some s'" using assms(2) by (simp add: line_step_def split: if_splits)
  show ?thesis
  proof (cases e)
    case (Ran i r)
    show ?thesis
    proof (cases r)
      case (Ok rec)
      with st Ran have i: "i < length (ls_phases s)" "ls_phases s ! i = Working" "s' = goto i (Counting 0 rec) s"
        by (auto split: if_splits)
      show ?thesis
        by (rule accounts_goto [OF a i(1,3)])
          (simp_all add: Ran Ok i(2) recent option.map_ident COUNT_STEPS_def)
    next
      case (Err x)
      with st a Ran show ?thesis by (auto simp add: accounts_abort split: if_splits)
    next
      case Panic
      with st a Ran show ?thesis by (auto simp add: accounts_abort split: if_splits)
    qed
  next
    case (Counted i)
    with st obtain k rec where i: "i < length (ls_phases s)" "ls_phases s ! i = Counting k rec"
      "s' = goto i (if k + 1 < COUNT_STEPS then Counting (k + 1) rec else Logging rec)
        (s\<lparr>ls_metrics := count_step k rec (ls_metrics s)\<rparr>)"
      by (auto split: option.splits phase.splits)
    then have k: "k < COUNT_STEPS" using a unfolding accounts_def by (metis nth_mem)
    show ?thesis
    proof (rule accounts_goto [OF a i(1,3)])
      fix c :: nat
      assume c: "c < 5"
      let ?p = "if k + 1 < COUNT_STEPS then Counting (k + 1) rec else Logging rec"
      have "to_count c ?p = (if k < step_of c then amounts rec ! c else 0)"
        using step_of_less [OF c] k by auto
      then show "counters (ls_metrics (s\<lparr>ls_metrics := count_step k rec (ls_metrics s)\<rparr>)) ! c + to_count c ?p =
          counters (ls_metrics s) ! c + to_count c (ls_phases s ! i) + sum_list (map (\<lambda>rec. amounts rec ! c) (ran e))"
        using counter_step [OF c k, of rec "ls_metrics s"] by (auto simp: i(2) Counted)
    qed (auto simp: i(2) Counted recent option.map_ident split: if_splits)
  next
    case (Logged i rec b)
    with st have i: "i < length (ls_phases s)" "ls_phases s ! i = Logging rec"
      "s' = goto i (Storing rec)
        (s\<lparr>ls_sink := (if b then map_option (\<lambda>f. f @ [rec]) (ls_sink s) else ls_sink s)\<rparr>)"
      by (auto split: if_splits)
    show ?thesis
      by (rule accounts_goto [OF a i(1,3)]) (simp_all add: Logged i(2) recent option.map_ident)
  next
    case (Stored i rec)
    with st have i: "i < length (ls_phases s)" "ls_phases s ! i = Storing rec"
      "s' = goto i Deciding (s\<lparr>ls_recent := push_recent (ln_continuous cfg) rec (ls_recent s)\<rparr>)"
      by (auto split: if_splits)
    show ?thesis
      by (rule accounts_goto [OF a i(1,3)]) (simp_all add: Stored i(2) recent push_recent_tail option.map_ident)
  next
    case (Decided i)
    with st have i: "i < length (ls_phases s)" "ls_phases s ! i = Deciding"
      "s' = goto i (if \<not> ln_continuous cfg \<or> ls_stop s then Finished else Waiting) s"
      by (auto split: if_splits)
    show ?thesis
      by (rule accounts_goto [OF a i(1,3)]) (auto simp: Decided i(2) recent option.map_ident split: if_splits)
  next
    case (Resumed i)
    with st have i: "i < length (ls_phases s)" "ls_phases s ! i = Waiting" "s' = goto i Working s"
      by (auto split: if_splits)
    show ?thesis
      by (rule accounts_goto [OF a i(1,3)]) (simp_all add: Resumed i(2) recent option.map_ident)
  next
    case Stop
    with st a show ?thesis by (auto simp add: accounts_abort)
  qed
qed

lemma accounts_runs: "line_runs B cfg job (line_init cfg t sink0) evs s \<Longrightarrow> accounts cfg sink0 evs s"
  by (induction rule: line_runs.induct) (auto simp: accounts_init intro: accounts_step)

section \<open>How many units a station runs\<close>

text \<open>The units a station may still start once it may not wait again; none after an abort.\<close>

fun starts_left :: "phase \<Rightarrow> nat" where
  "starts_left Working = 1"
| "starts_left Waiting = 1"
| "starts_left _ = 0"

text \<open>The events a station has left before it finishes, when it may not wait again.\<close>

fun rank :: "phase \<Rightarrow> nat" where
  "rank Waiting = 10"
| "rank Working = 9"
| "rank (Counting k rec) = 4 + (COUNT_STEPS - k)"
| "rank (Logging rec) = 3"
| "rank (Storing rec) = 2"
| "rank Deciding = 1"
| "rank Finished = 0"

definition line_rank :: "line_state \<Rightarrow> nat" where
  "line_rank s = (if ls_aborted s then 0 else 1 + sum_list (map rank (ls_phases s)))"

text \<open>Every event but \<open>Stop\<close> is a step of one station, or the abort.\<close>

definition last_units :: "line_config \<Rightarrow> line_state \<Rightarrow> bool" where
  "last_units cfg s \<longleftrightarrow> \<not> ln_continuous cfg \<or> ls_stop s"

lemma line_step_cases:
  assumes "line_step cfg e s = Some s'" "e \<noteq> Stop"
  obtains (goto) i p where "\<not> ls_aborted s" "i < length (ls_phases s)" "ls_phases s' = (ls_phases s)[i := p]"
      "\<not> ls_aborted s'" "ls_stop s' = ls_stop s"
      "last_units cfg s \<Longrightarrow> rank p < rank (ls_phases s ! i)"
      "last_units cfg s \<Longrightarrow> of_bool (ran_at i e) + starts_left p \<le> starts_left (ls_phases s ! i)"
      "\<And>j. ran_at j e \<Longrightarrow> j = i" "length (ran e) = of_bool (ran_at i e)"
      "p = Working \<or> p = Waiting \<or> ran_at i e \<or> ls_phases s ! i \<notin> {Working, Waiting}"
      "p = Working \<Longrightarrow> ls_phases s ! i = Waiting" "p = Waiting \<Longrightarrow> ls_phases s ! i = Deciding"
  | (abort) i where "\<not> ls_aborted s" "s' = s\<lparr>ls_aborted := True\<rparr>" "i < length (ls_phases s)"
      "ls_phases s ! i = Working" "\<And>j. ran_at j e \<Longrightarrow> j = i"
proof -
  have ok: "\<not> ls_aborted s" and st: "line_event_step cfg e s = Some s'"
    using assms(1) by (simp_all add: line_step_def split: if_splits)
  show ?thesis
  proof (cases e)
    case (Ran i r)
    show ?thesis
    proof (cases r)
      case (Ok rec)
      with st Ran ok show ?thesis by (intro goto [of i "Counting 0 rec"]) (auto simp: COUNT_STEPS_def split: if_splits)
    next
      case (Err x)
      with st Ran ok show ?thesis by (intro abort [of i]) (auto split: if_splits)
    next
      case Panic
      with st Ran ok show ?thesis by (intro abort [of i]) (auto split: if_splits)
    qed
  next
    case (Counted i)
    with st obtain k rec where "i < length (ls_phases s)" "ls_phases s ! i = Counting k rec"
      "s' = goto i (if k + 1 < COUNT_STEPS then Counting (k + 1) rec else Logging rec)
        (s\<lparr>ls_metrics := count_step k rec (ls_metrics s)\<rparr>)"
      by (auto split: option.splits phase.splits)
    with Counted ok show ?thesis
      by (intro goto [of i "if k + 1 < COUNT_STEPS then Counting (k + 1) rec else Logging rec"]) (auto split: if_splits)
  next
    case (Logged i rec b)
    with st ok show ?thesis by (intro goto [of i "Storing rec"]) (auto split: if_splits)
  next
    case (Stored i rec)
    with st ok show ?thesis by (intro goto [of i Deciding]) (auto split: if_splits)
  next
    case (Decided i)
    with st ok show ?thesis
      by (intro goto [of i "if \<not> ln_continuous cfg \<or> ls_stop s then Finished else Waiting"])
        (auto simp: last_units_def split: if_splits)
  next
    case (Resumed i)
    with st ok show ?thesis by (intro goto [of i Working]) (auto split: if_splits)
  qed (use assms(2) in simp)
qed

lemma line_rank_step:
  assumes "line_step cfg e s = Some s'" "e \<noteq> Stop" "last_units cfg s"
  shows "line_rank s' < line_rank s"
  using assms(1,2)
proof (cases rule: line_step_cases)
  case (goto i p)
  have "sum_list (map rank ((ls_phases s)[i := p])) + rank (ls_phases s ! i) = sum_list (map rank (ls_phases s)) + rank p"
    by (rule sum_list_update_map [OF goto(2)])
  with goto(1,3,4) goto(6) [OF assms(3)] show ?thesis by (simp add: line_rank_def)
qed (simp add: line_rank_def)

lemma last_units_step:
  assumes "last_units cfg s" "line_step cfg e s = Some s'"
  shows "last_units cfg s'"
proof (cases "e = Stop")
  case True
  with assms show ?thesis by (auto simp: last_units_def line_step_def split: if_splits)
next
  case False
  from assms(2) this show ?thesis by (cases rule: line_step_cases) (use assms(1) in \<open>auto simp: last_units_def\<close>)
qed

definition left_at :: "nat \<Rightarrow> line_state \<Rightarrow> nat" where
  "left_at i s = (if ls_aborted s \<or> length (ls_phases s) \<le> i then 0 else starts_left (ls_phases s ! i))"

lemma left_at_step:
  assumes "line_step cfg e s = Some s'" "last_units cfg s"
  shows "of_bool (ran_at i e) + left_at i s' \<le> left_at i s"
proof (cases "e = Stop")
  case True
  with assms show ?thesis by (auto simp: left_at_def line_step_def split: if_splits)
next
  case False
  from assms(1) this show ?thesis
  proof (cases rule: line_step_cases)
    case (goto k p)
    show ?thesis
    proof (cases "i = k")
      case True
      with goto goto(7) [OF assms(2)] show ?thesis by (simp add: left_at_def)
    next
      case False
      with goto(8) have "\<not> ran_at i e" by blast
      with goto False show ?thesis by (simp add: left_at_def)
    qed
  next
    case (abort k)
    then show ?thesis by (cases "ran_at i e") (auto simp: left_at_def)
  qed
qed

lemma line_runs_length: "line_runs B cfg job s0 evs s \<Longrightarrow> length (ls_phases s) = length (ls_phases s0)"
proof (induction rule: line_runs.induct)
  case (step evs s e s')
  show ?case
  proof (cases "e = Stop")
    case True
    with step show ?thesis by (auto simp: line_step_def split: if_splits)
  next
    case False
    from step(3) this show ?thesis by (cases rule: line_step_cases) (use step.IH in auto)
  qed
qed simp

text \<open>From a state in which no station waits again: few events are left, and at most one unit per
  station.\<close>

lemma last_units_runs:
  assumes "line_runs B cfg job s0 evs s" "last_units cfg s0"
  shows "last_units cfg s \<and> length (filter (\<lambda>e. e \<noteq> Stop) evs) + line_rank s \<le> line_rank s0 \<and>
    tries_of i evs + left_at i s \<le> left_at i s0"
  using assms
proof (induction rule: line_runs.induct)
  case (step evs s e s')
  then have last: "last_units cfg s" by blast
  have "line_rank s' \<le> line_rank s" if "e = Stop"
    using step.hyps(3) that by (auto simp: line_step_def line_rank_def split: if_splits)
  moreover have "line_rank s' < line_rank s" if "e \<noteq> Stop" using line_rank_step [OF step.hyps(3) that last] .
  ultimately show ?case
    using step.IH step.prems left_at_step [OF step.hyps(3) last, of i] last_units_step [OF last step.hyps(3)]
    by (cases "e = Stop") auto
qed simp

text \<open>On a bench on which time passes, a line that is not over can go on.\<close>

lemma line_goes_on:
  assumes "live_bench B live pending" "live w" "\<not> line_over s" "length (ls_phases s) = length (ln_stations cfg)"
  shows "\<exists>e s'. e \<noteq> Stop \<and> may_happen B cfg job e \<and> line_step cfg e s = Some s'"
proof -
  obtain i where i: "i < length (ls_phases s)" "ls_phases s ! i \<noteq> Finished" "\<not> ls_aborted s"
    using assms(3) by (auto simp: line_over_def in_set_conv_nth)
  obtain r w' where r: "run_unit B (ln_stations cfg ! i) job w = Some (r, w')"
    using io_totalD [OF live_bench.total_run_unit [OF assms(1)] assms(2)] by blast
  define e where "e = (case ls_phases s ! i of Working \<Rightarrow> Ran i r | Counting k rec \<Rightarrow> Counted i
    | Logging rec \<Rightarrow> Logged i rec False | Storing rec \<Rightarrow> Stored i rec | Deciding \<Rightarrow> Decided i | Waiting \<Rightarrow> Resumed i
    | Finished \<Rightarrow> Stop)"
  have "e \<noteq> Stop" "may_happen B cfg job e" using i r assms(4) by (auto simp: e_def split: phase.splits)
  moreover have "line_step cfg e s \<noteq> None"
    using i by (cases "ls_phases s ! i"; cases r) (simp_all add: e_def line_step_def phase_at_def)
  ultimately show ?thesis by blast
qed

text \<open>The two together, for the stations of a line.\<close>

lemma line_runs_out:
  assumes "live_bench B live pending" "live w" "length (ls_phases s0) = length (ln_stations cfg)"
    and "ls_stop s0 \<or> \<not> ln_continuous cfg" "line_runs B cfg job s0 evs s"
  shows "length (filter (\<lambda>e. e \<noteq> Stop) evs) \<le> 10 * length (ln_stations cfg) + 1 \<and>
    tries_of i evs \<le> 1 \<and>
    (\<not> line_over s \<longrightarrow> (\<exists>e s'. e \<noteq> Stop \<and> may_happen B cfg job e \<and> line_step cfg e s = Some s'))"
proof -
  have last: "last_units cfg s0" using assms(4) by (auto simp: last_units_def)
  have "rank p \<le> 10" for p by (cases p) (simp_all add: COUNT_STEPS_def)
  then have "sum_list (map rank ps) \<le> 10 * length ps" for ps by (induction ps) (auto intro: add_mono)
  from this [of "ls_phases s0"] assms(3) have "line_rank s0 \<le> 10 * length (ln_stations cfg) + 1"
    by (simp add: line_rank_def)
  moreover have "left_at i s0 \<le> 1" by (cases "ls_phases s0 ! i") (simp_all add: left_at_def)
  ultimately show ?thesis
    using last_units_runs [OF assms(5) last, of i] line_goes_on [OF assms(1,2), of s cfg job]
      line_runs_length [OF assms(5)] assms(3) by auto
qed

text \<open>Each station that is past its first unit has run one, and the units are those of the stations.\<close>

lemma tries_counted:
  assumes "line_runs B cfg job s0 evs s" "\<forall>p \<in> set (ls_phases s0). p = Working"
  shows "(\<forall>i < length (ls_phases s). ls_phases s ! i \<noteq> Working \<longrightarrow> 1 \<le> tries_of i evs) \<and>
    (\<not> ls_aborted s \<longrightarrow> length (units evs) = (\<Sum>i < length (ls_phases s). tries_of i evs))"
  using assms
proof (induction rule: line_runs.induct)
  case (step evs s e s')
  note IH = step.IH [OF step.prems]
  show ?case
  proof (cases "e = Stop")
    case True
    with step.hyps IH show ?thesis by (auto simp: line_step_def split: if_splits)
  next
    case False
    from step.hyps(3) this show ?thesis
    proof (cases rule: line_step_cases)
      case (goto i p)
      have "1 \<le> tries_of j (evs @ [e])" if "j < length (ls_phases s')" "ls_phases s' ! j \<noteq> Working" for j
      proof (cases "j = i")
        case True
        show ?thesis
        proof (cases "ls_phases s ! i = Working")
          case False
          with IH goto(2) True show ?thesis by fastforce
        next
          case True
          with goto that \<open>j = i\<close> have "ran_at i e" by auto
          with \<open>j = i\<close> show ?thesis by simp
        qed
      next
        case False
        with goto(3) that have "j < length (ls_phases s)" "ls_phases s ! j \<noteq> Working" by simp_all
        with IH show ?thesis by (simp add: trans_le_add1)
      qed
      moreover have "(\<Sum>j < length (ls_phases s). (of_bool (ran_at j e) :: nat)) = of_bool (ran_at i e)"
      proof -
        have "(\<Sum>j < length (ls_phases s). (of_bool (ran_at j e) :: nat)) =
            (\<Sum>j < length (ls_phases s). if i = j then of_bool (ran_at i e) else 0)"
          using goto(8) by (intro sum.cong) auto
        with goto(2) show ?thesis by simp
      qed
      ultimately show ?thesis using IH goto by (simp add: sum.distrib)
    next
      case (abort i)
      have "1 \<le> tries_of j (evs @ [e])" if "j < length (ls_phases s)" "ls_phases s ! j \<noteq> Working" for j
        using IH that by (simp add: trans_le_add1)
      with abort(2) show ?thesis by simp
    qed
  qed
qed auto

section \<open>Sums of finished lines\<close>

lemma finished_owe_nothing:
  assumes "\<forall>p \<in> set ps. p = Finished" "f Finished = (0 :: 'b :: comm_monoid_add)"
  shows "sum_list (map f ps) = 0"
  using assms by (induction ps) auto

lemma count_sum:
  "sum_list (map (\<lambda>x. of_bool (P x) :: u64) xs) = word_of_nat (length (filter P xs))"
  by (induction xs) simp_all

lemma unat_count: "length xs < 18446744073709551616 \<Longrightarrow> unat (word_of_nat (length (filter P xs)) :: u64) = length (filter P xs)"
  using le_less_trans [OF length_filter_le [of P xs]] by (simp add: unsigned_of_nat take_bit_nat_eq_self_iff)

lemma passes_and_fails:
  "length (filter (\<lambda>r. rec_result r = Pass) rs) + length (filter (\<lambda>r. rec_result r = Fail) rs) = length rs"
proof (induction rs)
  case (Cons r rs)
  then show ?case by (cases "rec_result r") simp_all
qed simp

lemma finished_accounts:
  assumes "accounts cfg sink0 evs s" "line_result ms s = Some (Ok sm)" "length (units evs) < 18446744073709551616"
  shows "sum_passed sm = length (filter (\<lambda>r. rec_result r = Pass) (units evs))"
    and "sum_failed sm = length (filter (\<lambda>r. rec_result r = Fail) (units evs))"
    and "sum_total sm = length (units evs)" and "sum_records sm = recent_tail (ln_continuous cfg) (stored evs)"
    and "mset (stored evs) = mset (units evs)" and "mset (written True evs @ written False evs) = mset (units evs)"
    and "ls_sink s = map_option (\<lambda>f. f @ written True evs) sink0"
    and "\<not> ls_aborted s" and "\<forall>p \<in> set (ls_phases s). p = Finished"
proof -
  note a = assms(1) [unfolded accounts_def]
  have s: "\<not> ls_aborted s" "\<forall>p \<in> set (ls_phases s). p = Finished" "summarize ms s = Ok sm"
    using assms(2) by (auto simp: line_result_def line_over_def split: if_splits)
  note nil = finished_owe_nothing [OF s(2)]
  have counts: "counters (ls_metrics s) ! c + sum_list (map (to_count c) (ls_phases s)) =
      sum_list (map (\<lambda>rec. amounts rec ! c) (units evs))" if "c < 5" for c
    using a that by blast
  have "counters (ls_metrics s) ! 0 = sum_list (map (\<lambda>rec. amounts rec ! 0) (units evs))"
    "counters (ls_metrics s) ! 1 = sum_list (map (\<lambda>rec. amounts rec ! 1) (units evs))"
    using counts [of 0] counts [of 1] nil [of "to_count 0"] nil [of "to_count 1"] by simp_all
  then have c: "m_passed (ls_metrics s) = word_of_nat (length (filter (\<lambda>r. rec_result r = Pass) (units evs)))"
    "m_failed (ls_metrics s) = word_of_nat (length (filter (\<lambda>r. rec_result r = Fail) (units evs)))"
    by (simp_all add: counters_def amounts_def count_sum)
  from s(3) c have sm: "sum_records sm = ls_recent s"
    "sum_passed sm = length (filter (\<lambda>r. rec_result r = Pass) (units evs))"
    "sum_failed sm = length (filter (\<lambda>r. rec_result r = Fail) (units evs))"
    "sum_total sm = sum_passed sm + sum_failed sm"
    by (auto simp: summarize_def totals_def unat_count [OF assms(3)] Let_def split: if_splits)
  then show "sum_passed sm = length (filter (\<lambda>r. rec_result r = Pass) (units evs))"
    "sum_failed sm = length (filter (\<lambda>r. rec_result r = Fail) (units evs))"
    "sum_total sm = length (units evs)" by (simp_all add: passes_and_fails)
  show "sum_records sm = recent_tail (ln_continuous cfg) (stored evs)"
    "ls_sink s = map_option (\<lambda>f. f @ written True evs) sink0" using sm a by simp_all
  show "mset (stored evs) = mset (units evs)" "mset (written True evs @ written False evs) = mset (units evs)"
    using a nil [of to_store] nil [of to_write] by simp_all
qed (use assms(2) in \<open>auto simp: line_result_def line_over_def split: if_splits\<close>)

section \<open>A line of one station\<close>

definition demo_line :: "bool \<Rightarrow> line_config" where
  "demo_line endless =
     \<lparr>ln_stations = [demo_station None], ln_format = False, ln_chunk = 2048, ln_verify = False, ln_retries = 2,
      ln_work_order = None, ln_operator = None, ln_records_path = None, ln_metrics_addr = None, ln_continuous = endless\<rparr>"

lemma demo_unit_fails:
  obtains rec where "run_unit (mock_bench [] 1) (demo_station None) (demo_job 2) (world mock_default) =
    Some (Ok rec, world mock_default)" "rec_result rec = Fail"
  using run_without_ports [OF empty_bench(1), of "world mock_default" "demo_station None" "demo_job 2"] that
  by (simp add: empty_bench(2) fail_record_def)

lemma demo_may_happen:
  assumes "run_unit (mock_bench [] 1) (demo_station None) (demo_job 2) w = Some (Ok rec, w')"
  shows "may_happen (mock_bench [] 1) (demo_line endless) (demo_job 2) (Ran 0 (Ok rec))"
  using assms by (auto simp: demo_line_def)

text \<open>The events of one unit from \<open>Working\<close>, run on by \<open>line_runs\<close>.\<close>

lemma line_runs_append:
  "line_runs B cfg job s0 evs s \<Longrightarrow> fold (\<lambda>e t. Option.bind t (line_step cfg e)) es (Some s) = Some s' \<Longrightarrow>
    (\<forall>e \<in> set es. may_happen B cfg job e) \<Longrightarrow> line_runs B cfg job s0 (evs @ es) s'"
proof (induction es arbitrary: evs s)
  case (Cons e es)
  have "fold (\<lambda>e t. Option.bind t (line_step cfg e)) es None = None" for es by (induction es) simp_all
  with Cons.prems(2) obtain t where t: "line_step cfg e s = Some t"
    "fold (\<lambda>e t. Option.bind t (line_step cfg e)) es (Some t) = Some s'"
    by (cases "line_step cfg e s") auto
  from Cons.IH [OF line_runs.step [OF Cons.prems(1) _ t(1)] t(2)] Cons.prems(3) show ?case by simp
qed simp

definition unit_events :: "unit_record \<Rightarrow> line_event list" where
  "unit_events rec = [Ran 0 (Ok rec), Counted 0, Counted 0, Counted 0, Counted 0, Logged 0 rec True, Stored 0 rec]"

lemma one_unit_events:
  assumes "length (ln_stations cfg) = 1" "rec_result rec = Fail"
  obtains m where "fold (\<lambda>e t. Option.bind t (line_step cfg e)) (unit_events rec) (Some (line_init cfg t0 (Some []))) =
    Some \<lparr>ls_phases = [Deciding], ls_metrics = m, ls_sink = Some [rec], ls_recent = [rec], ls_stop = False, ls_aborted = False\<rparr>"
    "totals m = (0, 1)"
proof -
  have "fold (\<lambda>e t. Option.bind t (line_step cfg e)) (unit_events rec) (Some (line_init cfg t0 (Some []))) =
    Some \<lparr>ls_phases = [Deciding], ls_metrics = metrics_record rec (metrics_default t0), ls_sink = Some [rec],
      ls_recent = [rec], ls_stop = False, ls_aborted = False\<rparr>"
    by (simp add: unit_events_def line_step_def line_init_def assms(1) goto_def push_recent_def COUNT_STEPS_def
        metrics_record_def upt_rec RECENT_KEEP_def phase_at_def)
  moreover have "totals (metrics_record rec (metrics_default t0)) = (0, 1)"
    using assms by (simp add: totals_def metrics_record_def metrics_default_def count_step_def COUNT_STEPS_def upt_rec)
  ultimately show ?thesis by (rule that)
qed

lemma demo_unit_events:
  assumes "rec_result rec = Fail"
  obtains m where "fold (\<lambda>e t. Option.bind t (line_step (demo_line endless) e)) (unit_events rec)
      (Some (line_init (demo_line endless) 0 (Some []))) =
    Some \<lparr>ls_phases = [Deciding], ls_metrics = m, ls_sink = Some [rec], ls_recent = [rec], ls_stop = False, ls_aborted = False\<rparr>"
    "totals m = (0, 1)"
  using one_unit_events [of "demo_line endless" rec 0] assms by (auto simp: demo_line_def)

section \<open>Properties\<close>

text \<open>C6: whatever the interleaving of the station threads, when a line ends the summary counts
  exactly the units that ended, by result; the records of all of them are in the summary, or the
  last 500 stored in a continuous run; the sink has gained exactly the records whose write succeeded; and in a batch
  each station has run exactly one unit.\<close>

theorem line_accounts:
  assumes "line_runs B cfg job (line_init cfg t sink0) evs s" "line_result ms s = Some (Ok sm)"
    and "length (units evs) < 18446744073709551616"
  shows "sum_total sm = length (units evs) \<and>
    sum_passed sm = length (filter (\<lambda>r. rec_result r = Pass) (units evs)) \<and>
    sum_failed sm = length (filter (\<lambda>r. rec_result r = Fail) (units evs)) \<and>
    mset (stored evs) = mset (units evs) \<and> sum_records sm = recent_tail (ln_continuous cfg) (stored evs) \<and>
    mset (written True evs @ written False evs) = mset (units evs) \<and>
    ls_sink s = map_option (\<lambda>f. f @ written True evs) sink0 \<and>
    (\<not> ln_continuous cfg \<longrightarrow>
      (\<forall>i < length (ln_stations cfg). tries_of i evs = 1) \<and> length (units evs) = length (ln_stations cfg))"
proof -
  note f = finished_accounts [OF accounts_runs [OF assms(1)] assms(2,3)]
  have len: "length (ls_phases s) = length (ln_stations cfg)"
    using line_runs_length [OF assms(1)] by (simp add: line_init_def)
  have "(\<forall>i < length (ln_stations cfg). tries_of i evs = 1) \<and> length (units evs) = length (ln_stations cfg)"
    if "\<not> ln_continuous cfg"
  proof -
    have c: "(\<forall>i < length (ls_phases s). ls_phases s ! i \<noteq> Working \<longrightarrow> 1 \<le> tries_of i evs) \<and>
        (\<not> ls_aborted s \<longrightarrow> length (units evs) = (\<Sum>i < length (ls_phases s). tries_of i evs))"
      by (rule tries_counted [OF assms(1)]) (simp add: line_init_def)
    have one: "tries_of i evs = 1" if "i < length (ln_stations cfg)" for i
    proof -
      have "last_units cfg (line_init cfg t sink0)" using \<open>\<not> ln_continuous cfg\<close> by (simp add: last_units_def)
      from last_units_runs [OF assms(1) this, of i] that have "tries_of i evs \<le> 1"
        by (simp add: left_at_def line_init_def)
      moreover have "ls_phases s ! i = Finished" using f(9) that len by simp
      with c that len have "1 \<le> tries_of i evs" by simp
      ultimately show ?thesis by simp
    qed
    with c f(8) len show ?thesis by simp
  qed
  with f show ?thesis by simp
qed

theorem line_accounts_witness:
  "\<exists>rec s sm. line_runs (mock_bench [] 1) (demo_line False) (demo_job 2) (line_init (demo_line False) 0 (Some []))
      (unit_events rec @ [Decided 0]) s \<and> line_result 10 s = Some (Ok sm) \<and>
     sum_total sm = 1 \<and> sum_failed sm = 1 \<and> sum_records sm = [rec] \<and> ls_sink s = Some [rec]"
proof -
  obtain rec where r: "run_unit (mock_bench [] 1) (demo_station None) (demo_job 2) (world mock_default) =
    Some (Ok rec, world mock_default)" "rec_result rec = Fail"
    by (rule demo_unit_fails)
  obtain m where m: "fold (\<lambda>e t. Option.bind t (line_step (demo_line False) e)) (unit_events rec)
      (Some (line_init (demo_line False) 0 (Some []))) =
    Some \<lparr>ls_phases = [Deciding], ls_metrics = m, ls_sink = Some [rec], ls_recent = [rec], ls_stop = False, ls_aborted = False\<rparr>"
    "totals m = (0, 1)"
    by (rule demo_unit_events [OF r(2)])
  define s where "s = \<lparr>ls_phases = [Finished], ls_metrics = m, ls_sink = Some [rec], ls_recent = [rec],
    ls_stop = False, ls_aborted = False\<rparr>"
  have runs: "line_runs (mock_bench [] 1) (demo_line False) (demo_job 2) (line_init (demo_line False) 0 (Some []))
      ([] @ (unit_events rec @ [Decided 0])) s"
  proof (rule line_runs_append [OF line_runs.start])
    show "fold (\<lambda>e t. Option.bind t (line_step (demo_line False) e)) (unit_events rec @ [Decided 0])
        (Some (line_init (demo_line False) 0 (Some []))) = Some s"
      using m(1) by (simp add: s_def line_step_def goto_def demo_line_def phase_at_def)
    show "\<forall>e \<in> set (unit_events rec @ [Decided 0]). may_happen (mock_bench [] 1) (demo_line False) (demo_job 2) e"
      using demo_may_happen [OF r(1)] by (simp add: unit_events_def)
  qed
  define sm where "sm = \<lparr>sum_records = [rec], sum_total = 1, sum_passed = 0, sum_failed = 1,
      sum_wall_ms = 10, sum_units_per_hour = 0\<rparr>"
  have over: "line_result 10 s = Some (Ok sm)"
    using m(2) by (simp add: s_def sm_def line_result_def line_over_def summarize_def usize_limit_def)
  have "length (units ([] @ unit_events rec @ [Decided 0])) = 1" by (simp add: unit_events_def units_def)
  with line_accounts [OF runs over] have "sum_total sm = 1" by simp
  moreover have "sum_failed sm = 1" "sum_records sm = [rec]" "ls_sink s = Some [rec]" by (simp_all add: sm_def s_def)
  ultimately show ?thesis using runs over by (metis append_Nil)
qed



text \<open>C37: a station that is waiting for its next unit when the stop flag is set does not stop there:
  before the line ends it starts another unit.\<close>

theorem stopped_station_starts_a_unit:
  assumes "line_runs B cfg job s0 evs s" "ls_stop s0" "i < length (ls_phases s0)" "ls_phases s0 ! i = Waiting"
    and "line_over s" "\<not> ls_aborted s"
  shows "tries_of i evs = 1"
proof -
  have "last_units cfg s0" using assms(2) by (simp add: last_units_def)
  from last_units_runs [OF assms(1) this, of i] assms(3,4) have "tries_of i evs \<le> 1"
    by (simp add: left_at_def split: if_splits)
  moreover have "tries_of i evs = 0 \<longrightarrow> ls_aborted s \<or> ls_phases s ! i \<in> {Working, Waiting}"
    using assms(1)
  proof (induction rule: line_runs.induct)
    case (step evs s e s')
    show ?case
    proof (cases "e = Stop")
      case True
      with step show ?thesis by (auto simp: line_step_def split: if_splits)
    next
      case False
      from step.hyps(3) this show ?thesis
      proof (cases rule: line_step_cases)
        case (goto k p)
        with step.IH show ?thesis by (cases "i = k") auto
      qed (use step.IH in auto)
    qed
  qed (use assms(4) in simp)
  moreover have "ls_phases s ! i = Finished"
    using assms(3,5,6) line_runs_length [OF assms(1)] by (simp add: line_over_def)
  ultimately show ?thesis using assms(6) by (cases "tries_of i evs") simp_all
qed

theorem stopped_station_starts_a_unit_witness:
  "\<exists>rec s. tries_of 0 ([Resumed 0] @ unit_events rec @ [Decided 0]) = 1 \<and>
     line_runs (mock_bench [] 1) (demo_line True) (demo_job 2)
       ((line_init (demo_line True) 0 (Some []))\<lparr>ls_phases := [Waiting], ls_stop := True\<rparr>)
       ([Resumed 0] @ unit_events rec @ [Decided 0]) s"
proof -
  let ?s0 = "(line_init (demo_line True) 0 (Some []))\<lparr>ls_phases := [Waiting], ls_stop := True\<rparr>"
  obtain rec where r: "run_unit (mock_bench [] 1) (demo_station None) (demo_job 2) (world mock_default) =
    Some (Ok rec, world mock_default)" "rec_result rec = Fail"
    by (rule demo_unit_fails)
  define s where "s = \<lparr>ls_phases = [Finished], ls_metrics = metrics_record rec (metrics_default 0), ls_sink = Some [rec],
    ls_recent = [rec], ls_stop = True, ls_aborted = False\<rparr>"
  have runs: "line_runs (mock_bench [] 1) (demo_line True) (demo_job 2) ?s0 ([] @ [Resumed 0] @ unit_events rec @ [Decided 0]) s"
  proof (rule line_runs_append [OF line_runs.start])
    show "fold (\<lambda>e t. Option.bind t (line_step (demo_line True) e)) ([Resumed 0] @ unit_events rec @ [Decided 0]) (Some ?s0) = Some s"
      by (simp add: s_def unit_events_def line_step_def line_init_def demo_line_def goto_def push_recent_def COUNT_STEPS_def
          metrics_record_def upt_rec RECENT_KEEP_def phase_at_def)
    show "\<forall>e \<in> set ([Resumed 0] @ unit_events rec @ [Decided 0]). may_happen (mock_bench [] 1) (demo_line True) (demo_job 2) e"
      using demo_may_happen [OF r(1)] by (simp add: unit_events_def)
  qed
  have "line_over s" "\<not> ls_aborted s" by (simp_all add: s_def line_over_def)
  with stopped_station_starts_a_unit [OF runs, of 0] runs show ?thesis by auto
qed

end
