(* ===== verification/Regions.thy ===== *)
theory Regions
  imports Cli
begin

text \<open>The region arguments: what is printed of a region is parsed back.\<close>

lemma digit_value_char:
  assumes "d < base" "base \<le> 16"
  shows "digit_value base (digit_char d) = Some d"
proof -
  have "unat (word_of_nat (if d < 10 then 48 + d else 87 + d) :: u32) = (if d < 10 then 48 + d else 87 + d)"
    using assms by (intro unat_of_nat_u32) auto
  then show ?thesis using assms by (auto simp: digit_value_def digit_char_def Let_def)
qed

lemma number_value_append:
  "number_value base acc (xs @ ys) = Option.bind (number_value base acc xs) (\<lambda>a. number_value base a ys)"
  by (induction xs arbitrary: acc) (auto split: option.splits)

lemma number_value_digits:
  assumes "2 \<le> base" "base \<le> 16" "n < 2 ^ 32"
  shows "number_value base 0 (fmt_digits base n) = Some n"
  using assms
proof (induction base n rule: fmt_digits.induct)
  case (1 base n)
  show ?case
  proof (cases "n < base")
    case True
    with 1 show ?thesis by (simp add: fmt_digits.simps [of base n] digit_value_char)
  next
    case False
    then have "number_value base 0 (fmt_digits base (n div base)) = Some (n div base)"
      using 1 by (auto intro: le_less_trans [OF div_le_dividend])
    moreover have "digit_value base (digit_char (n mod base)) = Some (n mod base)"
      using 1 by (intro digit_value_char) auto
    ultimately show ?thesis
      using False 1 by (simp add: fmt_digits.simps [of base n] number_value_append)
  qed
qed

text \<open>The characters of a number.\<close>

definition plain_char :: "u32 \<Rightarrow> bool" where
  "plain_char c \<longleftrightarrow> (48 \<le> unat c \<and> unat c \<le> 57) \<or> (97 \<le> unat c \<and> unat c \<le> 102)"

lemma digit_char_plain: "d < 16 \<Longrightarrow> plain_char (digit_char d)"
  by (auto simp: plain_char_def digit_char_def unat_of_nat_u32)

lemma fmt_digits_plain: "2 \<le> base \<Longrightarrow> base \<le> 16 \<Longrightarrow> c \<in> set (fmt_digits base n) \<Longrightarrow> plain_char c"
proof (induction base n rule: fmt_digits.induct)
  case (1 base n)
  show ?case
  proof (cases "n < base")
    case True
    with 1 show ?thesis by (simp add: fmt_digits.simps [of base n] digit_char_plain)
  next
    case False
    have "n mod base < 16" using 1(2,3) mod_less_divisor [of base n] by linarith
    then have "plain_char (digit_char (n mod base))" by (rule digit_char_plain)
    moreover have "c \<in> set (fmt_digits base (n div base)) \<or> c = digit_char (n mod base)"
      using 1(2,4) False by (subst (asm) fmt_digits.simps) auto
    moreover have "plain_char c" if "c \<in> set (fmt_digits base (n div base))"
      using 1(1) [OF _ 1(2,3) that] 1(2) False by simp
    ultimately show ?thesis by blast
  qed
qed

lemma fmt_digits_nonempty [simp]: "fmt_digits base n \<noteq> []"
  by (subst fmt_digits.simps) simp

lemma plain_not_special:
  assumes "plain_char c"
  shows "c \<noteq> 58" "c \<noteq> 43" "\<not> is_whitespace c" "c \<noteq> 120" "c \<noteq> 88"
  using assms
  by (auto simp: plain_char_def is_whitespace_def word_le_nat_alt)

lemma trim_id:
  assumes "s \<noteq> []" "\<not> is_whitespace (hd s)" "\<not> is_whitespace (last s)"
  shows "trim s = s"
proof -
  obtain x xs where s: "s = x # xs" using assms(1) by (cases s) auto
  obtain ys y where r: "s = ys @ [y]" using assms(1) by (cases s rule: rev_cases) auto
  have "dropWhile is_whitespace s = s" using assms(2) by (simp add: s)
  moreover have "dropWhile is_whitespace (rev s) = rev s" using assms(3) by (simp add: r)
  ultimately show ?thesis by (simp add: trim_def)
qed

lemma plain_digits: "plain_char c \<Longrightarrow> digit_value 16 c \<noteq> None"
  by (auto simp: plain_char_def digit_value_def Let_def)

lemma parse_u32_digits:
  assumes "2 \<le> base" "base \<le> 16"
  shows "parse_u32 base (replicate k 48 @ fmt_digits base (unat x)) = Some x"
proof -
  let ?s = "replicate k 48 @ fmt_digits base (unat x)"
  have zeros: "number_value base 0 (replicate k 48 @ xs) = number_value base 0 xs" for xs
    using assms by (induction k) (simp_all add: digit_value_def Let_def)
  have "plain_char c" if "c \<in> set ?s" for c
    using that fmt_digits_plain [OF assms] by (auto simp: plain_char_def split: if_splits)
  then have "?s \<noteq> [] \<and> hd ?s \<noteq> 43" by (metis append_is_Nil_conv fmt_digits_nonempty list.set_sel(1) plain_not_special(2))
  moreover have "number_value base 0 (fmt_digits base (unat x)) = Some (unat x)"
    using assms by (intro number_value_digits) simp_all
  ultimately show ?thesis by (simp add: parse_u32_def zeros)
qed

lemma str_0x: "str ''0x'' = [48, 120]" "str ''0X'' = [48, 88]"
  by (simp_all add: str_def)

lemma strip_dec: "strip_prefix (str ''0x'') (fmt_dec n) = None" "strip_prefix (str ''0X'') (fmt_dec n) = None"
proof -
  have plain: "plain_char c" if "c \<in> set (fmt_dec n)" for c
    using fmt_digits_plain [of 10 c n] that by (simp add: fmt_dec_def)
  have "take 2 (fmt_dec n) \<noteq> [48, c]" if "\<not> plain_char c" for c
  proof
    assume "take 2 (fmt_dec n) = [48, c]"
    then have "c \<in> set (take 2 (fmt_dec n))" by simp
    with plain that show False using in_set_takeD by metis
  qed
  from this [of 120] this [of 88] have "take 2 (fmt_dec n) \<noteq> [48, 120]" "take 2 (fmt_dec n) \<noteq> [48, 88]"
    by (simp_all add: plain_char_def)
  then show "strip_prefix (str ''0x'') (fmt_dec n) = None" "strip_prefix (str ''0X'') (fmt_dec n) = None"
    by (simp_all add: strip_prefix_def starts_with_def str_0x numeral_2_eq_2)
qed

lemma region_number_text:
  "region_number s (fmt_dec (unat x)) = Ok x" "region_number s (fmt_hex (unat x)) = Ok x"
  "region_number s (fmt_hex8 (unat x)) = Ok x"
proof -
  have plain: "c \<in> set (fmt_digits b n) \<Longrightarrow> \<not> is_whitespace c" if "2 \<le> b" "b \<le> 16" for b n c
    using fmt_digits_plain [OF that] plain_not_special(3) by blast
  have ends: "\<not> is_whitespace (last (fmt_digits b n))" "\<not> is_whitespace (hd (fmt_digits b n))" if "2 \<le> b" "b \<le> 16" for b n
    using plain [OF that last_in_set] plain [OF that hd_in_set] by simp_all
  have zero: "\<not> is_whitespace 48" by (simp add: is_whitespace_def)
  have t: "trim (fmt_dec n) = fmt_dec n" "trim (fmt_hex n) = fmt_hex n" "trim (fmt_hex8 n) = fmt_hex8 n" for n
    by (intro trim_id; simp add: fmt_dec_def fmt_hex_def fmt_hex8_def str_0x ends zero)+
  show "region_number s (fmt_dec (unat x)) = Ok x"
    using parse_u32_digits [of 10 0 x]
    unfolding region_number_def Let_def t strip_dec by (simp add: fmt_dec_def ok_or_def)
  show "region_number s (fmt_hex (unat x)) = Ok x"
    using parse_u32_digits [of 16 0 x]
    unfolding region_number_def Let_def t by (simp add: fmt_hex_def ok_or_def strip_prefix_def starts_with_def)
  show "region_number s (fmt_hex8 (unat x)) = Ok x"
    using parse_u32_digits [of 16 "8 - length (fmt_digits 16 (unat x))" x]
    unfolding region_number_def Let_def t by (simp add: fmt_hex8_def ok_or_def strip_prefix_def starts_with_def)
qed

lemma no_colon: "58 \<notin> set (fmt_dec n)" "58 \<notin> set (fmt_hex n)" "58 \<notin> set (fmt_hex8 n)"
  using fmt_digits_plain [of 10 58 n] fmt_digits_plain [of 16 58 n] plain_not_special(1)
  by (auto simp: fmt_dec_def fmt_hex_def fmt_hex8_def str_0x)

lemma split_once_first: "c \<notin> set a \<Longrightarrow> split_once c (a @ c # b) = Some (a, b)"
proof -
  assume "c \<notin> set a"
  then have "\<forall>x \<in> set a. x \<noteq> c" by blast
  then show ?thesis by (simp add: split_once_def position_append)
qed

lemma split_once_none: "c \<notin> set s \<Longrightarrow> split_once c s = None"
proof -
  assume "c \<notin> set s"
  then have "\<forall>x \<in> set s. x \<noteq> c" by blast
  then show ?thesis by (simp add: split_once_def)
qed

text \<open>An address and a size, written in decimal or in hexadecimal as the tool prints them, are
  read back exactly; a text without a colon is refused.\<close>

lemma region_round_trip:
  "parse_region (fmt_hex (unat addr) @ [58] @ fmt_dec (unat sz)) = Ok (addr, sz) \<and>
   parse_region (fmt_dec (unat addr) @ [58] @ fmt_hex (unat sz)) = Ok (addr, sz) \<and>
   parse_region (fmt_hex8 (unat addr) @ [58] @ fmt_hex8 (unat sz)) = Ok (addr, sz) \<and>
   parse_region (fmt_dec (unat addr)) = Err (CliRegion (fmt_dec (unat addr)))"
  by (simp add: parse_region_def split_once_first split_once_none no_colon region_number_text ok_or_def)

end
