(* ===== verification/Messages.thy ===== *)
theory Messages
  imports Line_Runs Utf8 Regions
begin

text \<open>
  What the program says: the \<open>Display\<close> texts of the error types (\<open>error.rs\<close>, \<open>serial.rs\<close>,
  \<open>pdl_io.rs\<close>, \<open>bsl_io.rs\<close>, \<open>flasher.rs\<close>, \<open>verify.rs\<close>, \<open>station.rs\<close>), the record of a unit as the JSON
  value \<open>serde\<close> derives from \<open>record.rs\<close> and its line in the records file, and the progress line of the
  console. \<open>serde_json::to_string\<close> and the table of printable characters behind \<open>{:?}\<close> are parameters.
\<close>

section \<open>Debug texts of the standard library\<close>

text \<open>\<open>{:?}\<close> of a string: \<open>shown c\<close> says that the tables of the standard library take \<open>c\<close> for printable.\<close>

definition debug_char :: "(u32 \<Rightarrow> bool) \<Rightarrow> u32 \<Rightarrow> rust_string" where
  "debug_char shown c =
     (if c = 0 then [92, 48]
      else if c = 9 then [92, 116]
      else if c = 10 then [92, 110]
      else if c = 13 then [92, 114]
      else if c = 34 \<or> c = 92 then [92, c]
      else if shown c then [c]
      else [92, 117, 123] @ fmt_digits 16 (unat c) @ [125])"

definition debug_str :: "(u32 \<Rightarrow> bool) \<Rightarrow> rust_string \<Rightarrow> rust_string" where
  "debug_str shown s = [34] @ concat (map (debug_char shown) s) @ [34]"

text \<open>\<open>{:?}\<close> of a \<open>Duration\<close> of whole milliseconds.\<close>

definition strip_zeros :: "rust_string \<Rightarrow> rust_string" where
  "strip_zeros s = rev (dropWhile (\<lambda>c. c = 48) (rev s))"

definition pad_zeros :: "nat \<Rightarrow> rust_string \<Rightarrow> rust_string" where
  "pad_zeros n s = replicate (n - length s) 48 @ s"

definition debug_duration :: "nat \<Rightarrow> rust_string" where
  "debug_duration ms =
     (if 1000 \<le> ms
      then fmt_dec (ms div 1000) @
        (if ms mod 1000 = 0 then [] else str ''.'' @ strip_zeros (pad_zeros 3 (fmt_dec (ms mod 1000)))) @ str ''s''
      else if 0 < ms then fmt_dec ms @ str ''ms''
      else str ''0ns'')"

section \<open>Error texts\<close>

definition core_error_text :: "(u32 \<Rightarrow> bool) \<Rightarrow> core_error \<Rightarrow> rust_string" where
  "core_error_text shown e =
     (case e of
        PacTooSmall n \<Rightarrow> str ''pac too small: '' @ fmt_dec n @ str '' bytes''
      | PacSizeMismatch declared actual \<Rightarrow>
          str ''pac size field '' @ fmt_dec declared @ str '' != actual file size '' @ fmt_dec actual @
          str '' (truncated download?)''
      | PacTruncatedTable i \<Rightarrow> str ''pac file table truncated at entry '' @ fmt_dec (unat i)
      | PacEntryOutOfRange fid offset sz \<Rightarrow>
          str ''pac entry '' @ debug_str shown fid @ str '' data out of range (offset '' @ fmt_dec (unat offset) @
          str '', size '' @ fmt_dec (unat sz) @ str '')''
      | FrameTooShort n \<Rightarrow> str ''bsl frame too short: '' @ fmt_dec n @ str '' bytes''
      | FrameTruncated declared got \<Rightarrow>
          str ''bsl frame truncated: declared '' @ fmt_dec declared @ str '', got '' @ fmt_dec got)"

definition transport_error_text :: "transport_error \<Rightarrow> rust_string" where
  "transport_error_text e =
     (case e of
        TransportOpen port source \<Rightarrow> str ''could not open '' @ port @ str '': '' @ source
      | TransportIo t \<Rightarrow> str ''serial I/O error: '' @ t
      | TransportControl t \<Rightarrow> str ''serial control error: '' @ t
      | TransportTimeout ms \<Rightarrow> str ''serial read timed out after '' @ debug_duration ms)"

definition pdl_error_text :: "pdl_error \<Rightarrow> rust_string" where
  "pdl_error_text e =
     (case e of
        PdlTransport t \<Rightarrow> transport_error_text t
      | NoVersion \<Rightarrow> str ''no BSL VER after PDL EXEC'')"

definition bsl_error_text :: "(u32 \<Rightarrow> bool) \<Rightarrow> bsl_error \<Rightarrow> rust_string" where
  "bsl_error_text shown e =
     (case e of
        BslTransport t \<Rightarrow> transport_error_text t
      | BslFrame c \<Rightarrow> str ''bad BSL frame: '' @ core_error_text shown c
      | BslUnexpected what expected got \<Rightarrow>
          str what @ str '': expected '' @ str expected @ str '', got '' @ str got)"

definition flash_error_text :: "(u32 \<Rightarrow> bool) \<Rightarrow> flash_error \<Rightarrow> rust_string" where
  "flash_error_text shown e =
     (case e of
        FlashPdl p \<Rightarrow> str ''PDL: '' @ pdl_error_text p
      | FlashBsl b \<Rightarrow> str ''BSL: '' @ bsl_error_text shown b
      | FlashPlan t \<Rightarrow> str ''plan: '' @ str t
      | FlashPayload fid \<Rightarrow> str ''payload for '' @ debug_str shown fid @ str '' missing from PAC''
      | FlashVersion \<Rightarrow> str ''no/invalid VER frame after FDL1''
      | FlashVerifyMismatch fid \<Rightarrow> str ''read-back verify failed for '' @ fid
      | FlashSize \<Rightarrow> str ''could not read the flash base to size it'')"

definition verify_error_text :: "verify_error \<Rightarrow> rust_string" where
  "verify_error_text e =
     (case e of
        VerifyOpen port t \<Rightarrow> str ''open AT port '' @ port @ str '': '' @ t
      | VerifyNoResponse port \<Rightarrow> str ''no ATI response from '' @ port)"

definition download_error_text :: "download_error \<Rightarrow> rust_string" where
  "download_error_text e =
     (case e of
        SwitchFailed t \<Rightarrow> t
      | PortDidNotAppear \<Rightarrow> str ''download port did not appear''
      | NoPortToSwitch \<Rightarrow> str ''no download port and no AT port to switch'')"

text \<open>The messages of \<open>try_once\<close>.\<close>

definition unit_error_text :: "(u32 \<Rightarrow> bool) \<Rightarrow> unit_error \<Rightarrow> rust_string" where
  "unit_error_text shown e =
     (case e of
        EnterDownload d \<Rightarrow> str ''enter download: '' @ download_error_text d
      | OpenFailed port t \<Rightarrow> str ''open '' @ port @ str '': '' @ transport_error_text t
      | FlashFailed f \<Rightarrow> str ''flash: '' @ flash_error_text shown f
      | DidNotBoot \<Rightarrow> str ''module did not boot after flash''
      | BootVerify v \<Rightarrow> str ''verify: '' @ verify_error_text v)"

section \<open>The record as JSON\<close>

text \<open>The values \<open>derive(Serialize)\<close> builds: an object has its fields in the order of the struct, an
  absent option is \<open>null\<close>. A floating-point number of seconds is its milliseconds.\<close>

datatype json =
    JNull
  | JString rust_string
  | JInt nat
  | JSeconds nat
  | JArray "json list"
  | JObject "(string \<times> json) list"

definition json_option :: "rust_string option \<Rightarrow> json" where
  "json_option x = (case x of None \<Rightarrow> JNull | Some s \<Rightarrow> JString s)"

definition outcome_json :: "outcome \<Rightarrow> json" where
  "outcome_json r = (case r of Pass \<Rightarrow> JString (str ''pass'') | Fail \<Rightarrow> JString (str ''fail''))"

definition phase_json :: "phase_timing \<Rightarrow> json" where
  "phase_json p = JObject [(''phase'', JString (str (phase_name p))), (''seconds'', JSeconds (phase_ms p))]"

definition record_json :: "(u32 \<Rightarrow> bool) \<Rightarrow> unit_record \<Rightarrow> json" where
  "record_json shown r =
     JObject
       [(''ts_ms'', JInt (rec_ts_ms r)),
        (''station'', JString (rec_station r)),
        (''work_order'', json_option (rec_work_order r)),
        (''operator'', json_option (rec_operator r)),
        (''port'', JString (rec_port r)),
        (''product'', JString (rec_product r)),
        (''pac'', JString (rec_pac r)),
        (''result'', outcome_json (rec_result r)),
        (''attempts'', JInt (unat (rec_attempts r))),
        (''bytes'', JInt (rec_bytes r)),
        (''flash_seconds'', JSeconds (rec_flash_ms r)),
        (''total_seconds'', JSeconds (rec_total_ms r)),
        (''phases'', JArray (map phase_json (rec_phases r))),
        (''firmware'', json_option (rec_firmware r)),
        (''imei'', json_option (rec_imei r)),
        (''error'', json_option (map_option (unit_error_text shown) (rec_error r)))]"

text \<open>\<open>to_json_line\<close>: the serialiser \<open>ser\<close> is \<open>serde_json::to_string\<close>, with the text of its error.\<close>

definition to_json_line ::
    "(json \<Rightarrow> (rust_string, rust_string) result) \<Rightarrow> (u32 \<Rightarrow> bool) \<Rightarrow> unit_record \<Rightarrow> rust_string"
where
  "to_json_line ser shown r =
     (case ser (record_json shown r) of
        Ok s \<Rightarrow> s
      | Err e \<Rightarrow> str ''{\"serialize_error\":\"'' @ e @ str ''\"}''
      | Panic \<Rightarrow> [])"

text \<open>The records file: \<open>writeln!\<close> of every record.\<close>

definition sink_text ::
    "(json \<Rightarrow> (rust_string, rust_string) result) \<Rightarrow> (u32 \<Rightarrow> bool) \<Rightarrow> unit_record list \<Rightarrow> rust_string"
where
  "sink_text ser shown rs = concat (map (\<lambda>r. to_json_line ser shown r @ [10]) rs)"

section \<open>Diagnostics and progress\<close>

text \<open>The summary of a failed read-back; \<open>{:02x?}\<close> prints the window of bytes.\<close>

definition hex_byte :: "u8 \<Rightarrow> rust_string" where
  "hex_byte b = pad_zeros 2 (fmt_digits 16 (unat b))"

fun join_text :: "rust_string \<Rightarrow> rust_string list \<Rightarrow> rust_string" where
  "join_text sep [] = []"
| "join_text sep [s] = s"
| "join_text sep (s # t # ss) = s @ sep @ join_text sep (t # ss)"

definition debug_bytes :: "u8 list \<Rightarrow> rust_string" where
  "debug_bytes bs = str ''['' @ join_text (str '', '') (map hex_byte bs) @ str '']''"

definition differences :: "u8 list \<Rightarrow> u8 list \<Rightarrow> nat" where
  "differences expected actual = length (filter (\<lambda>(a, b). a \<noteq> b) (zip expected actual))"

definition first_difference :: "u8 list \<Rightarrow> u8 list \<Rightarrow> nat" where
  "first_difference expected actual =
     (case position (\<lambda>(a, b). a \<noteq> b) (zip expected actual) of None \<Rightarrow> 0 | Some i \<Rightarrow> i)"

definition describe_mismatch :: "u8 list \<Rightarrow> u8 list \<Rightarrow> rust_string" where
  "describe_mismatch expected actual =
     (if length expected \<noteq> length actual
      then str ''read-back length '' @ fmt_dec (length actual) @ str '' != written '' @
        fmt_dec (length expected) @ str '' bytes''
      else
        let first = first_difference expected actual; fin = min (first + 16) (length expected)
        in fmt_dec (differences expected actual) @ str ''/'' @ fmt_dec (length expected) @
          str '' bytes differ; first at offset '' @ fmt_dec first @
          str ''; expected '' @ debug_bytes (take (fin - first) (drop first expected)) @
          str '' got '' @ debug_bytes (take (fin - first) (drop first actual)))"

text \<open>The progress of a stage in per cent, and what the callback of the commands prints: a new stage goes
  to a new line, an unchanged number prints nothing. The state is the last stage and its last number.\<close>

definition progress_percent :: "u64 \<Rightarrow> u64 \<Rightarrow> nat" where
  "progress_percent done_bytes total_bytes =
     (if total_bytes = 0 then 100
      else min (unat done_bytes * 100) 0xFFFFFFFFFFFFFFFF div unat total_bytes)"

definition as_i64 :: "nat \<Rightarrow> int" where
  "as_i64 n = (if n < 2 ^ 63 then int n else int n - 2 ^ 64)"

definition fmt_int :: "int \<Rightarrow> rust_string" where
  "fmt_int z = (if z < 0 then str ''-'' @ fmt_dec (nat (- z)) else fmt_dec (nat z))"

definition pad_left :: "nat \<Rightarrow> rust_string \<Rightarrow> rust_string" where
  "pad_left n s = replicate (n - length s) 32 @ s"

definition pad_right :: "nat \<Rightarrow> rust_string \<Rightarrow> rust_string" where
  "pad_right n s = s @ replicate (n - length s) 32"

definition progress_step ::
    "nat \<Rightarrow> rust_string \<Rightarrow> u64 \<Rightarrow> u64 \<Rightarrow> rust_string \<times> int \<Rightarrow> (rust_string \<times> int) \<times> rust_string"
where
  "progress_step width stage done_bytes total_bytes st =
     (let pct = as_i64 (progress_percent done_bytes total_bytes);
          newline = (if stage \<noteq> fst st \<and> fst st \<noteq> [] then [10] else []);
          st1 = (if stage \<noteq> fst st then (stage, -1) else st)
      in if pct \<noteq> snd st1
         then ((fst st1, pct),
           newline @ [13] @ str ''  '' @ pad_right width stage @ str '' '' @ pad_left 3 (fmt_int pct) @ str ''%'')
         else (st1, newline))"

section \<open>Facts\<close>

text \<open>A number of per cent for every amount done of a total below \<open>2 ^ 64 / 100\<close> bytes.\<close>

lemma progress_percent_bound:
  assumes "unat done_bytes \<le> unat total_bytes" "unat done_bytes * 100 \<le> 0xFFFFFFFFFFFFFFFF"
  shows "progress_percent done_bytes total_bytes \<le> 100"
proof (cases "total_bytes = 0")
  case False
  then have "0 < unat total_bytes" by (simp add: unat_gt_0)
  moreover have "min (unat done_bytes * 100) 0xFFFFFFFFFFFFFFFF = unat done_bytes * 100"
    using assms(2) by simp
  moreover have "unat done_bytes * 100 \<le> 100 * unat total_bytes" using assms(1) by simp
  ultimately show ?thesis unfolding progress_percent_def using False
    using div_le_mono [of "unat done_bytes * 100" "100 * unat total_bytes" "unat total_bytes"]
    by (simp only: if_False) simp
qed (simp add: progress_percent_def)

text \<open>The diagnostics of a failed read-back of the right length: there is a difference, the first one is where
  the text says, and everything before it agrees.\<close>

lemma mismatch_first:
  assumes "length expected = length actual" "expected \<noteq> actual"
  shows "0 < differences expected actual" "first_difference expected actual < length expected"
    "expected ! first_difference expected actual \<noteq> actual ! first_difference expected actual"
    "take (first_difference expected actual) expected = take (first_difference expected actual) actual"
proof -
  let ?z = "zip expected actual"
  have "position (\<lambda>(a, b). a \<noteq> b) ?z \<noteq> None"
  proof
    assume "position (\<lambda>(a, b). a \<noteq> b) ?z = None"
    then have "\<forall>x \<in> set ?z. fst x = snd x" by (auto simp: position_None_iff)
    then have "map fst ?z = map snd ?z" by (intro map_cong) auto
    with assms show False by simp
  qed
  then obtain i where i: "position (\<lambda>(a, b). a \<noteq> b) ?z = Some i" by blast
  note p = position_Some_split [OF i]
  have f: "first_difference expected actual = i" by (simp add: first_difference_def i)
  have len: "i < length expected" "i < length actual" using p assms(1) by simp_all
  show "first_difference expected actual < length expected" using len f by simp
  show "expected ! first_difference expected actual \<noteq> actual ! first_difference expected actual"
    using p len f by simp
  have "?z ! i \<in> set ?z" "fst (?z ! i) \<noteq> snd (?z ! i)" using p nth_mem [of i ?z] by auto
  then have "?z ! i \<in> set (filter (\<lambda>(a, b). a \<noteq> b) ?z)" by auto
  then show "0 < differences expected actual" unfolding differences_def by (rule length_pos_if_in_set)
  have "\<forall>x \<in> set (take i ?z). fst x = snd x" using p by auto
  then have "map fst (take i ?z) = map snd (take i ?z)" by (intro map_cong) auto
  then show "take (first_difference expected actual) expected = take (first_difference expected actual) actual"
    using assms(1) by (simp add: f take_map [symmetric])
qed

text \<open>The lines of a text every line of which was ended.\<close>

fun ended_lines :: "rust_string \<Rightarrow> rust_string \<Rightarrow> rust_string list" where
  "ended_lines l [] = []"
| "ended_lines l (c # s) = (if c = 10 then l # ended_lines [] s else ended_lines (l @ [c]) s)"

lemma ended_lines_line: "10 \<notin> set l \<Longrightarrow> ended_lines k (l @ 10 # s) = (k @ l) # ended_lines [] s"
  by (induction l arbitrary: k) auto

lemma to_json_line_no_newline:
  assumes "\<And>v s. ser v = Ok s \<Longrightarrow> 10 \<notin> set s" "\<And>v e. ser v = Err e \<Longrightarrow> 10 \<notin> set e"
  shows "10 \<notin> set (to_json_line ser shown r)"
  using assms by (auto simp: to_json_line_def str_def split: result.splits)

lemma ended_lines_sink:
  assumes "\<And>r. 10 \<notin> set (to_json_line ser shown r)"
  shows "ended_lines [] (sink_text ser shown rs) = map (to_json_line ser shown) rs"
  using assms by (induction rs) (simp_all add: sink_text_def ended_lines_line)

text \<open>The JSON value determines the record, up to two errors with the same text.\<close>

lemma json_option_eq [simp]: "json_option x = json_option y \<longleftrightarrow> x = y"
  by (cases x; cases y) (simp_all add: json_option_def)

lemma outcome_json_eq [simp]: "outcome_json r = outcome_json r' \<longleftrightarrow> r = r'"
  by (cases r; cases r') (simp_all add: outcome_json_def)

lemma str_eq [simp]: "str s = str t \<longleftrightarrow> s = t"
proof -
  have "word_of_nat (of_char c) = (word_of_nat (of_char d) :: u32) \<longleftrightarrow> c = d" for c d :: char
  proof -
    have "unat (word_of_nat (of_char x) :: u32) = of_char x" for x
      by (rule unat_of_nat_u32, rule less_le_trans [OF nat_of_char_less_256]) simp
    then show ?thesis by (metis of_char_eq_iff)
  qed
  then show ?thesis unfolding str_def by (intro inj_map_eq_map) (simp add: inj_def)
qed

lemma phase_json_eq [simp]: "phase_json p = phase_json q \<longleftrightarrow> p = q"
  by (cases p; cases q) (auto simp: phase_json_def)

lemma record_json_determines:
  assumes "record_json shown r = record_json shown r'"
  shows "r\<lparr>rec_error := None\<rparr> = r'\<lparr>rec_error := None\<rparr>"
    "map_option (unit_error_text shown) (rec_error r) = map_option (unit_error_text shown) (rec_error r')"
proof -
  have inj: "inj phase_json" by (simp add: inj_def)
  have "rec_ts_ms r = rec_ts_ms r' \<and> rec_station r = rec_station r' \<and> rec_work_order r = rec_work_order r' \<and>
      rec_operator r = rec_operator r' \<and> rec_port r = rec_port r' \<and> rec_product r = rec_product r' \<and>
      rec_pac r = rec_pac r' \<and> rec_result r = rec_result r' \<and> rec_attempts r = rec_attempts r' \<and>
      rec_bytes r = rec_bytes r' \<and> rec_flash_ms r = rec_flash_ms r' \<and> rec_total_ms r = rec_total_ms r' \<and>
      rec_phases r = rec_phases r' \<and> rec_firmware r = rec_firmware r' \<and> rec_imei r = rec_imei r' \<and>
      map_option (unit_error_text shown) (rec_error r) = map_option (unit_error_text shown) (rec_error r')"
    using assms unfolding record_json_def
    by (simp only: json.inject list.inject prod.inject json_option_eq outcome_json_eq inj_map_eq_map [OF inj]
        word_unat_eq_iff [symmetric] simp_thms)
  then show "r\<lparr>rec_error := None\<rparr> = r'\<lparr>rec_error := None\<rparr>"
    "map_option (unit_error_text shown) (rec_error r) = map_option (unit_error_text shown) (rec_error r')"
    by (simp_all add: unit_record.equality)
qed

section \<open>A compact serialiser\<close>

text \<open>One that meets the contract of the parameter, for the example: JSON text without white space, control
  characters escaped.\<close>

definition json_char :: "u32 \<Rightarrow> rust_string" where
  "json_char c =
     (if c = 34 \<or> c = 92 then [92, c]
      else if c < 32 then [92, 117, 48, 48] @ pad_zeros 2 (fmt_digits 16 (unat c))
      else [c])"

fun json_text :: "json \<Rightarrow> rust_string" where
  "json_text JNull = str ''null''"
| "json_text (JString s) = [34] @ concat (map json_char s) @ [34]"
| "json_text (JInt n) = fmt_dec n"
| "json_text (JSeconds n) = fmt_dec (n div 1000) @ [46] @ pad_zeros 3 (fmt_dec (n mod 1000))"
| "json_text (JArray vs) = [91] @ join_text [44] (map json_text vs) @ [93]"
| "json_text (JObject kvs) = [123] @ join_text [44] (map (\<lambda>(k, v). [34] @ concat (map json_char (str k)) @ [34, 58] @ json_text v) kvs) @ [125]"

lemma set_join_text: "set (join_text sep ss) \<subseteq> set sep \<union> \<Union> (set ` set ss)"
  by (induction sep ss rule: join_text.induct) auto

lemma digits_no_newline: "10 \<notin> set (fmt_digits 10 n)" "10 \<notin> set (fmt_digits 16 n)"
  using fmt_digits_plain [of 10 10 n] fmt_digits_plain [of 16 10 n] by (auto simp: plain_char_def)

lemma json_char_no_newline: "10 \<notin> set (json_char c)"
  using digits_no_newline(2) [of "unat c"] by (auto simp: json_char_def pad_zeros_def)

lemma json_no_newline: "10 \<notin> set (json_text v)"
proof (induction v rule: json_text.induct)
  case (5 vs)
  then show ?case using set_join_text [of "[44]" "map json_text vs"] by auto
next
  case (6 kvs)
  let ?f = "\<lambda>(k, v). [34] @ concat (map json_char (str k)) @ [34, 58] @ json_text v"
  have "10 \<notin> set (?f kv)" if "kv \<in> set kvs" for kv
    using 6 [OF that] json_char_no_newline by (cases kv) auto
  then have "10 \<notin> set (join_text [44] (map ?f kvs))" using set_join_text [of "[44]" "map ?f kvs"] by auto
  then show ?case by simp
qed (use json_char_no_newline digits_no_newline in \<open>auto simp: str_def fmt_dec_def pad_zeros_def\<close>)

section \<open>Properties\<close>



end
