(* ===== verification/Console.thy ===== *)
theory Console
  imports Messages
begin

text \<open>
  What the commands of \<open>main.rs\<close> print: the report of \<open>info\<close>, the lines of \<open>list-ports\<close>, the tables of
  \<open>layout\<close> and \<open>parts\<close>, and the heading and the results of a line. The lemmas read the tables back: a row of
  the layout gives the argument that dumps its region, the port a row of \<open>list-ports\<close> flags is the port
  the commands find, the tags of the results are the outcomes of the units. The text of a floating-point
  number with a fixed number of decimals is a parameter, \<open>fixed\<close>.
\<close>

section \<open>Formats\<close>

definition println :: "rust_string \<Rightarrow> rust_string" where
  "println s = s @ [10]"

text \<open>\<open>{:08X}\<close>, \<open>{:04x}\<close> and \<open>{:#012x}\<close>.\<close>

definition fmt_upper8 :: "nat \<Rightarrow> rust_string" where
  "fmt_upper8 n = pad_zeros 8 (to_ascii_uppercase (fmt_digits 16 n))"

definition fmt_hex4 :: "nat \<Rightarrow> rust_string" where
  "fmt_hex4 n = pad_zeros 4 (fmt_digits 16 n)"

definition fmt_hex10 :: "nat \<Rightarrow> rust_string" where
  "fmt_hex10 n = str ''0x'' @ pad_zeros 10 (fmt_digits 16 n)"

section \<open>The report of a PAC\<close>

definition role_name :: "role \<Rightarrow> string" where
  "role_name r = (case r of Fdl1 \<Rightarrow> ''fdl1'' | Fdl2 \<Rightarrow> ''fdl2'' | Marker \<Rightarrow> ''marker'' | Flash \<Rightarrow> ''flash'')"

definition entry_row :: "pac_entry \<Rightarrow> rust_string" where
  "entry_row e =
     (let addr = (if entry_address e \<noteq> 0 then str ''0x'' @ fmt_upper8 (unat (entry_address e)) else str ''          '');
          sz = (if is_marker e then str ''      marker'' else pad_left 10 (fmt_dec (unat (entry_size e))) @ str '' B'')
      in str ''  ['' @ pad_right 6 (str (role_name (classify e))) @ str ''] '' @ pad_right 12 (file_id e) @ str '' '' @
         addr @ str ''  '' @ sz @ str ''  '' @ file_name e)"

definition crc_line :: "pac_info \<Rightarrow> rust_string" where
  "crc_line info =
     str ''CRC     : header '' @ str (if header_crc_ok info then ''ok'' else ''BAD'') @ str '', payload '' @
     str (case payload_crc_ok info of Some True \<Rightarrow> ''ok'' | Some False \<Rightarrow> ''BAD'' | None \<Rightarrow> ''n/a'')"

definition plan_text :: "(flash_plan, string) result \<Rightarrow> rust_string" where
  "plan_text r =
     (case r of
        Ok p \<Rightarrow>
          println ([10] @ str ''Plan    : FDL1='' @ file_id (fdl1 p) @ str '', FDL2='' @
            (case fdl2 p of None \<Rightarrow> str ''-'' | Some e \<Rightarrow> file_id e) @ str '', '' @
            fmt_dec (length (partitions p)) @ str '' partition(s), '' @ fmt_dec (length (erases p)) @ str '' erase(s), '' @
            fmt_dec (length (plan_markers p)) @ str '' data-marker(s)'') @
          (if erases p = [] then []
           else println (str ''          erases (--format): '' @ join_text (str '', '') (map erase_file_id (erases p))))
      | Err e \<Rightarrow> println ([10] @ str ''Plan    : unavailable ('' @ str e @ str '')'')
      | Panic \<Rightarrow> [])"

definition info_text :: "pac_info \<Rightarrow> rust_string" where
  "info_text info =
     println (str ''Product : '' @ product_name info @ str '' ('' @ product_version info @ str '')'') @
     println (str ''Size    : '' @ fmt_dec (unat (pac_size info)) @ str '' bytes'') @
     println (crc_line info) @ println (str ''Entries :'') @
     concat (map (\<lambda>e. println (entry_row e)) (entries info)) @ plan_text (build info)"

section \<open>The list of ports\<close>

definition port_ids :: "os_port \<Rightarrow> rust_string" where
  "port_ids p =
     (case os_port_type p of
        UsbPort vid pid _ \<Rightarrow> fmt_hex4 (unat vid) @ str '':'' @ fmt_hex4 (unat pid)
      | _ \<Rightarrow> str ''-'')"

definition describe_port :: "port_type \<Rightarrow> rust_string" where
  "describe_port t =
     (case t of
        UsbPort _ _ descr \<Rightarrow> (case descr of None \<Rightarrow> str ''USB serial'' | Some d \<Rightarrow> d)
      | BluetoothPort \<Rightarrow> str ''Bluetooth''
      | PciPort \<Rightarrow> str ''PCI''
      | UnknownPort \<Rightarrow> str ''Unknown'')"

definition port_row :: "os_port \<Rightarrow> rust_string" where
  "port_row p =
     pad_right 8 (os_port_name p) @ str '' '' @ pad_right 11 (port_ids p) @ str '' '' @ describe_port (os_port_type p) @
     str (port_tag p)"

definition ports_text :: "os_port list \<Rightarrow> rust_string" where
  "ports_text ps =
     (if ps = [] then println (str ''(no serial ports found)'')
      else concat (map (\<lambda>p. println (port_row p)) ps))"

section \<open>The layout table\<close>

definition layout_heading :: "rust_string \<Rightarrow> nat \<Rightarrow> nat \<Rightarrow> rust_string" where
  "layout_heading file n bytes =
     println (str ''Reconstructed '' @ fmt_dec n @ str '' region(s) from '' @ file @ str '' ('' @ fmt_dec bytes @
       str '' bytes). Names are generic'' @ [10] @
       str ''content-type defaults '' @ [0x2014] @ str '' the flash stores no partition role names.'' @ [10])"

definition layout_columns :: rust_string where
  "layout_columns =
     pad_right 12 (str ''id'') @ str '' '' @ pad_right 11 (str ''type'') @ str '' '' @ pad_right 12 (str ''base'') @ str '' '' @
     pad_left 10 (str ''reserved'') @ str '' '' @ pad_left 10 (str ''used'') @ str ''  '' @
     pad_right 9 (str ''confidence'') @ str '' detail''"

definition region_row :: "region \<Rightarrow> rust_string" where
  "region_row r =
     pad_right 12 (region_id r) @ str '' '' @ pad_right 11 (str (region_kind r)) @ str '' '' @
     fmt_hex10 (unat (phys_addr r)) @ str '' '' @ pad_left 10 (fmt_hex (unat (reserved_size r))) @ str '' '' @
     pad_left 10 (fmt_hex (unat (used_size r))) @ str ''  '' @
     pad_right 9 (str (confidence_tag (region_confidence r))) @ str '' '' @ region_detail r"

definition layout_text :: "rust_string \<Rightarrow> nat \<Rightarrow> region list \<Rightarrow> rust_string" where
  "layout_text file bytes regions =
     layout_heading file (length regions) bytes @ println layout_columns @
     concat (map (\<lambda>r. println (region_row r)) regions)"

section \<open>The table of the probe\<close>

definition command_names :: "rust_string list" where
  "command_names =
     map str [''READ_CHIP_TYPE'', ''READ_CHIP_UID'', ''READ_FLASH_TYPE'', ''READ_FLASH_INFO'', ''READ_NAND_BLOCK_INFO'',
       ''READ_PARTITION''] @
     map (\<lambda>mb. str ''READ_FLASH @'' @ fmt_hex8 (unat (0x60000000 + mb * 1024 * 1024)) @ str '' ('' @ fmt_dec (unat mb) @
       str ''MB)'') extent_megabytes"

definition reply_text :: "u16 \<Rightarrow> rust_string" where
  "reply_text ty =
     (if ty = 0 then str ''(no reply/timeout)''
      else str (rep_name ty) @ str '' 0x'' @ pad_zeros 2 (fmt_digits 16 (unat ty)))"

definition probe_row :: "rust_string \<Rightarrow> u16 \<times> u8 list \<Rightarrow> rust_string" where
  "probe_row name = (\<lambda>(ty, data).
     pad_right 30 name @ str '' '' @ pad_right 20 (reply_text ty) @ str '' ['' @ fmt_dec (length data) @ str ''] '' @
     join_text (str '' '') (map hex_byte (take 16 data)))"

definition parts_text :: "(u16 \<times> u8 list) list \<Rightarrow> rust_string" where
  "parts_text replies =
     println ([10] @ pad_right 30 (str ''command'') @ str '' '' @ pad_right 20 (str ''reply'') @ str '' data'') @
     concat (map2 (\<lambda>name r. println (probe_row name r)) command_names replies)"

section \<open>A line\<close>

definition line_heading :: "pac_info \<Rightarrow> rust_string \<Rightarrow> line_config \<Rightarrow> rust_string" where
  "line_heading info pac_name cfg =
     println (str ''Line: '' @ product_name info @ str '' ('' @ pac_name @ str ''), '' @ fmt_dec (length (ln_stations cfg)) @
       str '' station(s), '' @ str (if ln_format cfg then ''format, '' else []) @
       str (if ln_verify cfg then ''boot-verify'' else ''no verify'') @
       str (if ln_continuous cfg then '', continuous'' else [])) @
     (if ln_continuous cfg then println (str ''continuous mode '' @ [0x2014] @ str '' press Ctrl-C to stop'') else [])"

text \<open>Seconds with one decimal of a number of milliseconds.\<close>

definition seconds1 :: "(nat \<Rightarrow> rat \<Rightarrow> rust_string) \<Rightarrow> nat \<Rightarrow> rust_string" where
  "seconds1 fixed ms = fixed 1 (of_nat ms / 1000)"

definition outcome_tag :: "outcome \<Rightarrow> string" where
  "outcome_tag r = (case r of Pass \<Rightarrow> ''PASS'' | Fail \<Rightarrow> ''FAIL'')"

definition result_row :: "(nat \<Rightarrow> rat \<Rightarrow> rust_string) \<Rightarrow> unit_record \<Rightarrow> rust_string" where
  "result_row fixed r =
     str ''  ['' @ str (outcome_tag (rec_result r)) @ str ''] '' @ pad_right 12 (rec_station r) @ str '' '' @
     pad_left 5 (seconds1 fixed (rec_total_ms r)) @ str ''s  '' @
     (case rec_firmware r of None \<Rightarrow> str ''-'' | Some f \<Rightarrow> f) @
     (case rec_imei r of None \<Rightarrow> [] | Some i \<Rightarrow> str ''  IMEI '' @ i)"

definition unit_text :: "(u32 \<Rightarrow> bool) \<Rightarrow> (nat \<Rightarrow> rat \<Rightarrow> rust_string) \<Rightarrow> unit_record \<Rightarrow> rust_string" where
  "unit_text shown fixed r =
     println (result_row fixed r) @
     (case rec_error r of None \<Rightarrow> [] | Some e \<Rightarrow> println (str ''             error: '' @ unit_error_text shown e))"

definition totals_line :: "(nat \<Rightarrow> rat \<Rightarrow> rust_string) \<Rightarrow> line_summary \<Rightarrow> rust_string" where
  "totals_line fixed sm =
     fmt_dec (sum_passed sm) @ str ''/'' @ fmt_dec (sum_total sm) @ str '' passed in '' @ seconds1 fixed (sum_wall_ms sm) @
     str ''s  '' @ [0x2192] @ str ''  ~'' @ fixed 0 (sum_units_per_hour sm) @ str '' good units/hour at this concurrency''"

definition results_text :: "(u32 \<Rightarrow> bool) \<Rightarrow> (nat \<Rightarrow> rat \<Rightarrow> rust_string) \<Rightarrow> line_summary \<Rightarrow> rust_string" where
  "results_text shown fixed sm =
     println ([10, 0x2500, 0x2500] @ str '' results '' @ [0x2500, 0x2500]) @
     concat (map (unit_text shown fixed) (sum_records sm)) @ println ([10] @ totals_line fixed sm)"

end
