(* ===== verification/Exporter.thy ===== *)
theory Exporter
  imports Metrics
begin

text \<open>
  The Prometheus exporter of \<open>crates/sprdflash-line/src/metrics.rs\<close>: \<open>serve\<close> and the accept loop
  of \<open>serve_listener\<close>. The socket calls, the clock, the counters the stations keep adding to and the
  shutdown flag are the record \<open>listener\<close>; a call on a socket that blocks for ever is \<open>None\<close>. The loads of
  the five counters for one answer are taken as one look at them. Beside
  the loop stands a reader of its answers, a client that follows HTTP and the Prometheus text format.
\<close>

section \<open>The server\<close>

datatype accepted = Accepted | WouldBlock | AcceptError

record 'w listener =
  l_bind :: "rust_string \<Rightarrow> 'w \<Rightarrow> bool \<times> 'w"
  l_set_nonblocking :: "'w \<Rightarrow> bool \<times> 'w"
  l_accept :: "'w \<Rightarrow> accepted \<times> 'w"
  l_read :: "nat \<Rightarrow> 'w \<Rightarrow> 'w option"
  l_write_all :: "u8 list \<Rightarrow> 'w \<Rightarrow> 'w option"
  l_sleep :: "nat \<Rightarrow> 'w \<Rightarrow> 'w"
  l_shutdown :: "'w \<Rightarrow> bool"
  l_metrics :: "'w \<Rightarrow> metrics"
  l_now :: "'w \<Rightarrow> nat"

text \<open>One accepted client: its request is drained and dropped, the outcome of both calls is ignored.\<close>

definition answer_client :: "'w listener \<Rightarrow> (nat \<Rightarrow> rust_string) \<Rightarrow> 'w \<Rightarrow> 'w option" where
  "answer_client L seconds_text w =
     Option.bind (l_read L 1024 w) (\<lambda>w1.
       let body = render seconds_text (l_now L w1) (l_metrics L w1)
       in l_write_all L (utf8_bytes (http_response body)) w1)"

partial_function (option) serve_loop :: "'w listener \<Rightarrow> (nat \<Rightarrow> rust_string) \<Rightarrow> 'w \<Rightarrow> 'w option" where
  "serve_loop L seconds_text w =
     (if l_shutdown L w then Some w
      else (case l_accept L w of
              (r, w1) \<Rightarrow>
                (case r of
                   Accepted \<Rightarrow> Option.bind (answer_client L seconds_text w1) (serve_loop L seconds_text)
                 | WouldBlock \<Rightarrow> serve_loop L seconds_text (l_sleep L 50 w1)
                 | AcceptError \<Rightarrow> serve_loop L seconds_text w1)))"

definition serve_listener :: "'w listener \<Rightarrow> (nat \<Rightarrow> rust_string) \<Rightarrow> 'w \<Rightarrow> 'w option" where
  "serve_listener L seconds_text w =
     (case l_set_nonblocking L w of
        (ok, w1) \<Rightarrow> if ok then serve_loop L seconds_text w1 else Some w1)"

definition serve :: "'w listener \<Rightarrow> (nat \<Rightarrow> rust_string) \<Rightarrow> rust_string \<Rightarrow> 'w \<Rightarrow> 'w option" where
  "serve L seconds_text addr w =
     (case l_bind L addr w of
        (ok, w1) \<Rightarrow> if ok then serve_listener L seconds_text w1 else Some w1)"

text \<open>The thread of a line's exporter, from its start to the \<open>join\<close>: there is one if an address is configured, and
  the flag is set two seconds after the stations ended, at the time \<open>ended\<close>.\<close>

definition hold_open :: "nat \<Rightarrow> 'w listener \<Rightarrow> 'w listener" where
  "hold_open ended L = L\<lparr>l_shutdown := (\<lambda>w. ended + 2000 \<le> l_now L w)\<rparr>"

definition exporter_thread ::
    "'w listener \<Rightarrow> (nat \<Rightarrow> rust_string) \<Rightarrow> rust_string option \<Rightarrow> nat \<Rightarrow> 'w \<Rightarrow> 'w option"
where
  "exporter_thread L seconds_text addr ended w =
     (case addr of None \<Rightarrow> Some w | Some a \<Rightarrow> serve (hold_open ended L) seconds_text a w)"

section \<open>The server ends after the shutdown\<close>

text \<open>A network on which time passes and no client blocks a read or a write for ever.\<close>

locale moving_listener =
  fixes L :: "'w listener" and live :: "'w \<Rightarrow> bool"
  assumes binding_live: "live w \<Longrightarrow> live (snd (l_bind L addr w))" "live w \<Longrightarrow> live (snd (l_set_nonblocking L w))"
    and accept_moves: "live w \<Longrightarrow> live (snd (l_accept L w)) \<and> l_now L w < l_now L (snd (l_accept L w))"
    and read_returns: "live w \<Longrightarrow> \<exists>w'. l_read L n w = Some w' \<and> live w' \<and> l_now L w \<le> l_now L w'"
    and write_returns: "live w \<Longrightarrow> \<exists>w'. l_write_all L data w = Some w' \<and> live w' \<and> l_now L w \<le> l_now L w'"
    and sleep_moves: "live w \<Longrightarrow> live (l_sleep L n w) \<and> l_now L w \<le> l_now L (l_sleep L n w)"
begin

lemma answer_returns:
  assumes "live w"
  shows "\<exists>w'. answer_client L seconds_text w = Some w' \<and> live w' \<and> l_now L w \<le> l_now L w'"
proof -
  from read_returns [OF assms] obtain w1 where w1: "l_read L 1024 w = Some w1" "live w1" "l_now L w \<le> l_now L w1"
    by blast
  from write_returns [OF w1(2)] show ?thesis
    unfolding answer_client_def Let_def using w1 by (auto intro: order_trans)
qed

end

text \<open>On such a network with the flag set by the time \<open>limit\<close>, the loop runs out.\<close>

locale live_listener = moving_listener L live
  for L :: "'w listener" and live :: "'w \<Rightarrow> bool" +
  fixes limit :: nat
  assumes shutdown_by_limit: "live w \<Longrightarrow> limit \<le> l_now L w \<Longrightarrow> l_shutdown L w"
begin

lemma loop_returns: "live w \<Longrightarrow> \<exists>w'. serve_loop L seconds_text w = Some w' \<and> live w' \<and> l_shutdown L w'"
proof (induction "limit - l_now L w" arbitrary: w rule: less_induct)
  case less
  show ?case
  proof (cases "l_shutdown L w")
    case True
    with less.prems show ?thesis by (simp add: serve_loop.simps [of L seconds_text w])
  next
    case False
    obtain r w1 where r: "l_accept L w = (r, w1)" by fastforce
    have w1: "live w1" "l_now L w < l_now L w1" using accept_moves [OF less.prems] r by simp_all
    have early: "l_now L w < limit" using shutdown_by_limit [OF less.prems] False by force
    have again: "\<exists>w'. serve_loop L seconds_text w2 = Some w' \<and> live w' \<and> l_shutdown L w'"
      if "live w2" "l_now L w1 \<le> l_now L w2" for w2
      using that w1(2) early by (intro less.hyps) simp_all
    from answer_returns [OF w1(1)] obtain w2 where
      w2: "answer_client L seconds_text w1 = Some w2" "live w2" "l_now L w1 \<le> l_now L w2" by blast
    show ?thesis
      using again [OF w2(2,3)] again [OF w1(1)] again [of "l_sleep L 50 w1"] sleep_moves [OF w1(1)] False r w2(1)
      by (subst serve_loop.simps) (cases r; simp)
  qed
qed

lemma serve_returns:
  assumes "live w"
  shows "\<exists>w'. serve L seconds_text addr w = Some w' \<and> live w' \<and>
    (fst (l_bind L addr w) \<and> fst (l_set_nonblocking L (snd (l_bind L addr w))) \<longrightarrow> l_shutdown L w')"
  using assms binding_live(1) [of w addr] binding_live(2) loop_returns
  unfolding serve_def serve_listener_def by (fastforce split: prod.splits)

end

text \<open>The two seconds are such a limit.\<close>

lemma held_open_ends:
  assumes "moving_listener L live"
  shows "live_listener (hold_open ended L) live (ended + 2000)"
proof -
  note laws = moving_listener.binding_live [OF assms] moving_listener.accept_moves [OF assms]
    moving_listener.read_returns [OF assms] moving_listener.write_returns [OF assms] moving_listener.sleep_moves [OF assms]
  show ?thesis by unfold_locales (use laws in \<open>auto simp: hold_open_def\<close>)
qed

text \<open>A network of clients that all send their request: how many wait to be accepted, what was sent to
  those that were, and the time the flag is set.\<close>

record desk_net =
  net_waiting :: nat
  net_sent :: "u8 list list"
  net_clock :: nat

definition net_listener :: "metrics \<Rightarrow> nat \<Rightarrow> desk_net listener" where
  "net_listener m limit =
     \<lparr>l_bind = (\<lambda>addr w. (True, w)), l_set_nonblocking = (\<lambda>w. (True, w)),
      l_accept = (\<lambda>w. if net_waiting w = 0 then (WouldBlock, w\<lparr>net_clock := net_clock w + 1\<rparr>)
        else (Accepted, w\<lparr>net_waiting := net_waiting w - 1, net_clock := net_clock w + 1\<rparr>)),
      l_read = (\<lambda>n w. Some w), l_write_all = (\<lambda>data w. Some (w\<lparr>net_sent := net_sent w @ [data]\<rparr>)),
      l_sleep = (\<lambda>n w. w\<lparr>net_clock := net_clock w + n\<rparr>), l_shutdown = (\<lambda>w. limit \<le> net_clock w),
      l_metrics = (\<lambda>w. m), l_now = net_clock\<rparr>"

interpretation desk_exporter: live_listener "net_listener m limit" "\<lambda>w. True" limit
  by unfold_locales (simp_all add: net_listener_def)

section \<open>Reading an answer\<close>

text \<open>A client: the head of an answer ends at the first empty line, its \<open>Content-Length\<close> says how many bytes
  of body follow.\<close>

fun split_head :: "u8 list \<Rightarrow> (u8 list \<times> u8 list) option" where
  "split_head [] = None"
| "split_head (b # bs) =
     (if take 4 (b # bs) = [13, 10, 13, 10] then Some ([], drop 3 bs)
      else map_option (\<lambda>(h, r). (b # h, r)) (split_head bs))"

definition decimal :: "rust_string \<Rightarrow> nat option" where
  "decimal s =
     (if s \<noteq> [] \<and> (\<forall>c \<in> set s. 48 \<le> unat c \<and> unat c \<le> 57)
      then Some (foldl (\<lambda>a c. a * 10 + (unat c - 48)) 0 s) else None)"

definition field_value :: "string \<Rightarrow> rust_string list \<Rightarrow> rust_string option" where
  "field_value name ls = map_option (drop (length name)) (find (\<lambda>l. starts_with l (str name)) ls)"

definition number_field :: "string \<Rightarrow> rust_string \<Rightarrow> nat option" where
  "number_field name text = Option.bind (field_value name (str_lines text)) decimal"

definition http_body :: "u8 list \<Rightarrow> u8 list option" where
  "http_body resp =
     (case split_head resp of
        None \<Rightarrow> None
      | Some (h, r) \<Rightarrow>
          (case number_field ''Content-Length: '' (from_utf8_lossy h) of
             None \<Rightarrow> None
           | Some n \<Rightarrow> if n \<le> length r then Some (take n r) else None))"

text \<open>A scrape: the value of the metric line that starts with \<open>name\<close> in the body of an answer.\<close>

definition scrape :: "string \<Rightarrow> u8 list \<Rightarrow> nat option" where
  "scrape name resp = Option.bind (http_body resp) (\<lambda>b. number_field name (from_utf8_lossy b))"

lemma decimal_char: "d < 10 \<Longrightarrow> unat (digit_char d) = 48 + d"
proof -
  assume d: "d < 10"
  have "unat (word_of_nat (48 + d) :: u32) = 48 + d" using d by (intro unat_of_nat_u32) simp
  with d show ?thesis unfolding digit_char_def by (simp only: if_True)
qed

lemma decimal_fmt_dec: "decimal (fmt_dec n) = Some n"
proof -
  have "fmt_digits 10 n \<noteq> [] \<and> (\<forall>c \<in> set (fmt_digits 10 n). 48 \<le> unat c \<and> unat c \<le> 57) \<and>
      foldl (\<lambda>a c. a * 10 + (unat c - 48)) 0 (fmt_digits 10 n) = n"
  proof (induction n rule: less_induct)
    case (less n)
    show ?case
    proof (cases "n < 10")
      case True
      then show ?thesis by (simp add: fmt_digits.simps [of 10 n] decimal_char)
    next
      case False
      with less.IH [of "n div 10"] show ?thesis
        by (simp add: fmt_digits.simps [of 10 n] decimal_char)
    qed
  qed
  then show ?thesis by (simp add: decimal_def fmt_dec_def)
qed

text \<open>Printable ASCII: what every line of both texts consists of.\<close>

definition ascii_line :: "rust_string \<Rightarrow> bool" where
  "ascii_line s \<longleftrightarrow> (\<forall>c \<in> set s. 32 \<le> unat c \<and> unat c < 127)"

lemma ascii_line_simps [simp]:
  "ascii_line []" "ascii_line (c # s) \<longleftrightarrow> 32 \<le> unat c \<and> unat c < 127 \<and> ascii_line s"
  "ascii_line (s @ t) \<longleftrightarrow> ascii_line s \<and> ascii_line t"
  by (auto simp: ascii_line_def)

lemma ascii_line_fmt_dec [simp]: "ascii_line (fmt_dec n)"
  using decimal_fmt_dec [of n] by (force simp: ascii_line_def decimal_def split: if_splits)

lemma str_lines_cons:
  assumes "ascii_line l"
  shows "str_lines (l @ [10] @ rest) = l # str_lines rest" "str_lines (l @ [13, 10] @ rest) = l # str_lines rest"
proof -
  have "\<forall>c \<in> set l. \<not> c = 10" "\<forall>c \<in> set l. \<not> c = 13" using assms by (auto simp: ascii_line_def)
  then show "str_lines (l @ [10] @ rest) = l # str_lines rest" "str_lines (l @ [13, 10] @ rest) = l # str_lines rest"
    using position_append_hit [of l "\<lambda>c. c = 10" 10 rest] position_append_hit [of "l @ [13]" "\<lambda>c. c = 10" 10 rest]
    by (subst str_lines.simps; auto simp: strip_cr_def butlast_append)+
qed

lemma from_utf8_lossy_utf8_ascii:
  assumes "\<forall>c \<in> set s. unat c < 128"
  shows "from_utf8_lossy (utf8_bytes s) = s" "length (utf8_bytes s) = length s"
proof -
  have "\<forall>c \<in> set s. c < 0x80" using assms by (simp add: word_less_nat_alt)
  then have b: "utf8_bytes s = map ucast s" by (rule utf8_bytes_ascii)
  have "unat (ucast c :: u8) = unat c" if "c \<in> set s" for c
  proof -
    have "unat c < 128" using assms that by blast
    then have "unat c < 2 ^ 8" by simp
    then show ?thesis by (simp add: unsigned_ucast_eq take_bit_nat_eq_self)
  qed
  then have "\<forall>b \<in> set (map ucast s). b < (0x80 :: u8)" "map (\<lambda>c. ucast (ucast c :: u8)) s = s"
    using assms by (auto simp: word_less_nat_alt word_unat_eq_iff intro!: map_idI)
  then show "from_utf8_lossy (utf8_bytes s) = s"
    unfolding b by (simp add: from_utf8_lossy_ascii comp_def)
  show "length (utf8_bytes s) = length s" by (simp add: b)
qed

lemma split_head_line:
  assumes "\<forall>b \<in> set l. b \<noteq> 13" "c \<noteq> 13"
  shows "split_head (l @ [13, 10] @ c # rest) = map_option (\<lambda>(h, r). (l @ [13, 10] @ h, r)) (split_head (c # rest))"
  using assms(1)
proof (induction l)
  case Nil
  show ?case using assms(2) by (auto simp: option.map_comp comp_def split: prod.splits intro!: option.map_cong)
next
  case (Cons b l)
  then show ?case by (auto simp: option.map_comp comp_def split: prod.splits intro!: option.map_cong)
qed

lemma split_head_end:
  assumes "\<forall>b \<in> set l. b \<noteq> 13"
  shows "split_head (l @ [13, 10, 13, 10] @ rest) = Some (l, rest)"
  using assms by (induction l) auto

lemma utf8_no_cr:
  assumes "ascii_line l"
  shows "\<forall>b \<in> set (utf8_bytes l). b \<noteq> 13"
proof -
  have "from_utf8_lossy (utf8_bytes l) = l" "\<forall>c \<in> set l. c < 0x80"
    using assms by (auto simp: ascii_line_def word_less_nat_alt intro!: from_utf8_lossy_utf8_ascii)
  then have "utf8_bytes l = map ucast l" by (simp add: utf8_bytes_ascii)
  moreover have "(ucast c :: u8) \<noteq> 13" if "c \<in> set l" for c
  proof -
    have c: "32 \<le> unat c" "unat c < 2 ^ 8" using assms that by (auto simp: ascii_line_def)
    then have "unat (ucast c :: u8) = unat c" by (simp add: unsigned_ucast_eq take_bit_nat_eq_self)
    with c(1) have "unat (ucast c :: u8) \<noteq> unat (13 :: u8)" by simp
    then show ?thesis by metis
  qed
  ultimately show ?thesis by auto
qed

definition head_lines :: "rust_string \<Rightarrow> rust_string list" where
  "head_lines body =
     [str ''HTTP/1.1 200 OK'', str ''Content-Type: text/plain; version=0.0.4'',
      str ''Content-Length: '' @ fmt_dec (length (utf8_bytes body)), str ''Connection: close'']"

lemma ascii_head_lines: "l \<in> set (head_lines body) \<Longrightarrow> ascii_line l"
  by (auto simp: head_lines_def)

lemma http_response_lines:
  "http_response body =
     head_lines body ! 0 @ [13, 10] @ head_lines body ! 1 @ [13, 10] @ head_lines body ! 2 @ [13, 10] @
     head_lines body ! 3 @ [13, 10, 13, 10] @ body"
  by (simp add: http_response_def head_lines_def)

lemma split_head_lines:
  assumes "ascii_line l" "ascii_line k" "k \<noteq> []"
  shows "split_head (utf8_bytes l @ [13, 10] @ utf8_bytes k @ rest) =
    map_option (\<lambda>(h, r). (utf8_bytes l @ [13, 10] @ h, r)) (split_head (utf8_bytes k @ rest))"
proof -
  have "length (utf8_bytes k) = length k"
    using assms(2) by (intro from_utf8_lossy_utf8_ascii) (auto simp: ascii_line_def)
  with assms(3) obtain c cs where k: "utf8_bytes k = c # cs" by (cases "utf8_bytes k") auto
  with utf8_no_cr [OF assms(2)] have "c \<noteq> 13" by simp
  from split_head_line [OF utf8_no_cr [OF assms(1)] this, of "cs @ rest"] show ?thesis by (simp add: k)
qed

lemma utf8_crlf: "utf8_bytes (s @ [13, 10] @ t) = utf8_bytes s @ [13, 10] @ utf8_bytes t"
  by (simp add: utf8_char_def)

lemma http_body_response: "http_body (utf8_bytes (http_response body)) = Some (utf8_bytes body)"
proof -
  define a b c d where l: "a = head_lines body ! 0" "b = head_lines body ! 1" "c = head_lines body ! 2"
    "d = head_lines body ! 3"
  have ascii: "ascii_line a" "ascii_line b" "ascii_line c" "ascii_line d"
    unfolding l by (rule ascii_head_lines, simp add: head_lines_def)+
  have some: "a \<noteq> []" "b \<noteq> []" "c \<noteq> []" "d \<noteq> []" unfolding l by (simp_all add: head_lines_def)
  let ?h = "a @ [13, 10] @ b @ [13, 10] @ c @ [13, 10] @ d"
  have "http_response body = a @ [13, 10] @ b @ [13, 10] @ c @ [13, 10] @ d @ [13, 10] @ [13, 10] @ body"
    unfolding l http_response_lines by simp
  then have "utf8_bytes (http_response body) =
      utf8_bytes a @ [13, 10] @ utf8_bytes b @ [13, 10] @ utf8_bytes c @ [13, 10] @ utf8_bytes d @ [13, 10, 13, 10] @ utf8_bytes body"
    by (simp only: utf8_crlf) (simp add: utf8_char_def)
  moreover
  have d: "split_head (utf8_bytes d @ [13, 10, 13, 10] @ utf8_bytes body) = Some (utf8_bytes d, utf8_bytes body)"
    using utf8_no_cr [OF ascii(4)] by (rule split_head_end)
  have c: "split_head (utf8_bytes c @ [13, 10] @ utf8_bytes d @ [13, 10, 13, 10] @ utf8_bytes body) =
      Some (utf8_bytes (c @ [13, 10] @ d), utf8_bytes body)"
    unfolding split_head_lines [OF ascii(3,4) some(4)] d utf8_crlf by simp
  have b: "split_head (utf8_bytes b @ [13, 10] @ utf8_bytes c @ [13, 10] @ utf8_bytes d @ [13, 10, 13, 10] @ utf8_bytes body) =
      Some (utf8_bytes (b @ [13, 10] @ c @ [13, 10] @ d), utf8_bytes body)"
    unfolding split_head_lines [OF ascii(2,3) some(3)] c utf8_crlf by simp
  have "split_head (utf8_bytes a @ [13, 10] @ utf8_bytes b @ [13, 10] @ utf8_bytes c @ [13, 10] @ utf8_bytes d @
      [13, 10, 13, 10] @ utf8_bytes body) = Some (utf8_bytes ?h, utf8_bytes body)"
    unfolding split_head_lines [OF ascii(1,2) some(2)] b utf8_crlf by simp
  ultimately have "split_head (utf8_bytes (http_response body)) = Some (utf8_bytes ?h, utf8_bytes body)"
    by simp
  moreover have "from_utf8_lossy (utf8_bytes ?h) = ?h"
    using ascii by (intro from_utf8_lossy_utf8_ascii) (auto simp: ascii_line_def)
  moreover have "str_lines ?h = [a, b, c, d]"
  proof -
    have "position (\<lambda>x. x = 10) d = None" using ascii(4) by (auto simp: ascii_line_def position_None_iff)
    then have "str_lines d = [d]" using some(4) by (subst str_lines.simps) simp
    then show ?thesis
      unfolding str_lines_cons(2) [OF ascii(1)] str_lines_cons(2) [OF ascii(2)] str_lines_cons(2) [OF ascii(3)] by simp
  qed
  moreover have "field_value ''Content-Length: '' [a, b, c, d] = Some (fmt_dec (length (utf8_bytes body)))"
    unfolding l by (simp add: head_lines_def field_value_def starts_with_def)
  ultimately show ?thesis
    by (simp add: http_body_def number_field_def decimal_fmt_dec)
qed

section \<open>What a scrape reads\<close>

text \<open>The lines of the exported text.\<close>

definition metric_lines :: "(nat \<Rightarrow> rust_string) \<Rightarrow> nat \<Rightarrow> metrics \<Rightarrow> rust_string list" where
  "metric_lines seconds_text t m =
     [str ''# HELP sprdflash_units_total Units flashed, by result.'',
      str ''# TYPE sprdflash_units_total counter'',
      str ''sprdflash_units_total{result=\"pass\"} '' @ fmt_dec (unat (m_passed m)),
      str ''sprdflash_units_total{result=\"fail\"} '' @ fmt_dec (unat (m_failed m)),
      str ''# HELP sprdflash_retries_total Retry attempts beyond the first.'',
      str ''# TYPE sprdflash_retries_total counter'',
      str ''sprdflash_retries_total '' @ fmt_dec (unat (m_retries m)),
      str ''# HELP sprdflash_bytes_total Payload bytes written.'',
      str ''# TYPE sprdflash_bytes_total counter'',
      str ''sprdflash_bytes_total '' @ fmt_dec (unat (m_bytes m)),
      str ''# HELP sprdflash_flash_seconds_total Sum of flash wall-clock seconds.'',
      str ''# TYPE sprdflash_flash_seconds_total counter'',
      str ''sprdflash_flash_seconds_total '' @ seconds_text (unat (m_flash_millis m)),
      str ''# HELP sprdflash_uptime_seconds Exporter uptime.'',
      str ''# TYPE sprdflash_uptime_seconds gauge'',
      str ''sprdflash_uptime_seconds '' @ seconds_text (t - m_started m)]"

lemma render_lines: "render seconds_text t m = concat (map (\<lambda>l. l @ [10]) (metric_lines seconds_text t m))"
  by (simp add: render_def metric_lines_def metric_line_def text_line_def)

lemma str_lines_concat: "\<forall>l \<in> set ls. ascii_line l \<Longrightarrow> str_lines (concat (map (\<lambda>l. l @ [10]) ls)) = ls"
proof (induction ls)
  case Nil
  show ?case by (subst str_lines.simps) simp
next
  case (Cons l ls)
  then show ?case using str_lines_cons(1) [of l "concat (map (\<lambda>l. l @ [10]) ls)"] by simp
qed

lemma str_lines_render:
  assumes "\<forall>n. ascii_line (seconds_text n)"
  shows "str_lines (render seconds_text t m) = metric_lines seconds_text t m"
  unfolding render_lines using assms by (intro str_lines_concat) (simp add: metric_lines_def)

lemma render_ascii:
  assumes "\<forall>n. ascii_line (seconds_text n)"
  shows "from_utf8_lossy (utf8_bytes (render seconds_text t m)) = render seconds_text t m"
proof (intro from_utf8_lossy_utf8_ascii ballI)
  fix c assume "c \<in> set (render seconds_text t m)"
  moreover have "\<forall>l \<in> set (metric_lines seconds_text t m). ascii_line l" using assms by (simp add: metric_lines_def)
  ultimately show "unat c < 128" by (fastforce simp: render_lines ascii_line_def split: if_splits)
qed

lemma scrape_render:
  assumes "\<forall>n. ascii_line (seconds_text n)"
  shows "scrape name (utf8_bytes (http_response (render seconds_text t m))) =
    Option.bind (field_value name (metric_lines seconds_text t m)) decimal"
  by (simp add: scrape_def http_body_response render_ascii [OF assms] number_field_def str_lines_render [OF assms])

text \<open>C18: what a scraper reads is what the line counted: out of the bytes the exporter sends for a set of
  counters, a client that takes \<open>Content-Length\<close> bytes after the head and the number on the metric's line gets
  exactly the units passed, the units failed, the retries and the bytes.\<close>

theorem scrape_reads_the_counters:
  assumes "\<forall>n. ascii_line (seconds_text n)" "l_read L 1024 w = Some w1" "m = l_metrics L w1"
  shows "\<exists>resp. answer_client L seconds_text w = l_write_all L resp w1 \<and>
    scrape ''sprdflash_units_total{result=\"pass\"} '' resp = Some (unat (m_passed m)) \<and>
    scrape ''sprdflash_units_total{result=\"fail\"} '' resp = Some (unat (m_failed m)) \<and>
    scrape ''sprdflash_retries_total '' resp = Some (unat (m_retries m)) \<and>
    scrape ''sprdflash_bytes_total '' resp = Some (unat (m_bytes m))"
proof -
  have "answer_client L seconds_text w =
      l_write_all L (utf8_bytes (http_response (render seconds_text (l_now L w1) m))) w1"
    by (simp add: answer_client_def assms(2,3))
  moreover note scrape_render [OF assms(1), of _ "l_now L w1" m]
  ultimately show ?thesis
    by (intro exI [of _ "utf8_bytes (http_response (render seconds_text (l_now L w1) m))"])
      (simp add: field_value_def metric_lines_def starts_with_def decimal_fmt_dec)
qed

theorem scrape_reads_the_counters_witness:
  "\<exists>resp. answer_client (net_listener (metrics_default 0) 9) fmt_dec \<lparr>net_waiting = 0, net_sent = [], net_clock = 5\<rparr> =
     Some \<lparr>net_waiting = 0, net_sent = [resp], net_clock = 5\<rparr> \<and>
     scrape ''sprdflash_retries_total '' resp = Some 0"
  using scrape_reads_the_counters [of fmt_dec "net_listener (metrics_default 0) 9"
      "\<lparr>net_waiting = 0, net_sent = [], net_clock = 5\<rparr>" "\<lparr>net_waiting = 0, net_sent = [], net_clock = 5\<rparr>"]
  by (auto simp: net_listener_def metrics_default_def)

text \<open>The exporter ends: on a network on which time passes and no client blocks a read or a write for ever,
  \<open>serve\<close> returns once the shutdown flag is set, however many clients come.\<close>

lemma exporter_ends:
  assumes "live_listener L live limit" "live w"
  shows "\<exists>w'. serve L seconds_text addr w = Some w' \<and> live w'"
  using live_listener.serve_returns [OF assms] by blast

text \<open>So does the thread of a line's exporter, and once it could be bound it answers until two seconds after the
  stations ended, the time a scraper has to see the final numbers.\<close>

lemma exporter_is_held_open:
  assumes "moving_listener L live" "live w"
  shows "\<exists>w'. exporter_thread L seconds_text (Some addr) ended w = Some w' \<and>
    (fst (l_bind L addr w) \<and> fst (l_set_nonblocking L (snd (l_bind L addr w))) \<longrightarrow> ended + 2000 \<le> l_now L w')"
  using live_listener.serve_returns [OF held_open_ends [OF assms(1), of ended] assms(2), of seconds_text addr]
  by (auto simp: exporter_thread_def hold_open_def)

text \<open>The other side of it: the socket of an accepted client is not set non-blocking (on Linux it does not
  inherit that from the listener), so a client that connects and sends nothing keeps the server, and the \<open>join\<close>
  at the end of the line, for ever.\<close>

lemma silent_client_blocks_exporter:
  assumes "\<not> l_shutdown L w" "l_accept L w = (Accepted, w1)" "l_read L 1024 w1 = None"
  shows "serve_loop L seconds_text w = None"
  using assms by (subst serve_loop.simps) (simp add: answer_client_def)

end
