(* ===== verification/Program.thy ===== *)
theory Program
  imports Clone Retry Console Exporter
begin

text \<open>
  The program as a whole: the commands of \<open>main.rs\<close> with the files they read and write, and the
  dispatch of \<open>main\<close>. The operating system is the record \<open>host\<close>: the bench, the calls on files and
  the standard output. The tables of the commands are in \<open>Console\<close>; the progress and the closing remarks of the
  commands that work on a device are left out.
  The argument parser (\<open>clap\<close>) is left out: a run starts with a value of \<open>cli_command\<close>, as
  \<open>Cli::parse\<close> returns it, with \<open>FlashArgs\<close> and \<open>LineArgs\<close> as \<open>main\<close> fills them in.
\<close>

section \<open>Files\<close>

type_synonym path = rust_string

record 'w host =
  h_bench :: "'w bench"
  h_read_file :: "path \<Rightarrow> 'w \<Rightarrow> u8 list option \<times> 'w"
  h_create_dir :: "path \<Rightarrow> 'w \<Rightarrow> bool \<times> 'w"
  h_write_file :: "path \<Rightarrow> u8 list \<Rightarrow> 'w \<Rightarrow> bool \<times> 'w"
  h_open_append :: "path \<Rightarrow> 'w \<Rightarrow> bool \<times> 'w"
  h_print :: "rust_string \<Rightarrow> 'w \<Rightarrow> 'w"

definition read_file :: "'w host \<Rightarrow> path \<Rightarrow> (u8 list, cli_error, 'w) io" where
  "read_file H p = io_bind (io_query (h_read_file H p)) (\<lambda>r. io_lift (ok_or r (CliReadFile p)))"

definition create_dir :: "'w host \<Rightarrow> path \<Rightarrow> (unit, cli_error, 'w) io" where
  "create_dir H p = io_bind (io_query (h_create_dir H p)) (\<lambda>ok. if ok then io_return () else io_fail (CliCreateDir p))"

definition write_file :: "'w host \<Rightarrow> path \<Rightarrow> u8 list \<Rightarrow> (unit, cli_error, 'w) io" where
  "write_file H p data =
     io_bind (io_query (h_write_file H p data)) (\<lambda>ok. if ok then io_return () else io_fail (CliWriteFile p))"

definition print_text :: "'w host \<Rightarrow> rust_string \<Rightarrow> (unit, 'e, 'w) io" where
  "print_text H s = io_modify (h_print H s)"

text \<open>\<open>Path::join\<close> of a Unix path: an absolute name replaces the directory.\<close>

definition join_path :: "path \<Rightarrow> rust_string \<Rightarrow> path" where
  "join_path dir name =
     (if name \<noteq> [] \<and> hd name = 47 then name
      else if dir = [] \<or> last dir = 47 then dir @ name
      else dir @ [47] @ name)"

definition base_name :: "path \<Rightarrow> rust_string" where
  "base_name p = rev (takeWhile (\<lambda>c. c \<noteq> 47) (rev p))"

section \<open>Commands\<close>

text \<open>The files of a dump, written one after the other.\<close>

fun write_files :: "'w host \<Rightarrow> path \<Rightarrow> (rust_string \<times> u8 list) list \<Rightarrow> (unit, cli_error, 'w) io" where
  "write_files H dir [] = io_return ()"
| "write_files H dir ((name, data) # rest) =
     io_bind (write_file H (join_path dir name) data) (\<lambda>_. write_files H dir rest)"

definition cmd_info :: "'w host \<Rightarrow> path \<Rightarrow> bool \<Rightarrow> (unit, cli_error, 'w) io" where
  "cmd_info H p verify =
     io_bind (read_file H p) (\<lambda>pac.
     io_bind (io_lift (map_err CliPac (parse pac verify))) (\<lambda>info.
     io_bind (print_text H (info_text info)) (\<lambda>_.
       if crc_ok info then io_return () else io_fail CliChecksum)))"

definition cmd_list_ports :: "'w host \<Rightarrow> (unit, cli_error, 'w) io" where
  "cmd_list_ports H =
     io_bind (io_query (os_ports (h_bench H))) (\<lambda>r.
     io_bind (io_lift (ok_or r CliEnumerate)) (\<lambda>ps.
       print_text H (ports_text ps)))"

definition cmd_dump ::
    "'w host \<Rightarrow> path \<Rightarrow> path \<Rightarrow> rust_string list \<Rightarrow> bool \<Rightarrow> rust_string option \<Rightarrow> bool \<Rightarrow> (unit, cli_error, 'w) io"
where
  "cmd_dump H p out specs full port enter =
     io_bind (read_file H p) (\<lambda>pac.
       dump_pac (h_bench H) (create_dir H out) (write_files H out) pac specs full port enter)"

definition cmd_clone ::
    "'w host \<Rightarrow> path \<Rightarrow> path \<Rightarrow> rust_string option \<Rightarrow> bool \<Rightarrow> (unit, cli_error, 'w) io"
where
  "cmd_clone H p out port enter =
     io_bind (read_file H p) (\<lambda>pac.
     io_bind (clone_pac (h_bench H) (write_file H out) pac port enter) (\<lambda>_.
       io_return ()))"

definition cmd_parts :: "'w host \<Rightarrow> path \<Rightarrow> rust_string option \<Rightarrow> bool \<Rightarrow> (unit, cli_error, 'w) io" where
  "cmd_parts H p port enter =
     io_bind (read_file H p) (\<lambda>pac.
     io_bind (parts_pac (h_bench H) pac port enter) (\<lambda>replies.
       print_text H (parts_text replies)))"

definition cmd_layout :: "'w host \<Rightarrow> path \<Rightarrow> path option \<Rightarrow> (unit, cli_error, 'w) io" where
  "cmd_layout H p out =
     io_bind (read_file H p) (\<lambda>img.
     io_bind (io_lift (layout_image img)) (\<lambda>(regions, xml).
     io_bind (print_text H (layout_text p (length img) regions)) (\<lambda>_.
       case out of
         None \<Rightarrow> print_text H (println ([10] @ xml))
       | Some o1 \<Rightarrow>
           io_bind (write_file H o1 (utf8_bytes xml)) (\<lambda>_.
             print_text H (println ([10] @ str ''Proposed BMAConfig -> '' @ o1))))))"

definition cmd_flash :: "'w host \<Rightarrow> path \<Rightarrow> flash_args \<Rightarrow> (unit, cli_error, 'w) io" where
  "cmd_flash H p a =
     io_bind (read_file H p) (\<lambda>pac. io_bind (flash_pac (h_bench H) a pac) (\<lambda>_. io_return ()))"

text \<open>What \<open>cmd_line\<close> hands to the run of the line: the job every unit gets and the configuration.\<close>

definition cmd_line :: "'w host \<Rightarrow> path \<Rightarrow> line_args \<Rightarrow> (unit_job \<times> line_config, cli_error, 'w) io" where
  "cmd_line H p a =
     io_bind (read_file H p) (\<lambda>pac.
     io_bind (line_setup (h_bench H) a pac) (\<lambda>(info, cfg).
     io_bind (print_text H (line_heading info (base_name p) cfg)) (\<lambda>_.
       io_return (line_job cfg info pac (base_name p), cfg))))"

text \<open>What it does with the summary of the line: the results and the exit code of the process.\<close>

definition finish_line ::
    "'w host \<Rightarrow> (u32 \<Rightarrow> bool) \<Rightarrow> (nat \<Rightarrow> rat \<Rightarrow> rust_string) \<Rightarrow> line_summary \<Rightarrow> (nat, cli_error, 'w) io"
where
  "finish_line H shown fixed sm =
     io_bind (print_text H (results_text shown fixed sm)) (\<lambda>_. io_return (line_exit_code sm))"

text \<open>How \<open>run\<close> starts: a records file that cannot be opened is logged and left out. The records this run
  appends are the sink.\<close>

definition line_start :: "'w host \<Rightarrow> line_config \<Rightarrow> 'w \<Rightarrow> line_state \<times> 'w" where
  "line_start H cfg w =
     (case ln_records_path cfg of
        None \<Rightarrow> (line_init cfg (os_now (h_bench H) w) None, w)
      | Some p \<Rightarrow>
          (case h_open_append H p w of
             (ok, w1) \<Rightarrow> (line_init cfg (os_now (h_bench H) w1) (if ok then Some [] else None), w1)))"

section \<open>The dispatch\<close>

datatype cli_command =
    Info path bool
  | ListPorts
  | Reset "rust_string option"
  | Dump path path "rust_string list" bool "rust_string option" bool
  | CloneDevice path path "rust_string option" bool
  | Parts path "rust_string option" bool
  | Layout path "path option"
  | FlashDevice path flash_args
  | RunLine path line_args

text \<open>\<open>None\<close>: the command is done; a line is still to be run.\<close>

definition run_command ::
    "'w host \<Rightarrow> cli_command \<Rightarrow> ((unit_job \<times> line_config) option, cli_error, 'w) io"
where
  "run_command H c =
     (case c of
        Info p no_verify \<Rightarrow> io_bind (cmd_info H p (\<not> no_verify)) (\<lambda>_. io_return None)
      | ListPorts \<Rightarrow> io_bind (cmd_list_ports H) (\<lambda>_. io_return None)
      | Reset port \<Rightarrow> io_bind (cmd_reset (h_bench H) port) (\<lambda>_. io_return None)
      | Dump p out specs full port enter \<Rightarrow> io_bind (cmd_dump H p out specs full port enter) (\<lambda>_. io_return None)
      | CloneDevice p out port enter \<Rightarrow> io_bind (cmd_clone H p out port enter) (\<lambda>_. io_return None)
      | Parts p port enter \<Rightarrow> io_bind (cmd_parts H p port enter) (\<lambda>_. io_return None)
      | Layout p out \<Rightarrow> io_bind (cmd_layout H p out) (\<lambda>_. io_return None)
      | FlashDevice p a \<Rightarrow> io_bind (cmd_flash H p a) (\<lambda>_. io_return None)
      | RunLine p a \<Rightarrow> io_bind (cmd_line H p a) (\<lambda>x. io_return (Some x)))"

section \<open>Every command returns\<close>

text \<open>A host whose bench lets time pass and whose calls on files return.\<close>

locale live_host = live_bench "h_bench H" live pending
  for H :: "'w host" and live :: "'w \<Rightarrow> bool" and pending :: "rust_string \<Rightarrow> 'w \<Rightarrow> nat" +
  assumes files_live: "live w \<Longrightarrow> live (snd (h_read_file H p w))"
      "live w \<Longrightarrow> live (snd (h_create_dir H p w))"
      "live w \<Longrightarrow> live (snd (h_write_file H p data w))"
    and print_live: "live w \<Longrightarrow> live (h_print H s w)"
begin

lemma total_file_query: "(\<And>w. live w \<Longrightarrow> live (snd (f w))) \<Longrightarrow> io_total live (io_query f)"
  by (fastforce simp: io_query_def io_total_def split: prod.splits)

lemma total_files:
  "io_total live (read_file H p)" "io_total live (create_dir H p)" "io_total live (write_file H p data)"
  unfolding read_file_def create_dir_def write_file_def
  by (auto intro!: io_total_bind total_file_query files_live simp del: io_basic_simps)

lemma total_print_text: "io_total live (print_text H s)"
  by (simp add: print_text_def io_total_def io_modify_def print_live)

lemma total_write_files: "io_total live (write_files H dir files)"
proof (induction files)
  case (Cons f files)
  then show ?case by (cases f) (auto intro!: io_total_bind total_files simp del: io_basic_simps)
qed (simp only: write_files.simps io_total_basic)

lemma total_flash_pac: "io_total live (flash_pac (h_bench H) a pac)"
  unfolding flash_pac_def flash_with_recovery_def
  by (auto intro!: io_total_bind total_flash_attempts total_wait_for_module simp del: io_basic_simps)

lemma total_dump_pac:
  assumes "io_total live prepare" "\<And>files. io_total live (store files)"
  shows "io_total live (dump_pac (h_bench H) prepare store pac specs full port enter)"
  unfolding dump_pac_def using assms
  by (auto intro!: io_total_bind total_resolve io_total_map_err total_serial_open total_owning wire.total_dump_full
      wire.total_dump simp del: io_basic_simps split: prod.splits)

lemma total_clone_pac:
  assumes "\<And>golden. io_total live (store golden)"
  shows "io_total live (clone_pac (h_bench H) store pac port enter)"
  unfolding clone_pac_def using assms
  by (auto intro!: io_total_bind total_resolve io_total_map_err total_serial_open total_owning wire.total_dump
      simp del: io_basic_simps)

lemma total_parts_pac: "io_total live (parts_pac (h_bench H) pac port enter)"
  unfolding parts_pac_def
  by (auto intro!: io_total_bind total_resolve io_total_map_err total_serial_open total_owning wire.total_probe_commands
      simp del: io_basic_simps)

lemma total_cmd_reset: "io_total live (cmd_reset (h_bench H) port)"
  unfolding cmd_reset_def
  by (auto intro!: io_total_bind total_query enumeration_moves io_total_map_err total_serial_open total_owning
      total_send_normal_reset simp del: io_basic_simps split: option.splits)

lemma total_build_stations: "io_total live (build_stations (h_bench H) specs)"
  unfolding build_stations_def
  by (auto intro!: io_total_bind total_query enumeration_moves simp del: io_basic_simps simp: Let_def)

lemma total_line_setup: "io_total live (line_setup (h_bench H) a pac)"
  unfolding line_setup_def
  by (auto intro!: io_total_bind total_build_stations simp del: io_basic_simps)

lemma total_list_ports: "io_total live (cmd_list_ports H)"
  unfolding cmd_list_ports_def
  by (auto intro!: io_total_bind total_query ports_move total_print_text simp del: io_basic_simps)

lemma total_run_command: "io_total live (run_command H c)"
  unfolding run_command_def cmd_info_def cmd_dump_def cmd_clone_def cmd_parts_def cmd_layout_def cmd_flash_def cmd_line_def
  by (cases c) (auto intro!: io_total_bind total_files total_write_files total_flash_pac total_dump_pac total_clone_pac
      total_parts_pac total_cmd_reset total_line_setup total_list_ports total_print_text
      simp del: io_basic_simps split: prod.splits option.splits)

end

text \<open>The mock device on a bench, and files: a table of those that can be read, and writes that all succeed.\<close>

definition mock_host :: "(path \<times> u8 list) list \<Rightarrow> os_port list \<Rightarrow> nat \<Rightarrow> mock_world host" where
  "mock_host files ps pace =
     \<lparr>h_bench = mock_bench ps pace, h_read_file = (\<lambda>p w. (map_of files p, w)),
      h_create_dir = (\<lambda>p w. (True, w)), h_write_file = (\<lambda>p data w. (True, w)),
      h_open_append = (\<lambda>p w. (True, w)), h_print = (\<lambda>s w. w)\<rparr>"

interpretation mock_desk: live_host "mock_host files ps 1" "\<lambda>w. True" "\<lambda>_ w. length (out_buf (device w))"
proof unfold_locales
qed (use mock_station.live_bench_axioms in \<open>auto simp: mock_host_def live_bench_def\<close>)

section \<open>Properties\<close>

lemma mock_host_read: "read_file (mock_host files ps pace) p w = Some (ok_or (map_of files p) (CliReadFile p), w)"
  by (simp add: read_file_def io_bind_def io_query_def mock_host_def)

text \<open>C13: a PAC that verified does not reach a device once it is damaged: after a change of up to two
  adjacent bytes anywhere but in the two CRC fields, \<open>flash\<close> (with its checks) and \<open>line\<close> both end with an error
  about the file and have done nothing but read it.\<close>

theorem corrupt_pac_is_refused:
  assumes "parse (p @ a @ s) True = Ok info" "crc_ok info"
    and "length a = length b" "a \<noteq> b" "length a \<le> 2" "length p + length a \<le> 2120 \<or> 2124 \<le> length p"
    and "h_read_file H file w = (Some (p @ b @ s), w')" "fa_verify args"
  shows "\<exists>e. (e = CliChecksum \<or> (\<exists>c. e = CliPac c)) \<and>
    cmd_flash H file args w = Some (Err e, w') \<and> cmd_line H file line w = Some (Err e, w')"
proof -
  have "\<exists>e. (e = CliChecksum \<or> (\<exists>c. e = CliPac c)) \<and> checked_pac (p @ b @ s) True = Err e"
  proof (cases "parse (p @ b @ s) True")
    case (Ok info')
    with verified_pac_detects_corruption [OF assms(1-6)] show ?thesis by (simp add: checked_pac_def)
  next
    case (Err c)
    then show ?thesis by (simp add: checked_pac_def)
  next
    case Panic
    with parse_no_panic [of "p @ b @ s" True] show ?thesis by simp
  qed
  then show ?thesis using assms(7,8)
    by (auto simp: cmd_flash_def cmd_line_def flash_pac_def line_setup_def read_file_def io_query_def io_bind_def)
qed

theorem corrupt_pac_is_refused_witness:
  "\<exists>bad e. cmd_flash (mock_host [(str ''fw.pac'', bad)] [] 1) (str ''fw.pac'')
     \<lparr>fa_port = None, fa_enter_download = True, fa_format = False, fa_chunk = 2048, fa_baud = None, fa_timeout = 5000,
      fa_verify_readback = False, fa_no_reset = False, fa_verify = True\<rparr> (world mock_default)
     = Some (Err e, world mock_default)"
proof -
  obtain p info where p: "parse (p @ [0xAA, 0xBB] @ []) True = Ok info" "crc_ok info" "2124 \<le> length p"
    by (rule demo_pac_split)
  let ?H = "mock_host [(str ''fw.pac'', p @ [0xAA, 0xBC] @ [])] [] 1"
  let ?args = "\<lparr>fa_port = None, fa_enter_download = True, fa_format = False, fa_chunk = 2048, fa_baud = None,
      fa_timeout = 5000, fa_verify_readback = False, fa_no_reset = False, fa_verify = True\<rparr>"
  have bytes: "length [0xAA, 0xBB :: u8] = length [0xAA, 0xBC :: u8]" "[0xAA, 0xBB :: u8] \<noteq> [0xAA, 0xBC]"
    "length [0xAA, 0xBB :: u8] \<le> 2" "length p + length [0xAA, 0xBB :: u8] \<le> 2120 \<or> 2124 \<le> length p"
    using p(3) by simp_all
  have read: "h_read_file ?H (str ''fw.pac'') (world mock_default) = (Some (p @ [0xAA, 0xBC] @ []), world mock_default)"
    by (simp add: mock_host_def)
  have "fa_verify ?args" by simp
  from corrupt_pac_is_refused [OF p(1,2) bytes read this] show ?thesis by blast
qed

definition verified_image :: "u8 list \<Rightarrow> bool" where
  "verified_image data \<longleftrightarrow> (case parse data True of Ok info \<Rightarrow> crc_ok info | _ \<Rightarrow> False)"

definition guarded_host :: "'w host \<Rightarrow> path \<Rightarrow> 'w host" where
  "guarded_host H out =
     H\<lparr>h_write_file := (\<lambda>q data w. if q = out \<and> verified_image data then h_write_file H q data w else (False, w))\<rparr>"

lemma clone_image_verified:
  assumes "clone_image pac parts = Ok golden"
  shows "verified_image golden"
proof -
  from assms obtain g check where "map_err CliReparse (parse g True) = Ok check"
    "(if crc_ok check then Ok g else Err CliGoldenCrc) = (Ok golden :: (u8 list, cli_error) result)"
    unfolding clone_image_def rbind_eq_Ok by blast
  then show ?thesis by (cases "parse g True") (auto simp: verified_image_def split: if_splits)
qed

lemma clone_pac_store_cong:
  assumes "\<And>golden w. verified_image golden \<Longrightarrow> store golden w = store' golden w"
  shows "clone_pac B store pac port enter = clone_pac B store' pac port enter"
proof -
  have "io_bind (io_lift (clone_image pac parts)) (\<lambda>golden. io_bind (store golden) (\<lambda>_. io_return golden)) =
      io_bind (io_lift (clone_image pac parts)) (\<lambda>golden. io_bind (store' golden) (\<lambda>_. io_return golden))" for parts
    using assms by (intro ext io_bind_cong refl) (auto dest: clone_image_verified)
  then show ?thesis unfolding clone_pac_def by (simp only:)
qed

text \<open>C16: \<open>clone\<close> only ever writes a PAC whose CRCs both verify, and only to the output path: it cannot be told
  from the same command on a host that refuses any other write.\<close>

theorem clone_writes_verified_images:
  "cmd_clone H file out port enter w = cmd_clone (guarded_host H out) file out port enter w"
proof -
  have "read_file (guarded_host H out) file = read_file H file" "h_bench (guarded_host H out) = h_bench H"
    by (simp_all add: guarded_host_def read_file_def)
  moreover have "write_file H out golden w = write_file (guarded_host H out) out golden w"
    if "verified_image golden" for golden w
    using that by (simp add: write_file_def guarded_host_def)
  ultimately show ?thesis unfolding cmd_clone_def
    by (simp cong: io_bind_cong add: clone_pac_store_cong [of "write_file H out" "write_file (guarded_host H out) out"])
qed

text \<open>How the run of a line comes to its end, from its first state: once no station waits for a further unit (in a
  batch from the start, in a continuous run when the stop flag is set) at most ten steps per station and one more
  are left, one of them can be made as long as the line is not over, and when it is over there is a result.\<close>

definition line_finishes :: "'w bench \<Rightarrow> line_config \<Rightarrow> unit_job \<Rightarrow> line_state \<Rightarrow> bool" where
  "line_finishes B cfg job s0 \<longleftrightarrow>
     (\<forall>evs0 s1 evs s. line_runs B cfg job s0 evs0 s1 \<and> (\<not> ln_continuous cfg \<or> ls_stop s1) \<and>
        line_runs B cfg job s1 evs s \<longrightarrow>
        length (filter (\<lambda>e. e \<noteq> Stop) evs) \<le> 10 * length (ln_stations cfg) + 1 \<and>
        (if line_over s then \<forall>ms. line_result ms s \<noteq> None
         else \<exists>e s'. e \<noteq> Stop \<and> may_happen B cfg job e \<and> line_step cfg e s = Some s'))"

lemma line_start_init: "\<exists>t sink w2. line_start H cfg w = (line_init cfg t sink, w2)"
  by (auto simp: line_start_def split: option.splits prod.splits)

lemma line_init_finishes:
  assumes "live_bench B live pending" "live w"
  shows "line_finishes B cfg job (line_init cfg t sink)"
  unfolding line_finishes_def
proof (intro allI impI, elim conjE)
  fix evs0 s1 evs s
  assume r: "line_runs B cfg job (line_init cfg t sink) evs0 s1" "\<not> ln_continuous cfg \<or> ls_stop s1"
    "line_runs B cfg job s1 evs s"
  have "length (ls_phases s1) = length (ln_stations cfg)"
    using line_runs_length [OF r(1)] by (simp add: line_init_def)
  from line_runs_out [OF assms this _ r(3)] r(2)
  show "length (filter (\<lambda>e. e \<noteq> Stop) evs) \<le> 10 * length (ln_stations cfg) + 1 \<and>
      (if line_over s then \<forall>ms. line_result ms s \<noteq> None
       else \<exists>e s'. e \<noteq> Stop \<and> may_happen B cfg job e \<and> line_step cfg e s = Some s')"
    by (auto simp: line_result_def)
qed

text \<open>Only \<open>line\<close> leaves something to run.\<close>

lemma run_command_line: "run_command H c w = Some (Ok (Some x), w') \<Longrightarrow> \<exists>file a. c = RunLine file a"
  by (cases c) (auto simp: run_command_def io_bind_eq_Ok io_return_def)

lemma demo_line_command:
  obtains pac a job cfg where
    "run_command (mock_host [(str ''fw.pac'', pac)] [] 1) (RunLine (str ''fw.pac'') a) (world mock_default) =
       Some (Ok (Some (job, cfg)), world mock_default)"
    "line_start (mock_host [(str ''fw.pac'', pac)] [] 1) cfg (world mock_default) =
       (line_init cfg 0 (Some []), world mock_default)"
    "ln_stations cfg = [station_spec (str ''s'')]" "\<not> ln_continuous cfg" "job_retries job = 1"
proof -
  obtain p info where p: "parse (p @ [0xAA, 0xBB] @ []) True = Ok info" "crc_ok info"
    by (rule demo_pac_split)
  define pac where "pac = p @ [0xAA, 0xBB] @ []"
  define H where "H = mock_host [(str ''fw.pac'', pac)] [] 1"
  define a where "a = \<lparr>la_stations = [str ''s''], la_format = False, la_chunk = 2048, la_retries = 1, la_verify = False,
    la_work_order = None, la_operator = None, la_records = Some (str ''log''), la_metrics_addr = None, la_continuous = False\<rparr>"
  define cfg where "cfg = \<lparr>ln_stations = [station_spec (str ''s'')], ln_format = False, ln_chunk = 2048, ln_verify = False,
    ln_retries = 1, ln_work_order = None, ln_operator = None, ln_records_path = Some (str ''log''), ln_metrics_addr = None,
    ln_continuous = False\<rparr>"
  define job where "job = line_job cfg info pac (base_name (str ''fw.pac''))"
  have H: "h_bench H = mock_bench [] 1" "\<And>w. read_file H (str ''fw.pac'') w = Some (Ok pac, w)"
    "\<And>s w. h_print H s w = w"
    by (simp_all add: H_def mock_host_read) (simp_all add: mock_host_def)
  have "checked_pac pac True = Ok info" using p by (simp add: checked_pac_def pac_def)
  then have ready: "line_setup (mock_bench [] 1) a pac w = Some (Ok (info, cfg), w)" for w
    unfolding line_setup_def build_stations_def by (simp add: io_lift_bind a_def cfg_def)
  have "cmd_line H (str ''fw.pac'') a w = Some (Ok (job, cfg), w)" for w
    unfolding cmd_line_def io_bind_Ok [OF H(2)] H(1) io_bind_Ok [OF ready] by (simp add: job_def print_text_def io_bind_def io_modify_def H(3))
  then have run: "run_command H (RunLine (str ''fw.pac'') a) (world mock_default) = Some (Ok (Some (job, cfg)), world mock_default)"
    unfolding run_command_def by (simp add: io_bind_def)
  have start: "line_start H cfg (world mock_default) = (line_init cfg 0 (Some []), world mock_default)"
    by (simp add: line_start_def cfg_def H) (simp add: H_def mock_host_def world_simps)
  show thesis by (rule that [OF run [unfolded H_def] start [unfolded H_def]]) (simp_all add: cfg_def job_def line_job_def)
qed



text \<open>C14: a line that \<open>line\<close> started runs on a PAC whose CRCs verify, and the exit code of the process is 0 exactly
  when every unit it ran passed, whatever the interleaving of the stations.\<close>

theorem line_exit_code_tells:
  assumes "run_command H (RunLine file a) w = Some (Ok (Some (job, cfg)), w1)" "line_start H cfg w1 = (s0, w2)"
    and "line_runs (h_bench H) cfg job s0 evs s" "line_result ms s = Some (Ok sm)"
    and "length (units evs) < 18446744073709551616"
  shows "parse (job_pac job) True = Ok (job_info job) \<and> crc_ok (job_info job) \<and>
    (line_exit_code sm = 0 \<longleftrightarrow> (\<forall>r \<in> set (units evs). rec_result r = Pass))"
proof -
  obtain sink0 t where s0: "s0 = line_init cfg t sink0"
    using assms(2) by (auto simp: line_start_def split: option.splits prod.splits)
  from assms(1) obtain pac info where "checked_pac pac True = Ok info" "job = line_job cfg info pac (base_name file)"
    by (auto simp: run_command_def cmd_line_def line_setup_def io_bind_eq_Ok io_bind_return)
  then have job: "parse (job_pac job) True = Ok (job_info job)" "crc_ok (job_info job)"
    by (auto simp: checked_pac_def line_job_def rbind_eq_Ok map_err_def split: result.splits if_splits)
  have "sum_failed sm = length (filter (\<lambda>r. rec_result r = Fail) (units evs))"
    using finished_accounts [OF accounts_runs [OF assms(3) [unfolded s0]] assms(4,5)] by blast
  then have "line_exit_code sm = 0 \<longleftrightarrow> (\<forall>r \<in> set (units evs). rec_result r \<noteq> Fail)"
    by (simp add: line_exit_code_def filter_empty_conv)
  also have "\<dots> \<longleftrightarrow> (\<forall>r \<in> set (units evs). rec_result r = Pass)" by (metis outcome.distinct(1) outcome.exhaust)
  finally show ?thesis using job by blast
qed

theorem line_exit_code_tells_witness:
  "\<exists>pac a job cfg rec s sm. run_command (mock_host [(str ''fw.pac'', pac)] [] 1) (RunLine (str ''fw.pac'') a) (world mock_default)
       = Some (Ok (Some (job, cfg)), world mock_default) \<and>
     line_runs (mock_bench [] 1) cfg job (line_init cfg 0 (Some [])) (unit_events rec @ [Decided 0]) s \<and>
     line_result 10 s = Some (Ok sm) \<and> line_exit_code sm \<noteq> 0"
proof -
  obtain pac a job cfg where run: "run_command (mock_host [(str ''fw.pac'', pac)] [] 1) (RunLine (str ''fw.pac'') a)
      (world mock_default) = Some (Ok (Some (job, cfg)), world mock_default)"
    and start: "line_start (mock_host [(str ''fw.pac'', pac)] [] 1) cfg (world mock_default) =
       (line_init cfg 0 (Some []), world mock_default)"
    and cfg: "ln_stations cfg = [station_spec (str ''s'')]" "\<not> ln_continuous cfg" "job_retries job = 1"
    by (rule demo_line_command)
  define H where "H = mock_host [(str ''fw.pac'', pac)] [] 1"
  have H: "h_bench H = mock_bench [] 1" by (simp add: H_def mock_host_def)
  have "st_at_port (station_spec (str ''s'')) = None" "st_download_port (station_spec (str ''s'')) = None"
    by (simp_all add: station_spec_def splitn.simps numeral_3_eq_3 split_once_def nonempty_part_def Let_def)
  then obtain rec where rec: "run_unit (mock_bench [] 1) (station_spec (str ''s'')) job (world mock_default) =
      Some (Ok rec, world mock_default)" "rec_result rec = Fail"
    using run_without_ports [OF empty_bench(1), of "world mock_default" "station_spec (str ''s'')" job]
    by (simp add: empty_bench(2) fail_record_def cfg(3))
  obtain m where m: "fold (\<lambda>e t. Option.bind t (line_step cfg e)) (unit_events rec) (Some (line_init cfg 0 (Some []))) =
    Some \<lparr>ls_phases = [Deciding], ls_metrics = m, ls_sink = Some [rec], ls_recent = [rec], ls_stop = False, ls_aborted = False\<rparr>"
    "totals m = (0, 1)"
    by (rule one_unit_events [of cfg rec 0]) (simp_all add: cfg(1,2) rec(2))
  define s where "s = \<lparr>ls_phases = [Finished], ls_metrics = m, ls_sink = Some [rec], ls_recent = [rec],
    ls_stop = False, ls_aborted = False\<rparr>"
  have "fold (\<lambda>e t. Option.bind t (line_step cfg e)) (unit_events rec @ [Decided 0]) (Some (line_init cfg 0 (Some []))) = Some s"
    using m(1) by (simp add: s_def line_step_def goto_def cfg(2) phase_at_def)
  moreover have "\<forall>e \<in> set (unit_events rec @ [Decided 0]). may_happen (mock_bench [] 1) cfg job e"
    using rec(1) by (auto simp: unit_events_def cfg(1))
  ultimately have runs: "line_runs (mock_bench [] 1) cfg job (line_init cfg 0 (Some [])) (unit_events rec @ [Decided 0]) s"
    using line_runs_append [OF line_runs.start, of cfg "unit_events rec @ [Decided 0]"] by simp
  define sm where "sm = \<lparr>sum_records = [rec], sum_total = 1, sum_passed = 0, sum_failed = 1,
      sum_wall_ms = 10, sum_units_per_hour = 0\<rparr>"
  have over: "line_result 10 s = Some (Ok sm)"
    using m(2) by (simp add: s_def sm_def line_result_def line_over_def summarize_def usize_limit_def)
  have u: "units (unit_events rec) = [rec]" by (simp add: unit_events_def units_def)
  have "length (units (unit_events rec @ [Decided 0])) < 18446744073709551616" by (simp add: u)
  from line_exit_code_tells [OF run start, folded H_def, unfolded H, OF runs over this] have "line_exit_code sm \<noteq> 0"
    by (simp add: u rec(2))
  with run runs over show ?thesis by blast
qed

end
