(* ===== verification/Flash_Command.thy ===== *)
theory Flash_Command
  imports Program
begin

text \<open>
  The \<open>flash\<close> command on a healthy device, from the file to the memory of the device, and with it the
  round trip through a golden clone: what is captured from one device is what another one holds
  after it was flashed with the clone.
\<close>

section \<open>Ports of modules\<close>

definition is_module :: "os_port \<Rightarrow> bool" where
  "is_module p \<longleftrightarrow> info_vid (to_port_info p) = Some MODULE_VID"

text \<open>A module that is listed ends the wait for it at the first look.\<close>

lemma module_is_seen:
  assumes "\<exists>p \<in> set ps. is_module p"
  shows "\<exists>m. wait_for_module (mock_bench ps pace) timeout w = Some (Ok m, w)"
proof -
  let ?m = "filter (\<lambda>p. info_vid p = Some MODULE_VID) (map to_port_info ps)"
  have "?m \<noteq> []" using assms by (auto simp: filter_empty_conv is_module_def)
  then have "wait_module_loop (mock_bench ps pace) deadline w = Some (?m, w)" for deadline
    by (subst wait_module_loop.simps) (simp add: find_module_ports_def ports_def)
  then show ?thesis by (simp add: wait_for_module_def)
qed

section \<open>Flashing\<close>

lemma flash_pac_mock:
  assumes "parse pac (fa_verify a) = Ok info" "crc_ok info" "build info = Ok plan"
    and "fa_port a = Some port" "fa_chunk a \<le> 65535"
    and "\<not> fa_verify a \<or> fa_no_reset a \<or> (\<exists>p \<in> set ps. is_module p)"
    and "mock_fresh w" "drop_acks (device w) = []" "\<not> corrupt_readback (device w)"
    and "distinct (map fst (flash (device w)))"
    and "fa_verify_readback a \<Longrightarrow>
      disjoint_throughout pac (partitions plan) (with_fdl2 pac plan (map_of (flash (device w))))"
  shows "\<exists>out m w'. flash_pac (mock_bench ps 0) a pac w = Some (Ok (out, m), w') \<and>
    map_of (flash (device w')) =
      run_memory (default_options\<lparr>opt_format := fa_format a\<rparr>) pac plan (map_of (flash (device w)))"
proof -
  let ?B = "mock_bench ps 0" and ?opts = "flash_args_options a"
  have present: "payloads_present info pac"
    using assms(1) by (auto simp: parse_Ok_iff payloads_present_def parsed_info_def entry_in_range_payload)
  have opts: "0 < opt_timeout ?opts" "0 < opt_exec_timeout ?opts" "opt_chunk ?opts \<le> 65535"
    "opt_verify_readback ?opts = fa_verify_readback a"
    using assms(5) by (simp_all add: flash_args_options_def default_options_def)
  have "mock_flash.effect (run mock_transport ?opts info pac w) w
    (\<lambda>out m. out_version out = mock_banner \<and> out_bytes_written out = run_bytes ?opts pac plan \<and>
       m = run_memory ?opts pac plan (mock_mem (device w))) True"
    using assms opts present by (intro mock_boot.effect_run) (simp_all add: MAX_MESSAGE_def mock_mem_def)
  moreover have "mock_flash.healthy (device w)"
    using assms(8-10) by (simp add: mock_flash.healthy_def mock_losses_def mock_intact_def)
  ultimately obtain out w' where out: "run mock_transport ?opts info pac w = Some (Ok out, w')"
      "map_of (flash (device w')) = run_memory ?opts pac plan (map_of (flash (device w)))"
    unfolding mock_flash.effect_def mock_mem_def by blast
  have mem: "run_memory ?opts = run_memory (default_options\<lparr>opt_format := fa_format a\<rparr>)"
    by (simp add: fun_eq_iff run_memory_def flash_args_options_def)
  have "in_buf (device w) = []" using assms(7) by (simp add: mock_fresh_def pdl_idle_def)
  then have opened: "serial_open ?B port 115200 w = Some (Ok (), w)" by (rule opened_idle)
  have port: "resolve_download_port ?B (fa_port a) (fa_enter_download a) w = Some (Ok port, w)"
    by (simp add: resolve_download_port_def assms(4))
  have "run (serial ?B port) ?opts info pac w = Some (Ok out, w')" unfolding serial_mock by (rule out(1))
  from flash_retries_once [OF port opened this]
  have flashed: "flash_with_recovery ?B ?opts (fa_port a) (fa_enter_download a) info pac w = Some (Ok out, w')"
    by simp
  have checked: "checked_pac pac (fa_verify a) = Ok info" using assms(1,2) by (simp add: checked_pac_def)
  have "\<exists>m. flash_pac ?B a pac w = Some (Ok (out, m), w')"
  proof (cases "fa_verify a \<and> \<not> fa_no_reset a")
    case True
    with assms(6) have "\<exists>p \<in> set ps. is_module p" by blast
    from module_is_seen [OF this, of 0 60000 w'] obtain m where
      "(wait_for_module ?B 60000 :: (port_info list, cli_error, mock_world) io) w' = Some (Ok m, w')" by blast
    with True flashed checked show ?thesis by (simp add: flash_pac_def io_bind_def)
  next
    case False
    with flashed checked show ?thesis by (auto simp: flash_pac_def io_bind_def)
  qed
  with out(2) show ?thesis unfolding mem by blast
qed

section \<open>What the partitions hold\<close>

lemma store_all_other: "a \<notin> entry_address ` set es \<Longrightarrow> store_all f es m a = m a"
  by (induction es arbitrary: m) auto

lemma store_all_distinct:
  assumes "distinct (map entry_address es)" "e \<in> set es"
  shows "store_all f es m (entry_address e) = Some (f e)"
  using assms
proof (induction es arbitrary: m)
  case (Cons x es)
  show ?case
  proof (cases "e = x")
    case True
    with Cons.prems show ?thesis by (simp add: store_all_other)
  next
    case False
    with Cons show ?thesis by auto
  qed
qed simp

lemma build_of_entries: "entries info = entries info' \<Longrightarrow> build info = build info'"
  by (simp add: build_def erase_ops_def data_markers_def)

text \<open>Arguments and a PAC whose CRCs verify for the witnesses: the clone of a small device.\<close>

definition demo_args :: "bool \<Rightarrow> bool \<Rightarrow> flash_args" where
  "demo_args verify no_reset =
     \<lparr>fa_port = Some (str ''COM7''), fa_enter_download = False, fa_format = False, fa_chunk = 2048, fa_baud = None,
      fa_timeout = 5000, fa_verify_readback = False, fa_no_reset = no_reset, fa_verify = verify\<rparr>"

lemma demo_golden:
  obtains golden check plan where "parse golden True = Ok check" "crc_ok check" "build check = Ok plan"
proof -
  obtain plan where p: "build (parsed_info ref_pac False (file_table ref_pac)) = Ok plan"
    "partitions plan = [ref_file ''AP'' 3 7286 0x60010000]" "clonable ref_pac plan"
    by (rule ref_plan)
  have "list_all2 (\<lambda>e d. length d = unat (entry_size e)) (partitions plan) [[9, 8, 7]]"
    by (simp add: p(2) ref_file_def)
  from clone_image_Ok [OF ref_parses p(1,3) this] obtain golden check where
    g: "parse golden True = Ok check" "crc_ok check" "entries check = entries (parsed_info ref_pac False (file_table ref_pac))"
    by blast
  from build_of_entries [OF g(3)] p(1) have "build check = Ok plan" by simp
  with g(1,2) that show ?thesis by blast
qed

section \<open>Properties\<close>

text \<open>C3: on a healthy device \<open>flash\<close> succeeds from the file to the memory: the port given, the PAC's CRCs verified as
  asked for, the module listed when its boot is awaited, the command returns without an error and the device holds the planned
  memory, with the format data exactly when \<open>--format\<close> was given.\<close>

theorem flash_command_flashes:
  assumes "h_read_file (mock_host files ps 0) file w = (Some pac, w)"
    and "parse pac (fa_verify a) = Ok info" "crc_ok info" "build info = Ok plan"
    and "fa_port a = Some port" "fa_chunk a \<le> 65535"
    and "\<not> fa_verify a \<or> fa_no_reset a \<or> (\<exists>p \<in> set ps. is_module p)"
    and "mock_fresh w" "drop_acks (device w) = []" "\<not> corrupt_readback (device w)"
    and "distinct (map fst (flash (device w)))" "\<not> fa_verify_readback a"
  shows "\<exists>w'. cmd_flash (mock_host files ps 0) file a w = Some (Ok (), w') \<and>
    map_of (flash (device w')) =
      run_memory (default_options\<lparr>opt_format := fa_format a\<rparr>) pac plan (map_of (flash (device w)))"
proof -
  from flash_pac_mock [OF assms(2-11)] assms(12) obtain out m w' where
    f: "flash_pac (mock_bench ps 0) a pac w = Some (Ok (out, m), w')"
    "map_of (flash (device w')) =
      run_memory (default_options\<lparr>opt_format := fa_format a\<rparr>) pac plan (map_of (flash (device w)))" by blast
  have "read_file (mock_host files ps 0) file w = Some (Ok pac, w)"
    using assms(1) by (simp add: read_file_def io_query_def io_bind_def)
  moreover have "h_bench (mock_host files ps 0) = mock_bench ps 0" by (simp add: mock_host_def)
  ultimately show ?thesis using f by (simp add: cmd_flash_def io_bind_def)
qed

theorem flash_command_flashes_witness:
  "\<exists>pac plan w'. cmd_flash (mock_host [(str ''fw.pac'', pac)] [] 0) (str ''fw.pac'') (demo_args True True) (world mock_default)
     = Some (Ok (), w') \<and> map_of (flash (device w')) = run_memory default_options pac plan Map.empty"
proof -
  obtain golden check plan where g: "parse golden True = Ok check" "crc_ok check" "build check = Ok plan"
    by (rule demo_golden)
  have read: "h_read_file (mock_host [(str ''fw.pac'', golden)] [] 0) (str ''fw.pac'') (world mock_default) =
      (Some golden, world mock_default)"
    by (simp add: mock_host_def)
  have args: "fa_verify (demo_args True True)" "fa_port (demo_args True True) = Some (str ''COM7'')"
    "fa_chunk (demo_args True True) \<le> 65535" "fa_no_reset (demo_args True True)" "\<not> fa_format (demo_args True True)"
    "\<not> fa_verify_readback (demo_args True True)"
    by (simp_all add: demo_args_def)
  have w: "mock_fresh (world mock_default)" "drop_acks (device (world mock_default)) = []"
    "\<not> corrupt_readback (device (world mock_default))" "flash (device (world mock_default)) = []"
    by (simp_all add: mock_fresh_def pdl_idle_def world_simps)
  have "parse golden (fa_verify (demo_args True True)) = Ok check" using g(1) args(1) by simp
  from flash_command_flashes [OF read this g(2,3) args(2,3) _ w(1-3)] args w(4)
  have "\<exists>w'. cmd_flash (mock_host [(str ''fw.pac'', golden)] [] 0) (str ''fw.pac'') (demo_args True True) (world mock_default)
      = Some (Ok (), w') \<and>
      map_of (flash (device w')) = run_memory (default_options\<lparr>opt_format := False\<rparr>) golden plan Map.empty" by simp
  moreover have "default_options\<lparr>opt_format := False\<rparr> = default_options" by (simp add: default_options_def)
  ultimately show ?thesis by metis
qed

text \<open>C4: flashing a clone reproduces the device it was taken from: a healthy device is cloned into a reference PAC with
  disjoint partitions at distinct addresses, a second healthy device is flashed with the clone, its checks on and
  without \<open>--format\<close>; both commands succeed and the second device then holds, at the address of every partition, the
  image that was read off the first.\<close>

theorem clone_then_flash:
  assumes "parse pac False = Ok info" "build info = Ok plan" "clonable pac plan" "partitions plan \<noteq> []"
    and "distinct (map entry_address (partitions plan))"
    and "mock_fresh w" "drop_acks (device w) = []" "\<not> corrupt_readback (device w)"
    and "distinct (map fst (flash (device w)))" "disjoint_mem (with_fdl2 pac plan (map_of (flash (device w))))"
    and "list_all2 (\<lambda>e d. length d = unat (entry_size e) \<and>
      holds_at (with_fdl2 pac plan (map_of (flash (device w)))) (entry_address e) d) (partitions plan) images"
    and "mock_fresh v" "drop_acks (device v) = []" "\<not> corrupt_readback (device v)" "distinct (map fst (flash (device v)))"
    and "fa_verify a" "fa_port a = Some port" "fa_chunk a \<le> 65535" "\<not> fa_format a" "\<not> fa_verify_readback a"
    and "fa_no_reset a \<or> (\<exists>p \<in> set ps. is_module p)"
  shows "\<exists>golden w' r v'. clone_pac (mock_bench ps 0) (\<lambda>_. io_return ()) pac (Some port) enter w = Some (Ok golden, w') \<and>
    flash_pac (mock_bench ps 0) a golden v = Some (Ok r, v') \<and>
    list_all2 (\<lambda>e d. map_of (flash (device v')) (entry_address e) = Some d) (partitions plan) images"
proof -
  have "list_all2 (\<lambda>e d. length d = unat (entry_size e)) (partitions plan) images"
    using assms(11) by (rule list_all2_mono) simp
  from clone_image_Ok [OF assms(1-3) this] obtain golden check where
    g: "clone_image pac (zip (partitions plan) images) = Ok golden" "parse golden True = Ok check" "crc_ok check"
      "entries check = entries info" "list_all2 (\<lambda>e d. payload e golden = Some d) (partitions plan) images" by blast
  from clone_mock [OF assms(1-4,6-11), of ps port enter] g(1) obtain w' where
    c: "clone_pac (mock_bench ps 0) (\<lambda>_. io_return ()) pac (Some port) enter w = Some (Ok golden, w')" by auto
  have "build check = Ok plan" using build_of_entries [OF g(4)] assms(2) by simp
  moreover have "parse golden (fa_verify a) = Ok check" using g(2) assms(16) by simp
  ultimately obtain r v' where f: "flash_pac (mock_bench ps 0) a golden v = Some (Ok r, v')"
    "map_of (flash (device v')) =
      run_memory (default_options\<lparr>opt_format := fa_format a\<rparr>) golden plan (map_of (flash (device v)))"
    using flash_pac_mock [of golden a check plan port ps v] g(3) assms(12-21) by blast
  have "map_of (flash (device v')) (entry_address e) = Some (payload_of golden e)" if "e \<in> set (partitions plan)" for e
    unfolding f(2) run_memory_def using assms(5,19) that
    by (simp add: default_options_def store_all_distinct)
  with g(5) have "list_all2 (\<lambda>e d. map_of (flash (device v')) (entry_address e) = Some d) (partitions plan) images"
    by (auto simp: list_all2_conv_all_nth payload_of_def)
  with c f(1) show ?thesis by blast
qed

theorem clone_then_flash_witness:
  "\<exists>golden w' r v'. clone_pac (mock_bench [] 0) (\<lambda>_. io_return ()) ref_pac (Some (str ''COM7'')) False
      (world (seeded [(0x60010000, [9, 8, 7])])) = Some (Ok golden, w') \<and>
     flash_pac (mock_bench [] 0) (demo_args True True) golden (world mock_default) = Some (Ok r, v') \<and>
     map_of (flash (device v')) 0x60010000 = Some [9, 8, 7]"
proof -
  let ?w = "world (seeded [(0x60010000, [9, 8, 7])])" and ?v = "world mock_default"
  obtain plan where p: "build (parsed_info ref_pac False (file_table ref_pac)) = Ok plan"
    "partitions plan = [ref_file ''AP'' 3 7286 0x60010000]" "fdl2 plan = None" "clonable ref_pac plan"
    by (rule ref_plan)
  have w: "mock_fresh ?w" "drop_acks (device ?w) = []" "\<not> corrupt_readback (device ?w)"
    "flash (device ?w) = [(0x60010000, [9, 8, 7])]"
    by (simp_all add: mock_fresh_def pdl_idle_def world_simps seeded_def)
  have v: "mock_fresh ?v" "drop_acks (device ?v) = []" "\<not> corrupt_readback (device ?v)" "distinct (map fst (flash (device ?v)))"
    by (simp_all add: mock_fresh_def pdl_idle_def world_simps)
  have m: "with_fdl2 ref_pac plan (map_of (flash (device ?w))) = [0x60010000 \<mapsto> [9, 8, 7]]"
    by (simp add: with_fdl2_def p(3) w(4))
  have "holds_at [0x60010000 \<mapsto> [9, 8, 7]] 0x60010000 [9, 8, 7]" by (rule holds_at_block) simp
  then have held: "list_all2 (\<lambda>e d. length d = unat (entry_size e) \<and>
      holds_at (with_fdl2 ref_pac plan (map_of (flash (device ?w)))) (entry_address e) d) (partitions plan) [[9, 8, 7]]"
    unfolding m p(2) by (simp add: ref_file_def)
  have apart: "disjoint_mem (with_fdl2 ref_pac plan (map_of (flash (device ?w))))"
    unfolding m by (rule disjoint_mem_single) simp
  have some: "partitions plan \<noteq> []" and addrs: "distinct (map entry_address (partitions plan))"
    and d: "distinct (map fst (flash (device ?w)))" by (simp_all add: p(2) w(4))
  have args: "fa_verify (demo_args True True)" "fa_port (demo_args True True) = Some (str ''COM7'')"
    "fa_chunk (demo_args True True) \<le> 65535" "\<not> fa_format (demo_args True True)" "\<not> fa_verify_readback (demo_args True True)"
    "fa_no_reset (demo_args True True) \<or> (\<exists>p \<in> set []. is_module p)"
    by (simp_all add: demo_args_def)
  from clone_then_flash [OF ref_parses p(1,4) some addrs w(1-3) d apart held v args, of False]
  show ?thesis unfolding p(2) by (auto simp: ref_file_def)
qed

end
