(* ===== verification/Usb_Restart.thy ===== *)
theory Usb_Restart
  imports Bench
begin

text \<open>
  The Windows body of \<open>restart_download_device\<close> in \<open>crates/sprdflash-transport/src/recovery.rs\<close>:
  the registry is asked for the instances of the download device, the first one is restarted. The two
  child processes, \<open>reg query\<close> and \<open>pnputil\<close>, are parameters; elsewhere the function is
  \<open>restart_nowhere\<close>. A bench may have either as its \<open>os_restart_device\<close>.
\<close>

section \<open>The instance\<close>

text \<open>\<open>rsplit('\')\<close> and its first item: the text after the last backslash.\<close>

definition after_backslash :: "rust_string \<Rightarrow> rust_string" where
  "after_backslash s = rev (takeWhile (\<lambda>c. c \<noteq> 92) (rev s))"

definition device_instance :: "rust_string \<Rightarrow> rust_string option" where
  "device_instance text = find (\<lambda>s. s \<noteq> []) (map (\<lambda>l. after_backslash (trim l)) (str_lines text))"

definition device_path :: "rust_string \<Rightarrow> rust_string" where
  "device_path inst = str ''USB'' @ [92] @ str ''VID_0525&PID_A4A7'' @ [92] @ inst"

definition restart_download_device ::
    "('w \<Rightarrow> u8 list option \<times> 'w) \<Rightarrow> (rust_string \<Rightarrow> 'w \<Rightarrow> bool option \<times> 'w) \<Rightarrow> 'w \<Rightarrow> bool \<times> 'w"
where
  "restart_download_device reg_query pnputil w =
     (case reg_query w of
        (None, w1) \<Rightarrow> (False, w1)
      | (Some out, w1) \<Rightarrow>
          (case device_instance (from_utf8_lossy out) of
             None \<Rightarrow> (False, w1)
           | Some inst \<Rightarrow>
               (case pnputil (device_path inst) w1 of
                  (status, w2) \<Rightarrow> (status = Some True, w2))))"

definition restart_nowhere :: "'w \<Rightarrow> bool \<times> 'w" where
  "restart_nowhere w = (False, w)"

section \<open>What is restarted\<close>

lemma after_backslash_key:
  assumes "92 \<notin> set inst"
  shows "after_backslash (key @ [92] @ inst) = inst"
proof -
  have "takeWhile (\<lambda>c. c \<noteq> 92) (rev inst @ 92 # rev key) = rev inst"
    using assms by (subst takeWhile_append2) auto
  then show ?thesis by (simp add: after_backslash_def)
qed

text \<open>Only a device under the download key is ever restarted: the path has exactly the two segments of the
  key before the instance, and the instance is not empty and holds no separator.\<close>

lemma restarted_path:
  assumes "device_instance text = Some inst"
  shows "inst \<noteq> []" "92 \<notin> set inst"
proof -
  from assms obtain l where "inst = after_backslash (trim l)" "inst \<noteq> []"
    unfolding device_instance_def find_Some_iff by auto
  then show "inst \<noteq> []" "92 \<notin> set inst"
    by (auto simp: after_backslash_def dest: set_takeWhileD)
qed

text \<open>The answer of \<open>reg query\<close> for a key with one instance: a blank line and the full path of the subkey.\<close>

lemma instance_of_subkey:
  assumes "92 \<notin> set inst" "inst \<noteq> []" "10 \<notin> set key" "10 \<notin> set inst" "\<forall>c \<in> set inst. \<not> is_whitespace c"
    and "key \<noteq> []" "\<not> is_whitespace (hd key)"
  shows "device_instance ([13, 10] @ key @ [92] @ inst @ [13, 10]) = Some inst"
proof -
  have "trim (key @ [92] @ inst) = key @ [92] @ inst"
  proof -
    have "dropWhile is_whitespace (key @ [92] @ inst) = key @ [92] @ inst"
      using assms(6,7) by (cases key) simp_all
    moreover have "dropWhile is_whitespace (rev (key @ [92] @ inst)) = rev (key @ [92] @ inst)"
      using assms(2,5) by (cases inst rule: rev_cases) simp_all
    ultimately show ?thesis by (simp add: trim_def)
  qed
  moreover have "str_lines ([13, 10] @ key @ [92] @ inst @ [13, 10]) = [[], key @ [92] @ inst]"
  proof -
    have "position (\<lambda>c. c = 10) ((key @ [92] @ inst @ [13]) @ 10 # []) = Some (length (key @ [92] @ inst @ [13]))"
      using assms(3,4) by (intro position_append_hit) auto
    then have "str_lines (key @ [92] @ inst @ [13, 10]) = [key @ [92] @ inst]"
      by (subst str_lines.simps) (simp add: strip_cr_def str_lines.simps [of "[]"] butlast_append)
    then show ?thesis
      by (subst str_lines.simps) (simp add: strip_cr_def)
  qed
  ultimately show ?thesis
    using after_backslash_key [OF assms(1), of key] assms(2)
    by (simp add: device_instance_def) (simp add: after_backslash_def trim_def)
qed

end
