(* ===== verification/Tables.thy ===== *)
theory Tables
  imports Program
begin

text \<open>
  The printed tables, read back: the columns of a row, the rows of the layout as the arguments of
  \<open>dump\<close>, the flags of \<open>list-ports\<close> against the discovery of the commands, the tags of the results of a line.
\<close>

section \<open>Columns\<close>

text \<open>A reader of tables: the words of a line, without the blanks between them.\<close>

fun columns :: "rust_string \<Rightarrow> rust_string \<Rightarrow> rust_string list" where
  "columns w [] = (if w = [] then [] else [w])"
| "columns w (c # s) =
     (if c = 32 then (if w = [] then columns [] s else w # columns [] s) else columns (w @ [c]) s)"

lemma columns_blanks [simp]: "columns [] (replicate n 32 @ s) = columns [] s"
  by (induction n) simp_all

lemma columns_word: "32 \<notin> set v \<Longrightarrow> w @ v \<noteq> [] \<Longrightarrow> columns w (v @ 32 # s) = (w @ v) # columns [] s"
  by (induction v arbitrary: w) auto

lemma columns_padded:
  assumes "32 \<notin> set v" "v \<noteq> []"
  shows "columns [] (v @ 32 # s) = v # columns [] s" "columns [] (pad_right n v @ 32 # s) = v # columns [] s"
    "columns [] (pad_left n v @ 32 # s) = v # columns [] s"
proof -
  show plain: "columns [] (v @ 32 # s) = v # columns [] s" for s using columns_word [of v "[]"] assms by simp
  have "columns [] (replicate k 32 @ 32 # s) = columns [] s" for k by simp
  then show "columns [] (pad_right n v @ 32 # s) = v # columns [] s"
    by (cases "n - length v") (simp_all add: pad_right_def plain)
  show "columns [] (pad_left n v @ 32 # s) = v # columns [] s" by (simp add: pad_left_def plain)
qed

section \<open>The layout as arguments of a dump\<close>

text \<open>The base and the size reserved of a row, as the argument \<open>--region\<close>.\<close>

definition row_spec :: "rust_string \<Rightarrow> rust_string" where
  "row_spec row = columns [] row ! 2 @ [58] @ columns [] row ! 3"

text \<open>The rows of the table that \<open>layout\<close> prints: the lines after the column names.\<close>

definition table_rows :: "rust_string \<Rightarrow> rust_string list" where
  "table_rows table = drop 4 (ended_lines [] table)"

lemma digits_no_blank: "2 \<le> base \<Longrightarrow> base \<le> 16 \<Longrightarrow> 32 \<notin> set (fmt_digits base n)"
  using fmt_digits_plain [of base 32 n] by (auto simp: plain_char_def)

lemma fmt_no_blank: "32 \<notin> set (fmt_hex n)" "32 \<notin> set (fmt_hex10 n)" "32 \<notin> set (fmt_dec n)"
  by (auto simp: fmt_hex_def fmt_hex10_def fmt_dec_def pad_zeros_def str_0x digits_no_blank)

lemma region_number_hex10: "region_number s (fmt_hex10 (unat x)) = Ok x"
proof -
  have "trim (fmt_hex10 n) = fmt_hex10 n" for n
    using plain_not_special(3) [OF fmt_digits_plain [OF _ _ last_in_set]]
    by (intro trim_id) (auto simp: fmt_hex10_def pad_zeros_def str_0x is_whitespace_def)
  then show ?thesis
    using parse_u32_digits [of 16 "10 - length (fmt_digits 16 (unat x))" x]
    by (simp add: region_number_def Let_def fmt_hex10_def pad_zeros_def ok_or_def strip_prefix_def starts_with_def)
qed

lemma row_spec_parses:
  assumes "region_id r = str k @ str ''_'' @ fmt_dec i" "k \<in> region_kinds" "region_kind r \<in> region_kinds"
  shows "parse_region (row_spec (region_row r)) = Ok (phys_addr r, reserved_size r)"
proof -
  have names: "32 \<notin> set (str k)" "str k \<noteq> []" if "k \<in> region_kinds" for k
    using that by (auto simp: region_kinds_def)
  have nonempty: "region_id r \<noteq> []" "fmt_hex n \<noteq> []" "fmt_hex10 n \<noteq> []" for n
    using assms(1) by (simp_all add: fmt_hex_def fmt_hex10_def)
  have "32 \<notin> set (region_id r)" using names [OF assms(2)] by (simp add: assms(1) fmt_no_blank)
  then have "columns [] (region_row r) ! 2 = fmt_hex10 (unat (phys_addr r))"
    "columns [] (region_row r) ! 3 = fmt_hex (unat (reserved_size r))"
    using names [OF assms(3)] nonempty by (simp_all add: region_row_def columns_padded fmt_no_blank)
  then have "row_spec (region_row r) = fmt_hex10 (unat (phys_addr r)) @ 58 # fmt_hex (unat (reserved_size r))"
    by (simp add: row_spec_def)
  moreover have "58 \<notin> set (fmt_hex10 n)" for n
    using no_colon(2) [of n] by (auto simp: fmt_hex10_def fmt_hex_def pad_zeros_def str_0x)
  ultimately show ?thesis
    by (simp add: parse_region_def split_once_first region_number_hex10 region_number_text ok_or_def)
qed

text \<open>The rows of the printed table are the rows of the regions.\<close>

lemma ended_lines_rows:
  assumes "\<And>x. x \<in> set xs \<Longrightarrow> 10 \<notin> set (row x)"
  shows "ended_lines [] (concat (map (\<lambda>x. println (row x)) xs)) = map row xs"
  using assms by (induction xs) (simp_all add: println_def ended_lines_line)

lemma no_newline:
  "10 \<notin> set (fmt_dec n)" "10 \<notin> set (fmt_hex n)" "10 \<notin> set (fmt_hex10 n)"
  "10 \<notin> set (pad_right m s) \<longleftrightarrow> 10 \<notin> set s" "10 \<notin> set (pad_left m s) \<longleftrightarrow> 10 \<notin> set s"
  using digits_no_newline by (auto simp: fmt_dec_def fmt_hex_def fmt_hex10_def pad_zeros_def pad_right_def pad_left_def str_0x)

lemma region_row_no_newline:
  assumes "region_id r = str k @ str ''_'' @ fmt_dec i" "k \<in> region_kinds" "region_kind r \<in> region_kinds"
    and "10 \<notin> set (region_detail r)"
  shows "10 \<notin> set (region_row r)"
proof -
  have kinds: "10 \<notin> set (str k)" if "k \<in> region_kinds" for k using that by (auto simp: region_kinds_def)
  have "10 \<notin> set (str (confidence_tag c))" for c by (cases c) simp_all
  moreover have "10 \<notin> set (region_id r)" using kinds [OF assms(2)] by (simp add: assms(1) no_newline)
  ultimately show ?thesis using kinds [OF assms(3)] assms(4) by (simp add: region_row_def no_newline)
qed

lemma table_rows_layout:
  assumes "10 \<notin> set file" "\<forall>r \<in> set rs. 10 \<notin> set (region_row r)"
  shows "table_rows (layout_text file n rs) = map region_row rs"
proof -
  define a where "a = str ''Reconstructed '' @ fmt_dec (length rs) @ str '' region(s) from '' @ file @ str '' ('' @ fmt_dec n @
       str '' bytes). Names are generic''"
  define b where "b = str ''content-type defaults '' @ [0x2014] @ str '' the flash stores no partition role names.''"
  have "10 \<notin> set a" "10 \<notin> set b" "10 \<notin> set layout_columns"
    using assms(1) by (simp_all add: a_def b_def layout_columns_def no_newline)
  moreover have "layout_text file n rs =
      a @ 10 # b @ 10 # [] @ 10 # layout_columns @ 10 # concat (map (\<lambda>r. println (region_row r)) rs)"
    by (simp only: layout_text_def layout_heading_def println_def a_def b_def append_assoc append.simps)
  ultimately have "ended_lines [] (layout_text file n rs) =
      a # b # [] # layout_columns # ended_lines [] (concat (map (\<lambda>r. println (region_row r)) rs))"
    by (simp add: ended_lines_line)
  with ended_lines_rows [of rs region_row] assms(2) show ?thesis by (simp add: table_rows_def)
qed

lemma region_targets_rows:
  assumes "\<forall>r \<in> set rs. parse_region (row_spec (region_row r)) = Ok (phys_addr r, reserved_size r)"
  shows "region_targets (map (\<lambda>r. row_spec (region_row r)) rs) =
    Ok (map (\<lambda>r. (str ''region_'' @ fmt_hex8 (unat (phys_addr r)), phys_addr r, reserved_size r)) rs)"
  using assms by (induction rs) (simp_all add: rmap_def)

text \<open>C39: the table of \<open>layout\<close> is good as the arguments of \<open>dump\<close>: the base and the reserved size of every
  row, joined by a colon, are accepted as \<open>--region\<close> and select exactly the regions found, in order, which
  tile the image up to its end.\<close>

theorem layout_rows_select_regions:
  assumes "h_read_file H file w = (Some img, w1)" "unat NOR_BASE + length img < 2 ^ 32" "10 \<notin> set file"
    and "reconstruct img NOR_BASE = Ok rs" "rs \<noteq> []" "\<forall>r \<in> set rs. 10 \<notin> set (region_detail r)"
  shows "cmd_layout H file None w = Some (Ok (),
      h_print H (println ([10] @ to_bmaconfig_xml rs)) (h_print H (layout_text file (length img) rs) w1)) \<and>
    dump_targets info (map row_spec (table_rows (layout_text file (length img) rs))) =
      Ok (map (\<lambda>r. (str ''region_'' @ fmt_hex8 (unat (phys_addr r)), phys_addr r, reserved_size r)) rs) \<and>
    tiles (unat NOR_BASE + length img) rs"
proof -
  obtain counts where names: "names_below counts rs" "tiles (unat NOR_BASE + length img) rs"
    using reconstruct_names [OF assms(2)] assms(4) by auto
  have row: "10 \<notin> set (region_row r)" "parse_region (row_spec (region_row r)) = Ok (phys_addr r, reserved_size r)"
    if r: "r \<in> set rs" for r
  proof -
    obtain k i where ki: "region_id r = str k @ str ''_'' @ fmt_dec i" "k \<in> region_kinds" "region_kind r \<in> region_kinds"
      using names(1) r unfolding names_below_def by blast
    from region_row_no_newline [OF ki] assms(6) r show "10 \<notin> set (region_row r)" by blast
    from ki show "parse_region (row_spec (region_row r)) = Ok (phys_addr r, reserved_size r)" by (rule row_spec_parses)
  qed
  have "cmd_layout H file None w = Some (Ok (),
      h_print H (println ([10] @ to_bmaconfig_xml rs)) (h_print H (layout_text file (length img) rs) w1))"
    using assms(1,4,5)
    by (simp add: cmd_layout_def read_file_def io_query_def io_bind_def layout_image_def io_lift_def ok_or_def
        print_text_def io_modify_def)
  moreover have "map row_spec (table_rows (layout_text file (length img) rs)) = map (\<lambda>r. row_spec (region_row r)) rs"
    using table_rows_layout [OF assms(3)] row(1) by simp
  moreover have "dump_targets info (map (\<lambda>r. row_spec (region_row r)) rs) =
      Ok (map (\<lambda>r. (str ''region_'' @ fmt_hex8 (unat (phys_addr r)), phys_addr r, reserved_size r)) rs)"
    using region_targets_rows [of rs] row(2) assms(5) by (simp add: dump_targets_def)
  ultimately show ?thesis
    using names(2) by (simp only:)
qed

theorem layout_rows_select_regions_witness:
  "\<exists>r. dump_targets v4035_markers (map row_spec (table_rows (layout_text (str ''flash.bin'') 65536 [r]))) =
       Ok [(str ''region_'' @ fmt_hex8 (unat (phys_addr r)), phys_addr r, reserved_size r)] \<and>
     tiles 0x60010000 [r] \<and> unat (phys_addr r) = 0x60000000"
proof -
  obtain r where r: "reconstruct demo_dump NOR_BASE = Ok [r]" "unat (phys_addr r) = 0x60000000"
    "region_detail r = uimage_detail [] True True"
    using demo_dump_regions by blast
  have "10 \<notin> set (uimage_detail [] True True)" by (simp add: uimage_detail_def)
  with r have detail: "\<forall>r \<in> set [r]. 10 \<notin> set (region_detail r)" by simp
  have whole: "unat NOR_BASE + length demo_dump < 2 ^ 32" "10 \<notin> set (str ''flash.bin'')" "[r] \<noteq> []"
    by (simp_all add: NOR_BASE_def)
  have read: "h_read_file (mock_host [(str ''flash.bin'', demo_dump)] [] 1) (str ''flash.bin'') (world mock_default) =
    (Some demo_dump, world mock_default)" by (simp add: mock_host_def)
  from layout_rows_select_regions [OF read whole(1,2) r(1) whole(3) detail, of v4035_markers] r(2)
  show ?thesis by (intro exI [of _ r]) (simp add: NOR_BASE_def)
qed

section \<open>The flags of the port list\<close>

text \<open>A port is flagged as a download port exactly when the commands take it for one, and as a module exactly
  when the boot check and the automatic station do: the first flagged row is the port that \<open>flash\<close> finds.\<close>

lemma port_tag_flags:
  "port_tag p = ''  <- BootROM download port'' \<longleftrightarrow> is_download (to_port_info p)"
  "port_tag p = ''  <- module (normal mode)'' \<longleftrightarrow> info_vid (to_port_info p) = Some MODULE_VID"
  by (auto simp: port_tag_def is_download_def to_port_info_def DOWNLOAD_VID_def MODULE_VID_def split: port_type.splits)

lemma list_ports_flags:
  assumes "os_ports B w = (Some ps, w')"
  shows "find_download_port B w =
      (map_option to_port_info (find (\<lambda>p. port_tag p = ''  <- BootROM download port'') ps), w')"
    and "find_module_ports B w =
      (map to_port_info (filter (\<lambda>p. port_tag p = ''  <- module (normal mode)'') ps), w')"
proof -
  have "find is_download (map to_port_info ps) = map_option to_port_info (find (\<lambda>p. is_download (to_port_info p)) ps)" for ps
    by (induction ps) simp_all
  then show "find_download_port B w =
      (map_option to_port_info (find (\<lambda>p. port_tag p = ''  <- BootROM download port'') ps), w')"
    by (simp add: find_download_port_def ports_def assms port_tag_flags)
  show "find_module_ports B w =
      (map to_port_info (filter (\<lambda>p. port_tag p = ''  <- module (normal mode)'') ps), w')"
    by (simp add: find_module_ports_def ports_def assms port_tag_flags filter_map comp_def)
qed

section \<open>The results of a line\<close>

text \<open>The texts of a unit that end up in its row hold no line feed.\<close>

definition one_line :: "(u32 \<Rightarrow> bool) \<Rightarrow> unit_record \<Rightarrow> bool" where
  "one_line shown r \<longleftrightarrow>
     10 \<notin> set (rec_station r) \<and> (\<forall>s \<in> set_option (rec_firmware r) \<union> set_option (rec_imei r). 10 \<notin> set s) \<and>
     (\<forall>e \<in> set_option (rec_error r). 10 \<notin> set (unit_error_text shown e))"

definition pass_rows :: "rust_string \<Rightarrow> rust_string list" where
  "pass_rows text = filter (\<lambda>l. starts_with l (str ''  [PASS] '')) (ended_lines [] text)"

lemma unit_text_lines:
  assumes "one_line shown r" "\<And>n x. 10 \<notin> set (fixed n x)"
  shows "filter (\<lambda>l. starts_with l (str ''  [PASS] '')) (ended_lines [] (unit_text shown fixed r @ rest)) =
    (if rec_result r = Pass then [result_row fixed r] else []) @
    filter (\<lambda>l. starts_with l (str ''  [PASS] '')) (ended_lines [] rest)"
proof -
  have "10 \<notin> set (str (outcome_tag (rec_result r)))" by (cases "rec_result r") (simp_all add: outcome_tag_def)
  then have row: "10 \<notin> set (result_row fixed r)"
    using assms by (auto simp: result_row_def no_newline seconds1_def one_line_def split: option.splits)
  have tag: "starts_with (result_row fixed r) (str ''  [PASS] '') \<longleftrightarrow> rec_result r = Pass"
    by (cases "rec_result r") (simp_all add: result_row_def outcome_tag_def starts_with_def)
  have err: "10 \<notin> set (str ''             error: '' @ unit_error_text shown e)"
    "\<not> starts_with (str ''             error: '' @ t) (str ''  [PASS] '')" if "rec_error r = Some e" for e t
    using assms(1) that by (simp_all add: one_line_def starts_with_def)
  show ?thesis
  proof (cases "rec_error r")
    case None
    then show ?thesis using tag by (simp add: unit_text_def println_def ended_lines_line [OF row])
  next
    case (Some e)
    define l where "l = str ''             error: '' @ unit_error_text shown e"
    have l: "10 \<notin> set l" "\<not> starts_with l (str ''  [PASS] '')" unfolding l_def using err [OF Some] by blast+
    have "unit_text shown fixed r @ rest = result_row fixed r @ 10 # l @ 10 # rest"
      by (simp add: unit_text_def println_def Some l_def)
    then show ?thesis using tag l(2) by (simp add: ended_lines_line [OF row] ended_lines_line [OF l(1)] del: str_simps)
  qed
qed

text \<open>As many rows are tagged as passed as records in the summary are passes.\<close>

lemma results_tags_count:
  assumes "\<forall>r \<in> set (sum_records sm). one_line shown r" "\<And>n x. 10 \<notin> set (fixed n x)"
  shows "pass_rows (results_text shown fixed sm) =
    map (result_row fixed) (filter (\<lambda>r. rec_result r = Pass) (sum_records sm))"
proof -
  have tail: "filter (\<lambda>l. starts_with l (str ''  [PASS] '')) (ended_lines [] (println ([10] @ totals_line fixed sm))) = []"
  proof -
    have "10 \<notin> set (totals_line fixed sm)" using assms(2) by (simp add: totals_line_def no_newline seconds1_def)
    then have "ended_lines [] (println ([10] @ totals_line fixed sm)) = [[], totals_line fixed sm]"
      using ended_lines_line [of "totals_line fixed sm" "[]" "[]"] by (simp add: println_def)
    moreover have "hd (totals_line fixed sm) \<noteq> 32"
      using fmt_no_blank(3) [of "sum_passed sm"] by (cases "fmt_dec (sum_passed sm)") (auto simp: totals_line_def fmt_dec_def)
    then have "\<not> starts_with (totals_line fixed sm) (str ''  [PASS] '')"
      by (cases "totals_line fixed sm") (simp_all add: starts_with_def)
    ultimately show ?thesis by (simp add: starts_with_def)
  qed
  have rows: "filter (\<lambda>l. starts_with l (str ''  [PASS] '')) (ended_lines [] (concat (map (unit_text shown fixed) rs) @ rest)) =
      map (result_row fixed) (filter (\<lambda>r. rec_result r = Pass) rs) @
      filter (\<lambda>l. starts_with l (str ''  [PASS] '')) (ended_lines [] rest)"
    if "\<forall>r \<in> set rs. one_line shown r" for rs rest
    using that by (induction rs) (simp_all add: unit_text_lines assms(2) del: str_simps)
  have "ended_lines [] (println ([10, 0x2500, 0x2500] @ str '' results '' @ [0x2500, 0x2500]) @ rest) =
      [] # ([0x2500, 0x2500] @ str '' results '' @ [0x2500, 0x2500]) # ended_lines [] rest" for rest
    by (simp add: println_def)
  then show ?thesis
    using rows [OF assms(1), of "println ([10] @ totals_line fixed sm)"] tail
    by (simp add: pass_rows_def results_text_def starts_with_def)
qed

text \<open>After a batch, the process prints as many rows tagged as passed as units passed, and then ends.\<close>

lemma results_show_the_units:
  assumes "line_runs B cfg job (line_init cfg t sink0) evs s" "line_result ms s = Some (Ok sm)"
    and "length (units evs) < 18446744073709551616" "\<not> ln_continuous cfg"
    and "\<forall>r \<in> set (units evs). one_line shown r" "\<And>n x. 10 \<notin> set (fixed n x)"
  shows "finish_line H shown fixed sm w = Some (Ok (line_exit_code sm), h_print H (results_text shown fixed sm) w)"
    and "length (pass_rows (results_text shown fixed sm)) = length (filter (\<lambda>r. rec_result r = Pass) (units evs))"
proof -
  note a = finished_accounts [OF accounts_runs [OF assms(1)] assms(2,3)]
  have records: "mset (sum_records sm) = mset (units evs)" using a assms(4) by (simp add: recent_tail_def)
  then have "\<forall>r \<in> set (sum_records sm). one_line shown r" using assms(5) by (metis set_mset_mset)
  from results_tags_count [OF this assms(6)] have "length (pass_rows (results_text shown fixed sm)) =
      size (filter_mset (\<lambda>r. rec_result r = Pass) (mset (sum_records sm)))" by (simp flip: mset_filter)
  then show "length (pass_rows (results_text shown fixed sm)) = length (filter (\<lambda>r. rec_result r = Pass) (units evs))"
    unfolding records by (simp flip: mset_filter)
qed (simp add: finish_line_def print_text_def io_bind_def io_modify_def)

end
