(* ===== verification/Unit_Tests.thy ===== *)
theory Unit_Tests
  imports Tables Exporter
begin

text \<open>
  The unit tests of the crates, checked on the model: each test function is a definition with the test's
  assertions over the model's definitions, the fixtures it builds are translated with it, and a lemma
  shows that it passes. The randomised tests of \<open>pac.rs\<close> are shown for every input. The tests of \<open>reconstruct.rs\<close>
  are in \<open>Layout_Tests\<close>.
\<close>

text \<open>A byte string literal.\<close>

definition bytes :: "string \<Rightarrow> u8 list" where
  "bytes s = map (\<lambda>c. word_of_nat (of_char c)) s"

lemma bytes_simps [simp]: "bytes [] = []" "bytes (c # cs) = word_of_nat (of_char c) # bytes cs"
  by (simp_all add: bytes_def)

section \<open>Checksums\<close>

definition test_crc16_arc_standard_check_value :: bool where
  "test_crc16_arc_standard_check_value \<longleftrightarrow> crc16_arc (bytes ''123456789'') = 0xBB3D \<and> crc16_arc (bytes []) = 0x0000"

definition test_crc32_standard_check_value :: bool where
  "test_crc32_standard_check_value \<longleftrightarrow> crc32 (bytes ''123456789'') = 0xCBF43926 \<and> crc32 (bytes []) = 0x00000000"

definition test_sum32_wraps_at_32_bits :: bool where
  "test_sum32_wraps_at_32_bits \<longleftrightarrow> sum32 (bytes []) = 0 \<and> sum32 [1, 2, 3] = 6 \<and> sum32 [0xFF, 0xFF, 0xFF, 0xFF] = 0x3FC"

definition test_sprd_sum_matches_captured_bootrom_frames :: bool where
  "test_sprd_sum_matches_captured_bootrom_frames \<longleftrightarrow>
     sprd_sum [0x00, 0x00, 0x00, 0x00] = (Ok 0xFFFF :: (u16, unit) result) \<and>
     sprd_sum [0x00, 0x80, 0x00, 0x00] = (Ok 0xFF7F :: (u16, unit) result)"

definition test_crc16_ccitt_known_vector :: bool where
  "test_crc16_ccitt_known_vector \<longleftrightarrow> crc16_ccitt (bytes ''123456789'') = 0x31C3"

lemma checksum_tests:
  "test_crc16_arc_standard_check_value" "test_crc32_standard_check_value" "test_sum32_wraps_at_32_bits"
  "test_sprd_sum_matches_captured_bootrom_frames" "test_crc16_ccitt_known_vector"
proof -
  show "test_crc16_arc_standard_check_value"
    using crc16_arc_check_value
    by (simp add: test_crc16_arc_standard_check_value_def) (simp add: crc16_arc_def crc16_arc_from_def)
  show "test_crc32_standard_check_value"
    using crc32_check_value by (simp add: test_crc32_standard_check_value_def) (simp add: crc32_def)
  show "test_sum32_wraps_at_32_bits" by (simp add: test_sum32_wraps_at_32_bits_def sum32_def)
  show "test_sprd_sum_matches_captured_bootrom_frames"
    by (simp add: test_sprd_sum_matches_captured_bootrom_frames_def sprd_sum_captured_frames)
  show "test_crc16_ccitt_known_vector"
    by (simp add: test_crc16_ccitt_known_vector_def crc16_ccitt_check_value)
qed

section \<open>BSL framing\<close>

definition hex :: "u8 list \<Rightarrow> rust_string" where
  "hex b = concat (map hex_byte b)"

definition test_connect_frame_matches_capture :: bool where
  "test_connect_frame_matches_capture \<longleftrightarrow>
     (case build_message CMD_CONNECT [] Sprd of
        Ok m \<Rightarrow> hex m = str ''7e00000000ffff7e''
      | Err (e :: unit) \<Rightarrow> False
      | Panic \<Rightarrow> False)"

definition test_change_baud_frame_matches_capture :: bool where
  "test_change_baud_frame_matches_capture \<longleftrightarrow>
     (case build_message CMD_CHANGE_BAUD (to_be32 0x0001C200) Sprd of
        Ok m \<Rightarrow> hex m = str ''7e000900040001c2003df17e''
      | Err (e :: unit) \<Rightarrow> False
      | Panic \<Rightarrow> False)"

definition test_escape_roundtrip_including_flags :: bool where
  "test_escape_roundtrip_including_flags \<longleftrightarrow>
     unescape (escape [0x00, 0x7E, 0x11, 0x7D, 0x22]) = [0x00, 0x7E, 0x11, 0x7D, 0x22]"

definition test_parse_rejects_short :: bool where
  "test_parse_rejects_short \<longleftrightarrow> parse_message [0, 0] = Err (FrameTooShort 2)"

section \<open>PDL framing\<close>

definition test_header_matches_capture :: bool where
  "test_header_matches_capture \<longleftrightarrow> pdl_header 12 = [0xAE, 0x0C, 0x00, 0x00, 0x00, 0xFF, 0x00, 0x00]"

definition test_connect_payload_matches_capture :: bool where
  "test_connect_payload_matches_capture \<longleftrightarrow> params PdlConnect 0 0 [] = replicate 12 0"

definition test_start_payload_layout :: bool where
  "test_start_payload_layout \<longleftrightarrow>
     (let p = params PdlStartData 0x00838000 0x33A0 (bytes ''PDL1'' @ [0])
      in take 4 p = to_le32 4 \<and> take 4 (drop 4 p) = to_le32 0x00838000 \<and> take 4 (drop 8 p) = to_le32 0x33A0 \<and>
         drop 12 p = bytes ''PDL1'' @ [0])"

definition test_parse_response_resyncs_and_reads_status :: bool where
  "test_parse_response_resyncs_and_reads_status \<longleftrightarrow>
     (case try_parse_response ([0x99] @ pdl_header 4 @ to_le32 0x12345678) of
        Some r \<Rightarrow> resp_status r = 0x12345678 \<and> length (resp_payload r) = 4
      | None \<Rightarrow> False)"

definition test_parse_response_needs_more :: bool where
  "test_parse_response_needs_more \<longleftrightarrow> try_parse_response [0xAE, 0x08, 0x00] = None"

lemma framing_tests:
  "test_connect_frame_matches_capture" "test_change_baud_frame_matches_capture"
  "test_escape_roundtrip_including_flags" "test_parse_rejects_short"
  "test_header_matches_capture" "test_connect_payload_matches_capture" "test_start_payload_layout"
  "test_parse_response_resyncs_and_reads_status" "test_parse_response_needs_more"
proof -
  note digits = fmt_digits.simps [of 16] digit_char_def
  show "test_connect_frame_matches_capture"
    by (simp add: test_connect_frame_matches_capture_def build_message_def compute_def sprd_sum_ok carry_fold_def
        swap16_def to_be16_def FLAG_def ESCAPE_def opcode_defs hex_def hex_byte_def pad_zeros_def digits Let_def)
  show "test_change_baud_frame_matches_capture"
    by (simp add: test_change_baud_frame_matches_capture_def build_message_def compute_def sprd_sum_ok carry_fold_def
        swap16_def to_be16_def to_be32_def FLAG_def ESCAPE_def opcode_defs hex_def hex_byte_def pad_zeros_def digits Let_def)
  show "test_escape_roundtrip_including_flags"
    by (simp add: test_escape_roundtrip_including_flags_def FLAG_def ESCAPE_def)
  show "test_parse_rejects_short" by (simp add: test_parse_rejects_short_def parse_message_def)
  show "test_header_matches_capture" by (simp add: test_header_matches_capture_def pdl_header_def PDL_MAGIC_def to_le16_def)
  show "test_connect_payload_matches_capture"
    by (simp add: test_connect_payload_matches_capture_def params_def to_le32_def numeral_eq_Suc)
  show "test_start_payload_layout" by (simp add: test_start_payload_layout_def params_def to_le32_def)
  show "test_parse_response_resyncs_and_reads_status"
    by (simp add: test_parse_response_resyncs_and_reads_status_def try_parse_response_def pdl_header_def PDL_MAGIC_def
        PDL_HEADER_LEN_def to_le16_def to_le32_def from_le16_def from_le32_def from_be16_def from_be32_def Let_def)
  show "test_parse_response_needs_more"
    by (simp add: test_parse_response_needs_more_def try_parse_response_def PDL_MAGIC_def PDL_HEADER_LEN_def Let_def)
qed

section \<open>The PAC container\<close>

definition test_rejects_too_small :: bool where
  "test_rejects_too_small \<longleftrightarrow> parse (replicate 16 0) False = Err (PacTooSmall 16)"

definition test_utf16z_stops_at_nul :: bool where
  "test_utf16z_stops_at_nul \<longleftrightarrow> utf16z (bytes ''A'' @ [0] @ bytes ''B'' @ [0, 0, 0] @ bytes ''C'' @ [0]) = str ''AB''"

text \<open>The two randomised tests, for the input they draw.\<close>

definition test_parse_never_panics :: "u8 list \<Rightarrow> bool \<Rightarrow> bool" where
  "test_parse_never_panics input verify \<longleftrightarrow> parse input verify \<noteq> Panic"

definition test_parse_never_panics_plausible_header :: "u8 list \<Rightarrow> bool \<Rightarrow> bool" where
  "test_parse_never_panics_plausible_header input verify \<longleftrightarrow>
     (let len = (word_of_nat (length input) :: u32)
      in parse (take OFF_PAC_SIZE input @ to_le32 len @ drop (OFF_PAC_SIZE + 4) input) verify \<noteq> Panic)"

lemma pac_tests:
  "test_rejects_too_small" "test_utf16z_stops_at_nul" "test_parse_never_panics input verify"
  "test_parse_never_panics_plausible_header input verify"
proof -
  show "test_rejects_too_small" by (simp add: test_rejects_too_small_def parse_def HEADER_SIZE_def)
  show "test_utf16z_stops_at_nul"
    by (simp add: test_utf16z_stops_at_nul_def from_le16_def from_be16_def Let_def)
  show "test_parse_never_panics input verify" "test_parse_never_panics_plausible_header input verify"
    unfolding test_parse_never_panics_def test_parse_never_panics_plausible_header_def Let_def by (rule parse_no_panic)+
qed

section \<open>The flash plan\<close>

definition test_entry :: "string \<Rightarrow> u32 \<Rightarrow> u32 \<Rightarrow> pac_entry" where
  "test_entry fid addr sz =
     \<lparr>file_id = str fid, file_name = [], entry_size = sz, entry_offset = 0, entry_address = addr,
      entry_flag = 0, entry_omit = 0\<rparr>"

definition test_markers :: pac_info where
  "test_markers =
     \<lparr>pac_version = [], product_name = [], product_version = [], pac_size = 0, pac_mode = 0, flash_type = 0,
      pac_magic = 0, header_crc_ok = True, payload_crc_ok = Some True,
      entries =
        [test_entry ''PhaseCheck'' 0xFE000002 0, test_entry ''FMT_FSSYS'' 0xFE000006 0,
         test_entry ''FMT_FSEXT'' 0xFE000006 0, test_entry ''FLASH'' 0xFE000001 0,
         test_entry ''NV'' 0xFE000003 131072, test_entry ''PREPACK'' 0xFE000004 92]\<rparr>"

definition test_erase_ops_match_vendor :: bool where
  "test_erase_ops_match_vendor \<longleftrightarrow>
     erase_ops test_markers =
       [\<lparr>erase_file_id = str ''FMT_FSSYS'', erase_address = 0xFE000006, erase_parameter = bytes ''SYSF''\<rparr>,
        \<lparr>erase_file_id = str ''FLASH'', erase_address = 0xFE000001, erase_parameter = [0, 0, 0, 0]\<rparr>]"

definition test_data_markers_are_nv_then_prepack :: bool where
  "test_data_markers_are_nv_then_prepack \<longleftrightarrow>
     map file_id (data_markers test_markers) = [str ''NV'', str ''PREPACK'']"

definition test_nv_fix_crc_patches_be_slot_only :: bool where
  "test_nv_fix_crc_patches_be_slot_only \<longleftrightarrow>
     (let blob = [0, 0] @ bytes ''hello world padding data...''; fixed = nv_fix_crc blob
      in drop 2 fixed = drop 2 blob \<and>
         push_bit 8 (ucast (fixed ! 0)) OR ucast (fixed ! 1) = crc16_arc (drop 2 blob))"

definition test_classify_prefers_fdl2_over_fdl_prefix :: bool where
  "test_classify_prefers_fdl2_over_fdl_prefix \<longleftrightarrow>
     classify (test_entry ''FDL2'' 0x00810000 100) = Fdl2 \<and>
     classify (test_entry ''HOST_FDL'' 0x00838000 100) = Fdl1 \<and>
     classify (test_entry ''AP'' 0x60010000 100) = Flash \<and>
     classify (test_entry ''NV'' 0xFE000003 131072) = Marker"

definition test_nv_start_payload_shape :: bool where
  "test_nv_start_payload_shape \<longleftrightarrow>
     (let data = nv_fix_crc (replicate 1024 0); p = nv_start_payload 0xFE000003 data
      in length p = 12 \<and> take 8 p = [0xFE, 0x00, 0x00, 0x03, 0x00, 0x00, 0x04, 0x00])"

lemmas test_entry_eval =
  test_entry_def classify_def erase_param_def LOGICAL_ADDRESS_BASE_def to_ascii_uppercase_def ascii_upper_char_def
  starts_with_def

lemma plan_tests:
  "test_erase_ops_match_vendor" "test_data_markers_are_nv_then_prepack" "test_nv_fix_crc_patches_be_slot_only"
  "test_classify_prefers_fdl2_over_fdl_prefix" "test_nv_start_payload_shape"
proof -
  show "test_erase_ops_match_vendor"
    by (simp add: test_erase_ops_match_vendor_def test_markers_def erase_ops_def test_entry_eval Let_def)
  show "test_data_markers_are_nv_then_prepack"
    by (simp add: test_data_markers_are_nv_then_prepack_def test_markers_def data_markers_def test_entry_eval is_marker_def
        is_nv_def Let_def)
  show "test_nv_fix_crc_patches_be_slot_only"
    using nv_fix_crc_eq [of "[0, 0] @ bytes ''hello world padding data...''"]
    by (simp add: test_nv_fix_crc_patches_be_slot_only_def Let_def flip: from_be16_def) (simp add: to_be16_def)
  show "test_classify_prefers_fdl2_over_fdl_prefix"
    by (simp add: test_classify_prefers_fdl2_over_fdl_prefix_def test_entry_eval Let_def)
  show "test_nv_start_payload_shape"
    by (simp add: test_nv_start_payload_shape_def Let_def) (simp add: nv_start_payload_def to_be32_def)
qed

section \<open>Regions and read-backs\<close>

definition test_parses_hex_and_decimal_regions :: bool where
  "test_parses_hex_and_decimal_regions \<longleftrightarrow>
     parse_region (str ''0x60000000:42112'') = Ok (0x60000000, 42112) \<and>
     parse_region (str ''1610612736:1024'') = Ok (1610612736, 1024) \<and>
     parse_region (str '' 0x10 : 0x20 '') = Ok (0x10, 0x20)"

definition is_err :: "('a, 'e) result \<Rightarrow> bool" where
  "is_err r \<longleftrightarrow> (case r of Err _ \<Rightarrow> True | _ \<Rightarrow> False)"

definition test_rejects_malformed_regions :: bool where
  "test_rejects_malformed_regions \<longleftrightarrow>
     is_err (parse_region (str ''0x60000000'')) \<and> is_err (parse_region (str ''nope:123'')) \<and>
     is_err (parse_region (str ''0x10:xyz''))"

definition test_reports_first_diff_and_count :: bool where
  "test_reports_first_diff_and_count \<longleftrightarrow>
     (let s = describe_mismatch [1, 2, 3, 4, 5] [1, 2, 9, 4, 8]
      in str_contains s (str ''2/5 bytes differ'') \<and> str_contains s (str ''offset 2''))"

definition test_reports_length_difference :: bool where
  "test_reports_length_difference \<longleftrightarrow>
     str_contains (describe_mismatch [1, 2, 3] [1, 2]) (str ''length 2 != written 3'')"

lemma region_tests:
  "test_parses_hex_and_decimal_regions" "test_rejects_malformed_regions" "test_reports_first_diff_and_count"
  "test_reports_length_difference"
proof -
  note eval = parse_region_def split_once_def region_number_def trim_def is_whitespace_def strip_prefix_def starts_with_def
    parse_u32_def digit_value_def ok_or_def Let_def
  show "test_parses_hex_and_decimal_regions" by (simp add: test_parses_hex_and_decimal_regions_def eval)
  show "test_rejects_malformed_regions" by (simp add: test_rejects_malformed_regions_def is_err_def eval)
  note eval_text = describe_mismatch_def differences_def first_difference_def debug_bytes_def hex_byte_def pad_zeros_def
    fmt_dec_def fmt_digits.simps [of 10] fmt_digits.simps [of 16] digit_char_def starts_with_def Let_def
  show "test_reports_first_diff_and_count" by (simp add: test_reports_first_diff_and_count_def eval_text)
  show "test_reports_length_difference" by (simp add: test_reports_length_difference_def eval_text)
qed

section \<open>Metrics\<close>

definition test_rec :: "outcome \<Rightarrow> u32 \<Rightarrow> unit_record" where
  "test_rec r attempts =
     \<lparr>rec_ts_ms = 0, rec_station = str ''s'', rec_work_order = None, rec_operator = None, rec_port = [],
      rec_product = [], rec_pac = [], rec_result = r, rec_attempts = attempts, rec_bytes = 1000,
      rec_flash_ms = 2500, rec_total_ms = 3000, rec_phases = [], rec_firmware = None, rec_imei = None,
      rec_error = None\<rparr>"

text \<open>\<open>seconds_text\<close> and the time of the look at the counters do not matter.\<close>

definition test_counts_and_renders :: "(nat \<Rightarrow> rust_string) \<Rightarrow> nat \<Rightarrow> bool" where
  "test_counts_and_renders seconds_text t \<longleftrightarrow>
     (let m = fold metrics_record [test_rec Pass 1, test_rec Pass 2, test_rec Fail 1] (metrics_default 0);
          answer = render seconds_text t m
      in str_contains answer (str ''sprdflash_units_total{result=\"pass\"} 2'') \<and>
         str_contains answer (str ''sprdflash_units_total{result=\"fail\"} 1'') \<and>
         str_contains answer (str ''sprdflash_retries_total 1'') \<and>
         str_contains answer (str ''sprdflash_bytes_total 3000'') \<and> totals m = (2, 1))"

text \<open>One client is waiting, the flag is set once it has its answer.\<close>

definition test_serves_valid_http_response :: "(nat \<Rightarrow> rust_string) \<Rightarrow> bool" where
  "test_serves_valid_http_response seconds_text \<longleftrightarrow>
     (let m = metrics_record (test_rec Pass 1) (metrics_default 0)
      in case serve_listener (net_listener m 1) seconds_text \<lparr>net_waiting = 1, net_sent = [], net_clock = 0\<rparr> of
           None \<Rightarrow> False
         | Some w \<Rightarrow>
             (case net_sent w of
                [resp] \<Rightarrow>
                  (let answer = from_utf8_lossy resp
                   in starts_with answer (str ''HTTP/1.1 200 OK'') \<and> str_contains answer (str ''text/plain'') \<and>
                      str_contains answer (str ''sprdflash_units_total{result=\"pass\"} 1''))
              | _ \<Rightarrow> False))"

lemma starts_with_iff: "starts_with s p \<longleftrightarrow> (\<exists>t. s = p @ t)"
  unfolding starts_with_def by (metis append_eq_conv_conj append_take_drop_id)

lemma str_contains_iff: "str_contains s p \<longleftrightarrow> (\<exists>a b. s = a @ p @ b)"
proof (induction s)
  case (Cons c s)
  have "(\<exists>a b. c # s = a @ p @ b) \<longleftrightarrow> (\<exists>b. c # s = p @ b) \<or> (\<exists>a b. s = a @ p @ b)"
  proof
    assume "\<exists>a b. c # s = a @ p @ b"
    then obtain a b where "c # s = a @ p @ b" by blast
    then show "(\<exists>b. c # s = p @ b) \<or> (\<exists>a b. s = a @ p @ b)" by (cases a) auto
  next
    assume "(\<exists>b. c # s = p @ b) \<or> (\<exists>a b. s = a @ p @ b)"
    then show "\<exists>a b. c # s = a @ p @ b" by (metis append_Cons append_Nil)
  qed
  with Cons show ?case by (simp add: starts_with_iff)
qed auto

lemma str_contains_line:
  assumes "l \<in> set ls"
  shows "str_contains (concat (map (\<lambda>l. l @ [10]) ls)) l"
proof -
  obtain ys zs where "ls = ys @ l # zs" using assms by (auto dest: split_list)
  then have "concat (map (\<lambda>l. l @ [10]) ls) =
      concat (map (\<lambda>l. l @ [10]) ys) @ l @ 10 # concat (map (\<lambda>l. l @ [10]) zs)" by simp
  then show ?thesis unfolding str_contains_iff by blast
qed

lemma render_contains:
  "str_contains (render seconds_text t m) (str ''sprdflash_units_total{result=\"pass\"} '' @ fmt_dec (unat (m_passed m)))"
  "str_contains (render seconds_text t m) (str ''sprdflash_units_total{result=\"fail\"} '' @ fmt_dec (unat (m_failed m)))"
  "str_contains (render seconds_text t m) (str ''sprdflash_retries_total '' @ fmt_dec (unat (m_retries m)))"
  "str_contains (render seconds_text t m) (str ''sprdflash_bytes_total '' @ fmt_dec (unat (m_bytes m)))"
  unfolding render_lines by (rule str_contains_line, simp add: metric_lines_def)+

lemma http_response_contains:
  assumes "\<forall>n. ascii_line (seconds_text n)" "r = http_response (render seconds_text t m)"
  shows "from_utf8_lossy (utf8_bytes r) = r" "starts_with r (str ''HTTP/1.1 200 OK'')" "str_contains r (str ''text/plain'')"
    "str_contains (render seconds_text t m) p \<Longrightarrow> str_contains r p"
proof -
  have "\<forall>l \<in> set (metric_lines seconds_text t m). ascii_line l" using assms(1) by (simp add: metric_lines_def)
  then have "\<forall>c \<in> set (render seconds_text t m). unat c < 128"
    by (fastforce simp: render_lines ascii_line_def split: if_splits)
  moreover have "\<forall>c \<in> set (fmt_dec n). unat c < 128" for n
    using ascii_line_fmt_dec [of n] by (auto simp: ascii_line_def)
  ultimately have "\<forall>c \<in> set r. unat c < 128" by (auto simp: assms(2) http_response_def)
  then show "from_utf8_lossy (utf8_bytes r) = r" by (rule from_utf8_lossy_utf8_ascii)
  show "starts_with r (str ''HTTP/1.1 200 OK'')"
    unfolding assms(2) http_response_def starts_with_iff by blast
  have "r = (str ''HTTP/1.1 200 OK'' @ [13, 10] @ str ''Content-Type: '') @ str ''text/plain'' @ drop 41 r"
    by (simp add: assms(2) http_response_def)
  then show "str_contains r (str ''text/plain'')" unfolding str_contains_iff by blast
  assume "str_contains (render seconds_text t m) p"
  then obtain a b where "render seconds_text t m = a @ p @ b" unfolding str_contains_iff by blast
  then show "str_contains r p"
    unfolding assms(2) http_response_def str_contains_iff by (metis append_assoc)
qed

lemma small_decimals: "fmt_dec (Suc 0) = str ''1''" "fmt_dec 2 = str ''2''" "fmt_dec 3000 = str ''3000''"
  by (simp_all add: fmt_dec_def fmt_digits.simps [of 10] digit_char_def)

lemma metrics_tests:
  assumes "\<forall>n. ascii_line (seconds_text n)"
  shows "test_counts_and_renders seconds_text t" "test_serves_valid_http_response seconds_text"
proof -
  note eval = metrics_record_def COUNT_STEPS_def count_step_def test_rec_def metrics_default_def extra_attempts_def
    flash_amount_def
  have steps: "[0..<4] = [0, 1, 2, 3 :: nat]" by (simp add: numeral_eq_Suc upt_rec)
  have m: "fold metrics_record [test_rec Pass 1, test_rec Pass 2, test_rec Fail 1] (metrics_default 0) =
      \<lparr>m_passed = 2, m_failed = 1, m_retries = 1, m_bytes = 3000, m_flash_millis = 7500, m_started = 0\<rparr>"
    "metrics_record (test_rec Pass 1) (metrics_default 0) =
      \<lparr>m_passed = 1, m_failed = 0, m_retries = 0, m_bytes = 1000, m_flash_millis = 2500, m_started = 0\<rparr>"
    by (simp_all add: eval steps)
  show "test_counts_and_renders seconds_text t"
    using render_contains [of seconds_text t "\<lparr>m_passed = 2, m_failed = 1, m_retries = 1, m_bytes = 3000, m_flash_millis = 7500, m_started = 0\<rparr>"]
    unfolding test_counts_and_renders_def Let_def m(1) totals_def by (simp add: small_decimals del: str_contains.simps)
  define r where "r = http_response (render seconds_text 1 (metrics_record (test_rec Pass 1) (metrics_default 0)))"
  note r = http_response_contains [OF assms r_def]
  have "str_contains r (str ''sprdflash_units_total{result=\"pass\"} 1'')"
    using r(4) [OF render_contains(1)] unfolding m(2) by (simp add: small_decimals del: str_contains.simps)
  moreover have "serve_listener (net_listener (metrics_record (test_rec Pass 1) (metrics_default 0)) 1) seconds_text
      \<lparr>net_waiting = 1, net_sent = [], net_clock = 0\<rparr> = Some \<lparr>net_waiting = 0, net_sent = [utf8_bytes r], net_clock = 1\<rparr>"
    by (simp add: serve_listener_def serve_loop.simps net_listener_def answer_client_def Let_def r_def)
  ultimately show "test_serves_valid_http_response seconds_text"
    using r(1-3) by (simp add: test_serves_valid_http_response_def Let_def del: str_contains.simps str_simps)
qed

section \<open>Records\<close>

definition test_json_record :: unit_record where
  "test_json_record =
     \<lparr>rec_ts_ms = 1700000000000, rec_station = str ''fixture-3'', rec_work_order = Some (str ''WO-42''),
      rec_operator = Some (str ''alice''), rec_port = str ''COM34'', rec_product = str ''UIX8910_MODEM'',
      rec_pac = str ''fw.pac'', rec_result = Pass, rec_attempts = 1, rec_bytes = 6071296, rec_flash_ms = 33200,
      rec_total_ms = 41000, rec_phases = [\<lparr>phase_name = ''partitions'', phase_ms = 30100\<rparr>],
      rec_firmware = Some (str ''LuatOS-Air_V4035''), rec_imei = Some (str ''863488050987562''), rec_error = None\<rparr>"

text \<open>With the compact serialiser of \<open>Messages\<close> for \<open>serde_json\<close>.\<close>

definition test_json_line_is_single_line_and_has_fields :: "(u32 \<Rightarrow> bool) \<Rightarrow> bool" where
  "test_json_line_is_single_line_and_has_fields shown \<longleftrightarrow>
     (let line = to_json_line (\<lambda>v. Ok (json_text v)) shown test_json_record
      in 10 \<notin> set line \<and> str_contains line (str ''\"result\":\"pass\"'') \<and>
         str_contains line (str ''\"imei\":\"863488050987562\"'') \<and>
         str_contains line (str ''\"station\":\"fixture-3\"'') \<and>
         str_contains line (str ''\"work_order\":\"WO-42\"'') \<and>
         str_contains line (str ''\"phases\":[{\"phase\":\"partitions\"''))"

lemma json_field_contains: "(k, v) \<in> set kvs \<Longrightarrow>
  str_contains (json_text (JObject kvs)) ([34] @ concat (map json_char (str k)) @ [34, 58] @ json_text v)"
proof -
  have join: "str_contains (join_text sep ss) t" if "t \<in> set ss" for sep ss t
    using that
  proof (induction sep ss rule: join_text.induct)
    case (3 sep a b ss)
    then show ?case unfolding str_contains_iff by simp (metis append_assoc append_Nil)
  qed (auto simp: str_contains_iff intro: exI [of _ "[]"])
  assume "(k, v) \<in> set kvs"
  then have "[34] @ concat (map json_char (str k)) @ [34, 58] @ json_text v
      \<in> set (map (\<lambda>(k, v). [34] @ concat (map json_char (str k)) @ [34, 58] @ json_text v) kvs)" by force
  from join [OF this, of "[44]"] show ?thesis unfolding str_contains_iff json_text.simps by (metis append_assoc)
qed

lemma json_char_plain [simp]: "c \<noteq> 34 \<Longrightarrow> c \<noteq> 92 \<Longrightarrow> \<not> c < 32 \<Longrightarrow> json_char c = [c]"
  by (simp add: json_char_def)

lemma record_tests: "test_json_line_is_single_line_and_has_fields shown"
proof -
  define kvs where "kvs = (case record_json shown test_json_record of JObject kvs \<Rightarrow> kvs | _ \<Rightarrow> [])"
  have line: "to_json_line (\<lambda>v. Ok (json_text v)) shown test_json_record = json_text (JObject kvs)"
    by (simp add: to_json_line_def kvs_def record_json_def)
  have "str_contains (json_text (JObject kvs)) (str ''\"result\":\"pass\"'')"
    using json_field_contains [of "''result''" "JString (str ''pass'')" kvs]
    by (simp add: kvs_def record_json_def test_json_record_def outcome_json_def del: str_contains.simps)
  moreover have "str_contains (json_text (JObject kvs)) (str ''\"imei\":\"863488050987562\"'')"
    using json_field_contains [of "''imei''" "JString (str ''863488050987562'')" kvs]
    by (simp add: kvs_def record_json_def test_json_record_def json_option_def del: str_contains.simps)
  moreover have "str_contains (json_text (JObject kvs)) (str ''\"station\":\"fixture-3\"'')"
    using json_field_contains [of "''station''" "JString (str ''fixture-3'')" kvs]
    by (simp add: kvs_def record_json_def test_json_record_def del: str_contains.simps)
  moreover have "str_contains (json_text (JObject kvs)) (str ''\"work_order\":\"WO-42\"'')"
    using json_field_contains [of "''work_order''" "JString (str ''WO-42'')" kvs]
    by (simp add: kvs_def record_json_def test_json_record_def json_option_def del: str_contains.simps)
  moreover have "str_contains (json_text (JObject kvs)) (str ''\"phases\":[{\"phase\":\"partitions\"'')"
  proof -
    have "str_contains (json_text (JObject kvs)) (str ''\"phases\":[{\"phase\":\"partitions\"'' @
        str '',\"seconds\":'' @ json_text (JSeconds 30100) @ str ''}]'')"
      using json_field_contains [of "''phases''" "JArray [phase_json \<lparr>phase_name = ''partitions'', phase_ms = 30100\<rparr>]" kvs]
      by (simp add: kvs_def record_json_def test_json_record_def phase_json_def del: str_contains.simps)
    then show ?thesis unfolding str_contains_iff by (metis append_assoc)
  qed
  ultimately show ?thesis
    unfolding test_json_line_is_single_line_and_has_fields_def Let_def line using json_no_newline by blast
qed

section \<open>The wait between units\<close>

text \<open>The world is the number of calls of \<open>present\<close>; sleeping leaves it alone.\<close>

definition test_present :: "nat \<Rightarrow> bool \<times> nat" where
  "test_present n =
     (let answers = [True, True, False, False, True]
      in (if n < length answers then answers ! n else True, n + 1))"

definition test_wait_cycle_waits_for_remove_then_insert :: "nat bench \<Rightarrow> bool" where
  "test_wait_cycle_waits_for_remove_then_insert B \<longleftrightarrow>
     (case wait_cycle B (\<lambda>w. (False, w)) 1 test_present 0 of
        Some (_ :: (unit, unit) result, calls) \<Rightarrow> 5 \<le> calls
      | None \<Rightarrow> False)"

definition test_wait_cycle_returns_immediately_when_stopped :: "nat bench \<Rightarrow> bool" where
  "test_wait_cycle_returns_immediately_when_stopped B \<longleftrightarrow>
     (wait_cycle B (\<lambda>w. (True, w)) 10 (\<lambda>w. (True, w)) 0 :: ((unit, unit) result \<times> nat) option) \<noteq> None"

lemma wait_cycle_tests:
  assumes "os_sleep B = (\<lambda>n w. w)"
  shows "test_wait_cycle_waits_for_remove_then_insert B"
    and "test_wait_cycle_returns_immediately_when_stopped B"
  by (simp_all add: test_wait_cycle_waits_for_remove_then_insert_def test_wait_cycle_returns_immediately_when_stopped_def
      wait_cycle_def io_bind_def wait_while.simps [of B] test_present_def poll_not_def assms Let_def)

end
