(* ===== verification/Layout_Tests.thy ===== *)
theory Layout_Tests
  imports Unit_Tests
begin

text \<open>
  The unit tests of \<open>reconstruct.rs\<close> on the model: the images they build, and that the regions
  found have the names, addresses, sizes and confidence the tests assert.
\<close>

section \<open>Fixtures\<close>

text \<open>\<open>vec![x; n]\<close>, \<open>v[a..].copy_from_slice(x)\<close> and \<open>pad_to\<close>.\<close>

definition fill :: "nat \<Rightarrow> u8 \<Rightarrow> u8 list" where
  "fill n x = replicate n x"

definition put_at :: "nat \<Rightarrow> u8 list \<Rightarrow> u8 list \<Rightarrow> u8 list" where
  "put_at a x v = take a v @ x @ drop (a + length x) v"

definition pad_to :: "nat \<Rightarrow> u8 list \<Rightarrow> u8 list" where
  "pad_to n v = v @ fill (n - length v) 0xFF"

definition test_uimage :: "u8 list \<Rightarrow> u32 \<Rightarrow> u8 list \<Rightarrow> u8 list" where
  "test_uimage name load body =
     (let hdr = put_at 32 name
            (put_at 24 (to_be32 (crc32 body)) (put_at 20 (to_be32 load) (put_at 16 (to_be32 load)
              (put_at 12 (to_be32 (word_of_nat (length body))) (put_at 8 (to_be32 0)
                (put_at 0 (to_be32 UIMAGE_MAGIC) (fill UIMAGE_HDR 0)))))));
          hcrc = crc32 hdr
      in put_at 4 (to_be32 hcrc) hdr @ body)"

definition test_genblk :: "u16 \<Rightarrow> u8 list" where
  "test_genblk g = (put_at 0 (to_le16 g) (fill BLOCK 0))[8 := 0x11]"

lemma length_fixtures [simp]:
  "length (fill n x) = n" "length (pad_to n v) = max n (length v)" "length (test_genblk g) = BLOCK"
  by (simp_all add: fill_def pad_to_def test_genblk_def put_at_def BLOCK_def)

lemma fill_0 [simp]: "fill 0 x = []"
  by (simp add: fill_def)

lemma fill_1: "fill (Suc 0) x = [x]"
  by (simp add: fill_def)

lemma nth_fill [simp]: "i < n \<Longrightarrow> fill n x ! i = x"
  by (simp add: fill_def)

lemma fill_append: "fill m x @ fill n x = fill (m + n) x"
  by (simp add: fill_def replicate_add)

section \<open>A built image is recognised\<close>

text \<open>The header with the header CRC as a parameter.\<close>

definition header_of :: "u32 \<Rightarrow> u8 list \<Rightarrow> u32 \<Rightarrow> u8 list \<Rightarrow> u8 list" where
  "header_of hcrc name load body =
     to_be32 UIMAGE_MAGIC @ to_be32 hcrc @ to_be32 0 @ to_be32 (word_of_nat (length body)) @ to_be32 load @ to_be32 load @
     to_be32 (crc32 body) @ to_be32 0 @ name @ fill (32 - length name) 0"

lemma length_header_of [simp]: "length name \<le> 32 \<Longrightarrow> length (header_of h name load body) = 64"
  by (simp add: header_of_def)

lemma fill_numeral: "fill 64 0 = to_be32 0 @ to_be32 0 @ to_be32 0 @ to_be32 0 @ to_be32 0 @ to_be32 0 @ to_be32 0 @ to_be32 0 @ fill 32 0"
  by (simp add: fill_def to_be32_def numeral_eq_Suc)

lemma put_at_skip: "length v \<le> a \<Longrightarrow> put_at a x (v @ w) = v @ put_at (a - length v) x w"
  by (simp add: put_at_def)

lemma put_at_here: "length v = length x \<Longrightarrow> put_at 0 x (v @ w) = x @ w"
  by (simp add: put_at_def)

lemma put_at_fill: "length x \<le> n \<Longrightarrow> put_at 0 x (fill n y) = x @ fill (n - length x) y"
  by (simp add: put_at_def fill_def)

lemma test_uimage_eq:
  assumes "length name \<le> 32"
  shows "test_uimage name load body = header_of (crc32 (header_of 0 name load body)) name load body @ body"
  using assms
  by (simp add: test_uimage_def UIMAGE_HDR_def fill_numeral put_at_skip put_at_here put_at_fill header_of_def Let_def)

lemma length_test_uimage [simp]: "length name \<le> 32 \<Longrightarrow> length (test_uimage name load body) = 64 + length body"
  by (simp add: test_uimage_eq)

lemma image_u32_skip: "image_u32 (p @ xs) (length p + k) = image_u32 xs k"
  by (simp add: image_u32_def nth_append)

lemma image_u32_word: "image_u32 (to_be32 x @ xs) 0 = x" "4 \<le> k \<Longrightarrow> image_u32 (to_be32 x @ xs) k = image_u32 xs (k - 4)"
proof -
  show "image_u32 (to_be32 x @ xs) 0 = x" by (simp add: image_u32_def to_be32_def)
  assume "4 \<le> k"
  then show "image_u32 (to_be32 x @ xs) k = image_u32 xs (k - 4)"
    using image_u32_skip [of "to_be32 x" xs "k - 4"] by simp
qed

lemma built_image_fields:
  assumes "length name \<le> 32"
  shows "image_u32 (header_of h name load body @ rest) 0 = UIMAGE_MAGIC" "image_u32 (header_of h name load body @ rest) 4 = h"
    "image_u32 (header_of h name load body @ rest) 12 = word_of_nat (length body)"
    "image_u32 (header_of h name load body @ rest) 24 = crc32 body"
    "(header_of h name load body)[4 := 0, 5 := 0, 6 := 0, 7 := 0] = header_of 0 name load body"
  by (simp_all add: header_of_def image_u32_word) (simp add: to_be32_def)

text \<open>Wherever such an image lies in a dump, the detector finds it intact.\<close>

lemma built_image_intact:
  assumes "length name \<le> 32" "length body < 2 ^ 32"
  shows "uimage_intact (pre @ test_uimage name load body @ post) (length pre) (64 + length body)"
proof -
  define h where "h = crc32 (header_of 0 name load body)"
  note fields = built_image_fields [OF assms(1)]
  have eq: "pre @ test_uimage name load body @ post = pre @ header_of h name load body @ body @ post"
    by (simp add: test_uimage_eq [OF assms(1)] h_def)
  have at: "image_u32 (pre @ xs) (length pre) = image_u32 xs 0" for xs using image_u32_skip [of pre xs 0] by simp
  have len: "unat (word_of_nat (length body) :: u32) = length body" using assms(2) by (intro unat_of_nat_u32) simp
  show ?thesis
    unfolding uimage_intact_def eq at image_u32_skip fields(1-4) len using assms(1) fields(5) by (simp add: h_def)
qed

lemma phase1_uimage_step:
  assumes "detect_uimage img off = Ok (Some a)" "off + BLOCK \<le> length img"
  shows "phase1 img off segs = phase1 img (round_up (off + anchor_used a) BLOCK) (segs @ [a])"
  using assms by (subst phase1.simps) simp

lemma phase1_built_image:
  assumes "uimage_intact img off used" "off + BLOCK \<le> length img"
  obtains a where "\<And>segs. phase1 img off segs = phase1 img (round_up (off + used) BLOCK) (segs @ [a])"
    "anchor_off a = off" "anchor_used a = used" "anchor_kind a = ''uimage''" "anchor_conf a = Verified"
  using detect_uimage_intact [OF assms(1)] assms(2) by (metis (no_types, lifting) phase1_uimage_step)

section \<open>Steps over a block by its first bytes\<close>

lemma head_bytes:
  assumes "take 6 (drop off img) = [b0, b1, b2, b3, b4, b5]"
  shows "off + 6 \<le> length img" "img ! off = b0" "img ! (off + 1) = b1" "img ! (off + 2) = b2" "img ! (off + 3) = b3"
    "get_range img (off + 2) (off + 6) = Some [b2, b3, b4, b5]"
proof -
  have "length (take 6 (drop off img)) = 6" using assms by simp
  then show len: "off + 6 \<le> length img" by simp
  have nth: "img ! (off + i) = [b0, b1, b2, b3, b4, b5] ! i" if "i < 6" for i
    using that len by (simp flip: assms)
  show "img ! off = b0" "img ! (off + 1) = b1" "img ! (off + 2) = b2" "img ! (off + 3) = b3"
    using nth [of 0] nth [of 1] nth [of 2] nth [of 3] by simp_all
  have "take 4 (drop (off + 2) img) = drop 2 (take 6 (drop off img))" by (simp add: drop_take add.commute)
  then show "get_range img (off + 2) (off + 6) = Some [b2, b3, b4, b5]" using len assms by (simp add: get_range_def)
qed

lemma phase1_by_head:
  assumes "take 6 (drop off img) = [b0, b1, b2, b3, b4, b5]" "off + BLOCK \<le> length img" "from_be32 b0 b1 b2 b3 \<noteq> UIMAGE_MAGIC"
  shows "[b2, b3, b4, b5] = LUADB_MAGIC \<Longrightarrow>
      phase1 img off segs = phase1 img (off + BLOCK) (segs @ [the (detect_luadb img off)]) \<and> detect_luadb img off \<noteq> None"
    and "[b2, b3, b4, b5] \<noteq> LUADB_MAGIC \<Longrightarrow> b2 \<noteq> 0 \<Longrightarrow> phase1 img off segs = phase1 img (off + BLOCK) segs"
    and "[b2, b3, b4, b5] \<noteq> LUADB_MAGIC \<Longrightarrow> b2 = 0 \<Longrightarrow> b3 = 0 \<Longrightarrow> from_le16 b0 b1 \<noteq> 0 \<Longrightarrow>
      phase1 img off segs = Ok (off, segs)"
proof -
  note h = head_bytes [OF assms(1)]
  have none: "detect_uimage img off = Ok None"
    using assms(2,3) h(2-5) by (simp add: detect_uimage_def UIMAGE_HDR_def BLOCK_def)
  have near: "img ! Suc off = b1" "\<not> length img < off + 4" using h(1,3) by simp_all
  note step = phase1.simps [of img off segs] none near assms(2) detect_luadb_def fs_generation_def h
  show "[b2, b3, b4, b5] = LUADB_MAGIC \<Longrightarrow>
      phase1 img off segs = phase1 img (off + BLOCK) (segs @ [the (detect_luadb img off)]) \<and> detect_luadb img off \<noteq> None"
    by (simp add: step del: add_2_eq_Suc')
  show "[b2, b3, b4, b5] \<noteq> LUADB_MAGIC \<Longrightarrow> b2 \<noteq> 0 \<Longrightarrow> phase1 img off segs = phase1 img (off + BLOCK) segs"
    by (simp add: step del: add_2_eq_Suc')
  show "[b2, b3, b4, b5] \<noteq> LUADB_MAGIC \<Longrightarrow> b2 = 0 \<Longrightarrow> b3 = 0 \<Longrightarrow> from_le16 b0 b1 \<noteq> 0 \<Longrightarrow>
      phase1 img off segs = Ok (off, segs)"
    by (simp add: step Let_def del: add_2_eq_Suc')
qed

lemma take_fill: "take m (fill n x) = fill (min m n) x" "drop m (fill n x) = fill (n - m) x"
  by (simp_all add: fill_def)

lemma head_of_padding:
  assumes "img = pre @ fill n 0xFF @ post" "off = length pre + k" "k + 6 \<le> n"
  shows "take 6 (drop off img) = [0xFF, 0xFF, 0xFF, 0xFF, 0xFF, 0xFF]"
proof -
  have "take 6 (drop off img) = fill 6 0xFF" using assms by (simp add: take_fill)
  then show ?thesis by (simp add: fill_def numeral_eq_Suc)
qed

lemma not_magic: "from_be32 0xFF 0xFF 0xFF 0xFF \<noteq> UIMAGE_MAGIC" "[0xFF, 0xFF, 0xFF, 0xFF] \<noteq> LUADB_MAGIC"
  "from_be32 0x01 0x04 0x5A 0xA5 \<noteq> UIMAGE_MAGIC"
  by (simp_all add: from_be32_def from_be16_def UIMAGE_MAGIC_def LUADB_MAGIC_def)

section \<open>Code images and a script pack\<close>

definition test_layout_image :: "u8 list" where
  "test_layout_image =
     (let img0 = pad_to 0x10000 (test_uimage (bytes ''boot'') 0x00800100 (fill 0x400 0xAA));
          img1 = pad_to 0x30000 (img0 @ test_uimage (bytes ''ap'') 0x60010040 (fill 0x900 0xBB))
      in pad_to 0x50000 (img1 @ [0x01, 0x04] @ LUADB_MAGIC @ fill 0x200 0xCC))"

definition test_recovers_code_and_luadb_partitions :: bool where
  "test_recovers_code_and_luadb_partitions \<longleftrightarrow>
     (case reconstruct test_layout_image NOR_BASE of
        Ok regs \<Rightarrow>
          take 3 (map region_id regs) = [str ''uimage_0'', str ''uimage_1'', str ''luadb_0''] \<and>
          take 3 (map region_kind regs) = [''uimage'', ''uimage'', ''luadb''] \<and>
          phys_addr (regs ! 0) = 0x60000000 \<and> reserved_size (regs ! 0) = 0x10000 \<and>
          used_size (regs ! 0) = word_of_nat (UIMAGE_HDR + 0x400) \<and> region_confidence (regs ! 0) = Verified \<and>
          phys_addr (regs ! 1) = 0x60010000 \<and> reserved_size (regs ! 1) = 0x20000 \<and>
          used_size (regs ! 1) = word_of_nat (UIMAGE_HDR + 0x900) \<and>
          str_contains (to_bmaconfig_xml regs) (str ''<Base>0x60000000</Base>'') \<and>
          str_contains (to_bmaconfig_xml regs) (str ''<ID>uimage_1</ID>'')
      | _ \<Rightarrow> False)"

lemma length_bytes [simp]: "length (bytes s) = length s"
  by (simp add: bytes_def)

lemma length_LUADB_MAGIC [simp]: "length LUADB_MAGIC = 4"
  by (simp add: LUADB_MAGIC_def)

lemma test_layout_image_parts:
  "test_layout_image =
     test_uimage (bytes ''boot'') 0x00800100 (fill 0x400 0xAA) @ fill 64448 0xFF @
     test_uimage (bytes ''ap'') 0x60010040 (fill 0x900 0xBB) @ fill 128704 0xFF @
     [0x01, 0x04] @ LUADB_MAGIC @ fill 0x200 0xCC @ fill 130554 0xFF"
  by (simp add: test_layout_image_def pad_to_def Let_def del: bytes_simps)

lemma length_test_layout_image [simp]: "length test_layout_image = 0x50000"
  by (simp add: test_layout_image_parts del: bytes_simps)

lemma test_layout_anchors:
  obtains a b c where "layout_anchors test_layout_image = Ok [a, b, c]"
    "anchor_off a = 0" "anchor_used a = 0x440" "anchor_kind a = ''uimage''" "anchor_conf a = Verified"
    "anchor_off b = 0x10000" "anchor_used b = 0x940" "anchor_kind b = ''uimage''" "anchor_conf b = Verified"
    "anchor_off c = 0x30000" "anchor_kind c = ''luadb''"
proof -
  define u v where "u = test_uimage (bytes ''boot'') 0x00800100 (fill 0x400 0xAA)"
    "v = test_uimage (bytes ''ap'') 0x60010040 (fill 0x900 0xBB)"
  have len: "length u = 1088" "length v = 2368" by (simp_all add: u_v_def del: bytes_simps)
  define img where "img = test_layout_image"
  have img: "img = u @ fill 64448 0xFF @ v @ fill 128704 0xFF @ [0x01, 0x04] @ LUADB_MAGIC @ fill 0x200 0xCC @ fill 130554 0xFF"
    "length img = 0x50000"
    by (simp_all add: img_def test_layout_image_parts u_v_def del: bytes_simps)
  have "uimage_intact img 0 1088"
    using built_image_intact [of "bytes ''boot''" "fill 0x400 0xAA" "[]" "0x00800100"] by (simp add: img u_v_def del: bytes_simps)
  from phase1_built_image [OF this] img(2) obtain a where
    a: "\<And>segs. phase1 img 0 segs = phase1 img (round_up (0 + 1088) BLOCK) (segs @ [a])"
      "anchor_off a = 0" "anchor_used a = 1088" "anchor_kind a = ''uimage''" "anchor_conf a = Verified"
    by (auto simp: BLOCK_def)
  have "uimage_intact img 65536 2368"
    using built_image_intact [of "bytes ''ap''" "fill 0x900 0xBB" "u @ fill 64448 0xFF" "0x60010040"]
    by (simp add: img len u_v_def(2) [symmetric] del: bytes_simps)
  from phase1_built_image [OF this] img(2) obtain b where
    b: "\<And>segs. phase1 img 65536 segs = phase1 img (round_up (65536 + 2368) BLOCK) (segs @ [b])"
      "anchor_off b = 65536" "anchor_used b = 2368" "anchor_kind b = ''uimage''" "anchor_conf b = Verified"
    by (auto simp: BLOCK_def)
  have gap: "phase1 img 131072 segs = phase1 img 196608 segs" "phase1 img 262144 segs = phase1 img 327680 segs" for segs
  proof -
    have "take 6 (drop 131072 img) = [0xFF, 0xFF, 0xFF, 0xFF, 0xFF, 0xFF]"
      by (rule head_of_padding [of img "u @ fill 64448 0xFF @ v" 128704
            "[0x01, 0x04] @ LUADB_MAGIC @ fill 0x200 0xCC @ fill 130554 0xFF" _ 63168]) (simp_all add: img(1) len)
    from phase1_by_head(2) [OF this _ not_magic(1,2)] show "phase1 img 131072 segs = phase1 img 196608 segs"
      by (simp add: img(2) BLOCK_def)
    have "take 6 (drop 262144 img) = [0xFF, 0xFF, 0xFF, 0xFF, 0xFF, 0xFF]"
      by (rule head_of_padding [of img
            "u @ fill 64448 0xFF @ v @ fill 128704 0xFF @ [0x01, 0x04] @ LUADB_MAGIC @ fill 0x200 0xCC" 130554 "[]" _ 65018])
        (simp_all add: img(1) len)
    from phase1_by_head(2) [OF this _ not_magic(1,2)] show "phase1 img 262144 segs = phase1 img 327680 segs"
      by (simp add: img(2) BLOCK_def)
  qed
  have "take 6 (drop 196608 img) = [0x01, 0x04, 0x5A, 0xA5, 0x5A, 0xA5]"
    by (simp add: img(1) len take_fill) (simp add: LUADB_MAGIC_def)
  from phase1_by_head(1) [OF this _ not_magic(3)] obtain c where
    c: "phase1 img 196608 segs = phase1 img 262144 (segs @ [c])" "detect_luadb img 196608 = Some c" for segs
    by (auto simp: img(2) BLOCK_def LUADB_MAGIC_def)
  have "phase1 img 0 [] = phase1 img 327680 [a, b, c]"
    by (simp add: a(1) b(1) c(1) gap round_up_def BLOCK_def)
  also have "\<dots> = Ok (327680, [a, b, c])" by (subst phase1.simps) (simp add: img(2) BLOCK_def)
  finally have "layout_anchors test_layout_image = Ok [a, b, c]"
    by (simp add: layout_anchors_def segment_backhalf_def img_def [symmetric] img(2))
  with that a(2-5) b(2-5) detect_luadb_Some [OF c(2)] show thesis by simp
qed

text \<open>What the XML of some regions contains of one of them.\<close>

lemma bmaconfig_contains:
  assumes "r \<in> set rs"
  shows "str_contains (to_bmaconfig_xml rs) (str ''<Base>'' @ fmt_hex8 (unat (phys_addr r)) @ str ''</Base>'')"
    "str_contains (to_bmaconfig_xml rs) (str ''<ID>'' @ region_id r @ str ''</ID>'')"
proof -
  have row: "foldl (\<lambda>s r. s @ region_xml r) x rs = x @ concat (map region_xml rs)" for x by (induction rs arbitrary: x) simp_all
  obtain ys zs where "rs = ys @ r # zs" using assms by (auto dest: split_list)
  then have "to_bmaconfig_xml rs = (xml_prologue @ concat (map region_xml ys)) @ region_xml r @
      (concat (map region_xml zs) @ str ''    </Scheme>'' @ [10] @ str ''  </SchemeList>'' @ [10] @ str ''</BMAConfig>'' @ [10])"
    unfolding to_bmaconfig_xml_def row by simp
  then obtain a b where xml: "to_bmaconfig_xml rs = a @ region_xml r @ b" by blast
  have "region_xml r = (str ''      <File>'' @ [10] @ str ''        <ID>'' @ region_id r @ str ''</ID>'' @ [10] @
      str ''        <Type>'' @ str (region_kind r) @ str ''</Type>'' @ [10] @ str ''        <Block>'' @ [10] @ str ''          '') @
      (str ''<Base>'' @ fmt_hex8 (unat (phys_addr r)) @ str ''</Base>'') @
      ([10] @ str ''          <Size>'' @ fmt_hex (unat (reserved_size r)) @ str ''</Size>'' @ [10] @
       str ''        </Block>'' @ [10] @
       str ''        <Description>'' @ str (confidence_tag (region_confidence r)) @ str '' | used '' @
       fmt_hex (unat (used_size r)) @ str '' | '' @ region_detail r @ str ''</Description>'' @ [10] @
       str ''      </File>'' @ [10])"
    by (simp add: region_xml_def)
  then obtain c d where "region_xml r = c @ (str ''<Base>'' @ fmt_hex8 (unat (phys_addr r)) @ str ''</Base>'') @ d" by blast
  with xml show "str_contains (to_bmaconfig_xml rs) (str ''<Base>'' @ fmt_hex8 (unat (phys_addr r)) @ str ''</Base>'')"
    unfolding str_contains_iff by (intro exI [of _ "a @ c"] exI [of _ "d @ b"]) (simp del: str_simps)
  have "region_xml r = (str ''      <File>'' @ [10] @ str ''        '') @ (str ''<ID>'' @ region_id r @ str ''</ID>'') @
      drop (length (str ''      <File>'' @ [10] @ str ''        <ID>'' @ region_id r @ str ''</ID>'')) (region_xml r)"
    by (simp add: region_xml_def)
  then obtain c d where "region_xml r = c @ (str ''<ID>'' @ region_id r @ str ''</ID>'') @ d" by blast
  with xml show "str_contains (to_bmaconfig_xml rs) (str ''<ID>'' @ region_id r @ str ''</ID>'')"
    unfolding str_contains_iff by (intro exI [of _ "a @ c"] exI [of _ "d @ b"]) (simp del: str_simps)
qed

lemma layout_test: "test_recovers_code_and_luadb_partitions"
proof -
  obtain a b c where anchors: "layout_anchors test_layout_image = Ok [a, b, c]"
    "anchor_off a = 0" "anchor_used a = 0x440" "anchor_kind a = ''uimage''" "anchor_conf a = Verified"
    "anchor_off b = 0x10000" "anchor_used b = 0x940" "anchor_kind b = ''uimage''" "anchor_conf b = Verified"
    "anchor_off c = 0x30000" "anchor_kind c = ''luadb''"
    by (rule test_layout_anchors)
  obtain u where "used_len test_layout_image 0x30000 0x50000 = Ok u"
    using used_len_ok [of "0x30000" "0x50000" test_layout_image] by auto
  with anchors have "\<exists>rs. reconstruct test_layout_image NOR_BASE = Ok rs \<and>
      map region_id rs = [str ''uimage_0'', str ''uimage_1'', str ''luadb_0''] \<and>
      map region_kind rs = [''uimage'', ''uimage'', ''luadb''] \<and>
      map phys_addr rs = [0x60000000, 0x60010000, 0x60030000] \<and> map reserved_size rs = [0x10000, 0x20000, 0x20000] \<and>
      map used_size rs = [0x440, 0x940, word_of_nat u] \<and> region_confidence (rs ! 0) = Verified"
    by (simp add: reconstruct_def Let_def add_u32_def NOR_BASE_def fmt_dec_def fmt_digits.simps [of 10] digit_char_def)
  then obtain r s t where regs: "reconstruct test_layout_image NOR_BASE = Ok [r, s, t]"
    "region_id s = str ''uimage_1''" and f: "map region_id [r, s, t] = [str ''uimage_0'', str ''uimage_1'', str ''luadb_0'']"
      "map region_kind [r, s, t] = [''uimage'', ''uimage'', ''luadb'']" "phys_addr r = 0x60000000" "phys_addr s = 0x60010000"
      "reserved_size r = 0x10000" "reserved_size s = 0x20000" "used_size r = 0x440" "used_size s = 0x940"
      "region_confidence r = Verified"
    by (auto simp: map_eq_Cons_conv)
  have "fmt_hex8 (unat (phys_addr r)) = str ''0x60000000''"
    by (simp add: f(3) fmt_hex8_def fmt_digits.simps [of 16] digit_char_def)
  then have "str_contains (to_bmaconfig_xml [r, s, t]) (str ''<Base>0x60000000</Base>'')"
    "str_contains (to_bmaconfig_xml [r, s, t]) (str ''<ID>uimage_1</ID>'')"
    using bmaconfig_contains(1) [of r "[r, s, t]"] bmaconfig_contains(2) [of s "[r, s, t]"] regs(2)
    by (simp_all del: str_contains.simps)
  with regs(1) f show ?thesis
    by (simp add: test_recovers_code_and_luadb_partitions_def UIMAGE_HDR_def del: str_contains.simps)
qed

section \<open>A damaged payload\<close>

definition test_damaged_image :: "u8 list" where
  "test_damaged_image =
     (let img = test_uimage (bytes ''x'') 0x60000040 (fill 0x100 0x11)
      in pad_to 0x10000 (img[UIMAGE_HDR + 10 := img ! (UIMAGE_HDR + 10) XOR 0xFF]))"

definition test_corrupt_payload_drops_confidence :: bool where
  "test_corrupt_payload_drops_confidence \<longleftrightarrow>
     (case reconstruct test_damaged_image NOR_BASE of
        Ok regs \<Rightarrow> region_confidence (regs ! 0) = Derived \<and> str_contains (region_detail (regs ! 0)) (str ''dcrc=BAD'')
      | _ \<Rightarrow> False)"

text \<open>The detector over a header with some other body of the same length.\<close>

lemma detect_other_body:
  assumes "length name \<le> 32" "length body < 2 ^ 32" "length d = length body"
    and "img = header_of (crc32 (header_of 0 name load body)) name load body @ d @ post"
  obtains a where "detect_uimage img 0 = Ok (Some a)" "anchor_off a = 0" "anchor_used a = 64 + length body"
    "anchor_kind a = ''uimage''" "anchor_conf a = (if crc32 d = crc32 body then Verified else Derived)"
    "\<exists>name. anchor_detail a = uimage_detail name True (crc32 d = crc32 body)"
proof -
  define sz where "sz = (word_of_nat (length body) :: u32)"
  have len: "unat sz = length body" unfolding sz_def using assms(2) by (intro unat_of_nat_u32) simp
  define h where "h = crc32 (header_of 0 name load body)"
  have img: "img = header_of h name load body @ d @ post" by (simp add: assms(4) h_def)
  have long: "64 + length body \<le> length img" using assms(1,3) by (simp add: img)
  have u32: "image_u32 img 0 = UIMAGE_MAGIC" "image_u32 img 4 = h" "image_u32 img 12 = sz"
    "image_u32 img 24 = crc32 body"
    unfolding img sz_def by (rule built_image_fields [OF assms(1)])+
  note u32 = u32 [unfolded image_u32_def, simplified]
  have cut: "take 64 img = header_of h name load body" "take (length body) (drop 64 img) = d"
    using assms(1,3) by (simp_all add: img)
  have hdr: "crc32 ((take 64 img)[4 := 0, 5 := 0, 6 := 0, 7 := 0]) = h"
    unfolding cut(1) built_image_fields(5) [OF assms(1)] h_def ..
  note cut = cut(2)
  have "detect_uimage img 0 = Ok (Some \<lparr>anchor_off = 0, anchor_kind = ''uimage'', anchor_used = 64 + length body,
      anchor_conf = (if crc32 d = crc32 body then Verified else Derived),
      anchor_detail = uimage_detail (uimage_name (take 32 (drop 32 img))) True (crc32 d = crc32 body)\<rparr>)"
    using long hdr
    by (simp only: detect_uimage_def UIMAGE_HDR_def, simp add: u32(1), simp add: u32(2,3,4) len, simp add: Let_def cut)
  from that [OF this] show thesis by auto
qed

lemma damaged_test: "test_corrupt_payload_drops_confidence"
proof -
  define h where "h = crc32 (header_of 0 (bytes ''x'') 0x60000040 (fill 0x100 0x11))"
  define d where "d = fill 10 0x11 @ [0xEE] @ fill 245 0x11"
  have split: "fill 0x100 0x11 = fill 10 0x11 @ [0x11] @ fill 245 0x11"
    using fill_append [of 10 "0x11" 246] fill_append [of 1 "0x11" 245] by (simp add: fill_1)
  have "crc32 d \<noteq> crc32 (fill 0x100 0x11)"
    unfolding d_def split by (rule crc32_detects) simp_all
  moreover
  have "test_damaged_image = header_of h (bytes ''x'') 0x60000040 (fill 0x100 0x11) @ d @ fill 65216 0xFF"
  proof -
    have "length (header_of h (bytes ''x'') 0x60000040 (fill 0x100 0x11)) = 64" by simp
    moreover have "test_uimage (bytes ''x'') 0x60000040 (fill 0x100 0x11) =
        header_of h (bytes ''x'') 0x60000040 (fill 0x100 0x11) @ fill 10 0x11 @ [0x11] @ fill 245 0x11"
      by (subst test_uimage_eq) (simp_all only: h_def split [symmetric], simp)
    ultimately show ?thesis
      unfolding test_damaged_image_def Let_def
      by (simp only:) (simp add: UIMAGE_HDR_def pad_to_def d_def nth_append list_update_append del: bytes_simps)
  qed
  ultimately obtain a where a: "detect_uimage test_damaged_image 0 = Ok (Some a)" "anchor_off a = 0"
    "anchor_used a = 320" "anchor_kind a = ''uimage''" "anchor_conf a = Derived"
    "\<exists>name. anchor_detail a = uimage_detail name True False"
    using detect_other_body [of "bytes ''x''" "fill 0x100 0x11" d test_damaged_image "0x60000040" "fill 65216 0xFF"]
    by (auto simp: h_def d_def)
  have len: "length test_damaged_image = 65536" by (simp add: test_damaged_image_def Let_def)
  have "phase1 test_damaged_image 0 [] = phase1 test_damaged_image 65536 [a]"
    using phase1_uimage_step [OF a(1)] a(3) by (simp add: len BLOCK_def round_up_def)
  also have "\<dots> = Ok (65536, [a])" by (subst phase1.simps) (simp add: len BLOCK_def)
  finally have "layout_anchors test_damaged_image = Ok [a]" by (simp add: layout_anchors_def segment_backhalf_def len)
  then have "\<exists>r. reconstruct test_damaged_image NOR_BASE = Ok [r] \<and> region_confidence r = Derived \<and> region_detail r = anchor_detail a"
    using a(2-5) by (simp add: reconstruct_def Let_def add_u32_def NOR_BASE_def len)
  moreover have "str_contains (anchor_detail a) (str ''dcrc=BAD'')"
  proof -
    obtain name where "anchor_detail a = uimage_detail name True False" using a(6) by blast
    then have "\<exists>s. anchor_detail a = s @ str ''dcrc=BAD'' @ []"
      by (intro exI [of _ "take (length (anchor_detail a) - 8) (anchor_detail a)"]) (simp add: uimage_detail_def)
    then show ?thesis unfolding str_contains_iff by blast
  qed
  ultimately show ?thesis by (auto simp: test_corrupt_payload_drops_confidence_def simp del: str_contains.simps)
qed

section \<open>A back half with generation counters\<close>

definition test_backhalf_image :: "u8 list" where
  "test_backhalf_image =
     pad_to BLOCK (test_uimage (bytes ''fw'') 0x60000040 (fill 0x400 0xAA)) @
     concat (map test_genblk [5, 5]) @ concat (map (\<lambda>_. test_genblk 9) [0..<4]) @ test_genblk 0x100"

definition test_segments_backhalf_by_longest_generation_run :: bool where
  "test_segments_backhalf_by_longest_generation_run \<longleftrightarrow>
     (case reconstruct test_backhalf_image NOR_BASE of
        Ok regs \<Rightarrow>
          map region_id regs = [str ''uimage_0'', str ''filesystem_0'', str ''filesystem_1'', str ''nv_0''] \<and>
          phys_addr (regs ! 1) = 0x60010000 \<and> reserved_size (regs ! 1) = 0x20000 \<and>
          phys_addr (regs ! 2) = 0x60030000 \<and> reserved_size (regs ! 2) = 0x40000 \<and>
          phys_addr (regs ! 3) = 0x60070000 \<and> region_kind (regs ! 3) = ''nv''
      | _ \<Rightarrow> False)"

lemma head_of_genblk: "take 6 (test_genblk g @ rest) = to_le16 g @ [0, 0, 0, 0]"
proof -
  have "take 6 (test_genblk g) = take 6 (put_at 0 (to_le16 g) (fill BLOCK 0))" by (simp add: test_genblk_def)
  also have "\<dots> = take 6 (to_le16 g @ fill (BLOCK - 2) 0)" by (subst put_at_fill) (simp_all add: BLOCK_def to_le16_def)
  also have "\<dots> = to_le16 g @ [0, 0, 0, 0]"
    by (simp add: take_fill BLOCK_def to_le16_def) (simp add: fill_def numeral_eq_Suc)
  finally show ?thesis by (simp add: BLOCK_def)
qed

lemma fs_generation_head:
  assumes "take 6 (drop off img) = to_le16 g @ [0, 0, 0, 0]" "g \<noteq> 0"
  shows "fs_generation img off = Some g"
proof -
  obtain b0 b1 where g: "to_le16 g = [b0, b1]" "from_le16 b0 b1 = g" by (simp add: to_le16_def from_le16_def)
  have "take 6 (drop off img) = [b0, b1, 0, 0, 0, 0]" using assms(1) g(1) by simp
  note h = head_bytes [OF this]
  have "img ! Suc off = b1" "\<not> length img < off + 4" using h(1,3) by simp_all
  then show ?thesis using h(2,4,5) g(2) assms(2) by (simp add: fs_generation_def del: add_2_eq_Suc')
qed

lemma test_backhalf_anchors:
  obtains a x y z where
    "layout_anchors test_backhalf_image = Ok [a, fs_anchor 0x10000 x, fs_anchor 0x30000 y, fs_anchor 0x70000 z]"
    "anchor_off a = 0" "anchor_used a = 0x440" "anchor_kind a = ''uimage''" "length test_backhalf_image = 0x80000"
proof -
  define u where "u = test_uimage (bytes ''fw'') 0x60000040 (fill 0x400 0xAA)"
  have len: "length u = 1088" by (simp add: u_def del: bytes_simps)
  define img where "img = test_backhalf_image"
  have four: "[0..<4] = [0, 1, 2, 3 :: nat]" by (simp add: numeral_eq_Suc upt_rec)
  have img: "img = u @ fill 64448 0xFF @ test_genblk 5 @ test_genblk 5 @ test_genblk 9 @ test_genblk 9 @ test_genblk 9 @
      test_genblk 9 @ test_genblk 0x100"
    by (simp add: img_def test_backhalf_image_def u_def pad_to_def BLOCK_def four del: bytes_simps)
  have long: "length img = 0x80000" by (simp add: img len BLOCK_def)
  have "uimage_intact img 0 1088"
    using built_image_intact [of "bytes ''fw''" "fill 0x400 0xAA" "[]" "0x60000040"] by (simp add: img u_def del: bytes_simps)
  from phase1_built_image [OF this] long obtain a where
    a: "\<And>segs. phase1 img 0 segs = phase1 img (round_up (0 + 1088) BLOCK) (segs @ [a])"
      "anchor_off a = 0" "anchor_used a = 1088" "anchor_kind a = ''uimage''" "anchor_conf a = Verified"
    by (auto simp: BLOCK_def)
  have head: "take 6 (drop pos img) = to_le16 g @ [0, 0, 0, 0]"
    if "(pos, g) \<in> set [(65536, 5), (131072, 5), (196608, 9), (262144, 9), (327680, 9), (393216, 9), (458752, 0x100)]" for pos g
    using that head_of_genblk [of g] head_of_genblk [of "0x100" "[]"] by (auto simp: img len BLOCK_def)
  have gens: "fs_generation img 65536 = Some 5" "fs_generation img 131072 = Some 5" "fs_generation img 196608 = Some 9"
    "fs_generation img 262144 = Some 9" "fs_generation img 327680 = Some 9" "fs_generation img 393216 = Some 9"
    "fs_generation img 458752 = Some 0x100"
    by (rule fs_generation_head, rule head, simp, simp)+
  define blocks :: "(nat \<times> u16 option) list" where "blocks = [(65536, Some 5), (131072, Some 5), (196608, Some 9),
    (262144, Some 9), (327680, Some 9), (393216, Some 9), (458752, Some 0x100)]"
  have seven: "[0..<7] = [0, 1, 2, 3, 4, 5, 6 :: nat]" by (simp add: numeral_eq_Suc upt_rec)
  have "backhalf_blocks img 65536 524288 = blocks"
    by (simp add: backhalf_blocks_def step_offsets_def BLOCK_def seven gens blocks_def)
  moreover have "longest_run blocks 0 0 0 = (2, 4)"
    by (simp add: blocks_def longest_run.simps [of "_ # _"] run_end.simps [of "_ # _"] Let_def)
  moreover have "(index blocks 2 :: (nat \<times> u16 option, unit) result) = Ok (196608, Some 9)" by (simp add: blocks_def index_def)
  ultimately have "\<exists>x y z. segment_backhalf img 65536 524288 = Ok [fs_anchor 65536 x, fs_anchor 196608 y, fs_anchor 458752 z]"
    by (simp add: segment_backhalf_def BLOCK_def Let_def) blast
  then obtain x y z where
    rear: "segment_backhalf img 65536 524288 = Ok [fs_anchor 65536 x, fs_anchor 196608 y, fs_anchor 458752 z]" by blast
  have "take 6 (drop 65536 img) = [5, 0, 0, 0, 0, 0]"
    using head [of 65536 5] by (simp add: to_le16_def)
  from phase1_by_head(3) [OF this] have "phase1 img 65536 [a] = Ok (65536, [a])"
    by (simp add: long BLOCK_def from_be32_def from_le16_def from_be16_def UIMAGE_MAGIC_def LUADB_MAGIC_def)
  then have "phase1 img 0 [] = Ok (65536, [a])" by (simp add: a(1) round_up_def BLOCK_def)
  with rear have "layout_anchors img = Ok [a, fs_anchor 65536 x, fs_anchor 196608 y, fs_anchor 458752 z]"
    by (simp add: layout_anchors_def long)
  with that a(2-4) long show thesis by (simp add: img_def)
qed

lemma backhalf_test: "test_segments_backhalf_by_longest_generation_run"
proof -
  obtain a x y z where anchors:
    "layout_anchors test_backhalf_image = Ok [a, fs_anchor 0x10000 x, fs_anchor 0x30000 y, fs_anchor 0x70000 z]"
    "anchor_off a = 0" "anchor_used a = 0x440" "anchor_kind a = ''uimage''" "length test_backhalf_image = 0x80000"
    by (rule test_backhalf_anchors)
  obtain s t v where "used_len test_backhalf_image 0x10000 0x30000 = Ok s" "used_len test_backhalf_image 0x30000 0x70000 = Ok t"
    "used_len test_backhalf_image 0x70000 0x80000 = Ok v"
    using used_len_ok [of "0x10000" "0x30000" test_backhalf_image] used_len_ok [of "0x30000" "0x70000" test_backhalf_image]
      used_len_ok [of "0x70000" "0x80000" test_backhalf_image] anchors(5) by auto
  with anchors show ?thesis
    by (simp add: test_segments_backhalf_by_longest_generation_run_def reconstruct_def fs_anchor_def Let_def add_u32_def
        NOR_BASE_def fmt_dec_def fmt_digits.simps [of 10] digit_char_def)
qed

end
