(* ===== verification/Spec2Isabelle.thy ===== *)
theory Spec2Isabelle
  imports Flash_Command Exporter Usb_Restart Layout_Tests
begin

text \<open>
  A verification of sprdflash, the command-line flasher for SPRD/UNISOC modules.

  \<^bold>\<open>The program.\<close> A \<open>.pac\<close> file is parsed (\<open>core/pac.rs\<close>) and turned into a flash plan (\<open>core/plan.rs\<close>). A
  device in download mode is brought up in two stages: the boot ROM speaks PDL (\<open>core/pdl.rs\<close>,
  \<open>flash/pdl_io.rs\<close>) and loads FDL1, which speaks BSL (\<open>core/bsl.rs\<close>, \<open>flash/bsl_io.rs\<close>) and loads FDL2;
  then partitions, erases, the NV image and markers are written or flash is read (\<open>flash/flasher.rs\<close>). All of it
  goes over a byte stream (\<open>transport/serial.rs\<close>). A production line (\<open>line/line.rs\<close>) runs one thread per
  station; a station (\<open>line/station.rs\<close>) takes a unit into download mode, flashes it, verifies its boot
  (\<open>line/verify.rs\<close>) and retries; records (\<open>line/record.rs\<close>) and counters (\<open>line/metrics.rs\<close>) report it.
  \<open>core/reconstruct.rs\<close> recovers a partition layout from a raw dump, and \<open>cli/main.rs\<close> has the commands.

  \<^bold>\<open>How it is modelled.\<close> \<open>Prelude\<close> fixes the vocabulary. Machine integers are words of their width, \<open>usize\<close> is
  \<open>nat\<close> with its limit written out where a checked operation uses it. A call that can fail is a \<open>result\<close>: \<open>Ok\<close>,
  \<open>Err\<close> with the error the code returns, or \<open>Panic\<close> for a failed slice, an overflow (the release profile keeps the
  checks on) or an \<open>unreachable!\<close>. Code with effects is state passing over a world \<open>'w\<close>; \<open>None\<close> is a call
  that never returns, and every loop that waits for a device is a \<open>partial_function\<close> whose termination is
  proved. Rust strings are lists of Unicode scalar values (\<open>Rust_Text\<close>, with the decoder of \<open>from_utf8_lossy\<close>).
  Durations and the clock are natural numbers of milliseconds, where the code has \<open>Duration\<close> or \<open>f64\<close> seconds.

  \<^bold>\<open>What is a parameter.\<close> The operating system: \<open>bench\<close> (serial ports, their enumeration, the clock, the restart
  of a device), \<open>host\<close> (a bench, the calls on files and the standard output), \<open>listener\<close> (the socket of the exporter). The third-party
  crates: \<open>serialport\<close> and \<open>ctrlc\<close> are behind these records, \<open>serde_json::to_string\<close> is an argument of \<open>to_json_line\<close>,
  \<open>clap\<close> is replaced by the value it returns. Of the standard library, the texts of floating-point
  numbers and the table of printable characters are arguments. The interleaving of threads is a list of events.

  \<^bold>\<open>The theories.\<close>

  \<^item> Data and formats, \<open>crates/sprdflash-core\<close>: \<open>Checksum\<close> (the Spreadtrum sum, three CRCs; a table-driven CRC
    equals its shift register and detects bursts), \<open>Bsl\<close> and \<open>Pdl\<close> (framing; a message built is the message
    parsed), \<open>Pac\<close> (the parser never panics, accepts exactly the files it should, sees every change of two
    bytes once the CRCs verified), \<open>Utf8\<close> (what it decodes is well typed), \<open>Plan\<close> (roles, erases, NV image, and a
    specification of the plan by the ids and addresses of the entries),
    \<open>Reconstruct\<close> (the regions tile the flash).

  \<^item> Links, \<open>crates/sprdflash-transport\<close> and \<open>sprdflash-flash\<close>: \<open>Transport\<close> (the trait, the deadline reader),
    \<open>Bench\<close> (serial ports on the operating system), \<open>Usb_Restart\<close>, \<open>Bsl_Io\<close> and \<open>Pdl_Io\<close> (one exchange, whatever
    the fragmentation), \<open>Flasher\<close> (the sessions), \<open>Sessions\<close> (every session ends; the adaptive write equals a schedule
    of falling chunk sizes), \<open>Device\<close> and \<open>Flash_Size\<close> (the sessions against an abstract memory).

  \<^item> The simulated device, \<open>flash/src/mock.rs\<close>: \<open>Mock\<close> (state and one definition per branch), \<open>Mock_Device\<close> (it meets
    the contracts of \<open>Device\<close>), \<open>Mock_Flash\<close> (flashes, dumps and read-backs end to end).

  \<^item> The line, \<open>crates/sprdflash-line\<close>: \<open>Station\<close> and \<open>Station_Units\<close> (one unit, its record, the waits; the
    chain of worlds behind a pass; a bench with a module that answers on its AT port), \<open>Metrics\<close> and
    \<open>Exporter\<close> (counters, their text, the HTTP server), \<open>Line\<close> and \<open>Line_Runs\<close> (the threads as steps, what a
    finished line accounts for, how long it may run), \<open>Messages\<close> (error texts, JSON records, diagnostics).

  \<^item> The commands, \<open>crates/sprdflash-cli\<close>: \<open>Cli\<close> (on the bytes of files), \<open>Regions\<close> (the region arguments),
    \<open>Retry\<close> (flashing with recovery), \<open>Clone\<close> (golden images and dumps), \<open>Console\<close> (the tables the commands
    print), \<open>Program\<close> (files, printing and dispatch), \<open>Tables\<close> (the printed tables, read back), \<open>Flash_Command\<close> (from a file to the memory of a device, and from one device to another).

  \<^item> The tests inside the crates: \<open>Unit_Tests\<close> and \<open>Layout_Tests\<close> translate each test function, with the fixtures it
    builds, and show that it passes on the model, which checks the definitions against the vendor frames, the CRC
    check values and the flash images the repository expects. The randomised tests hold for every input.

  \<^bold>\<open>The interfaces.\<close> \<open>stream_parser\<close> (an answer that more bytes do not change) is interpreted on the three parsers of the
  byte stream; \<open>byte_checksum\<close> and \<open>crc_update\<close> on the checksums; \<open>live_transport\<close> (a read takes time or uses up
  bytes) on the mock's wire, and every port of a \<open>live_bench\<close> is one; \<open>live_bench\<close> and \<open>live_host\<close> on the mock device's
  bench and desk; \<open>moving_listener\<close> and \<open>live_listener\<close> (which adds a time by which the flag is set) on a network of clients that send their request. \<open>bsl_device\<close>, \<open>flash_device\<close> and
  \<open>boot_device\<close> are the contract of the device: each message is one step on its state, a step acts on a memory or
  leaves it alone, replies may be lost. They are interpreted on the device of \<open>mock.rs\<close>, whose refinement of
  the memory gives the end-to-end properties.

  \<^bold>\<open>What is shown.\<close> Safety and error paths: no PAC panics the parser, a damaged PAC reaches no device, \<open>clone\<close> writes
  verified images only, a pass is recorded only for a unit that was flashed and answered. Function: a successful
  flash is exactly the planned memory, a dump is exactly what the device holds, a device flashed with the clone
  of another holds its images, the summary, the exit code, the
  records file and the exported counters agree with the units that ended, the rows of the layout table are the
  arguments that dump its regions. Termination, on an environment in which time passes: sessions, units and every
  command but \<open>line\<close> return; a line ends as a batch and, when it is continuous, once the stop flag is set, in the sense
  that boundedly many steps are left and one is possible until it is over; the exporter ends if no client blocks
  its socket. Each property has its claim id in
  the text above it and, where it has hypotheses, a witness at concrete values. Three properties state defects
  of the code (\<open>stopped_station_starts_a_unit\<close>, \<open>retry_limit_panics\<close>, \<open>oversized_message_is_cut\<close>), and so do the
  lemmas \<open>portless_station_fails\<close> and \<open>silent_client_blocks_exporter\<close>.

  \<^bold>\<open>Bounds.\<close> Loops with a bound in the code keep it: 2 flash attempts, 40 polls after a reset, the doublings and
  halvings of the size search up to 128 MiB, the halvings of a chunk down to 512. The adaptive retry recurses on the
  chunk, which falls. No definition has fuel of its own.

  \<^bold>\<open>Not modelled.\<close> The parsing of arguments (declarations for \<open>clap\<close>), the log lines, and the progress and
  closing remarks of the commands that work on a device: they do not act on a device or a file. The context lines \<open>anyhow\<close> adds are constructors of \<open>cli_error\<close>. A
  write to the records file that fails is taken to write nothing. \<open>RecoveryStrategy\<close> and \<open>Serial::name\<close> have no user. The
  Python script for the MES, the schemas and the packaging are not Rust.
\<close>

end
